(* ===== verification/Prelude.thy ===== *)
theory Prelude
  imports Main
begin

text \<open>
  Shared vocabulary of the development.

  Every function of the program that can reach undefined behaviour or a failed
  \<open>assert\<close> is modelled as a function into \<open>outcome\<close>: \<open>Ret v\<close> is a normal return,
  \<open>Fault f\<close> says which undefined behaviour, abort or exit was reached first. A function
  that may also run forever is modelled into \<open>outcome option\<close>, with \<open>None\<close> for that case.
  Owned heap blocks are \<open>ptr\<close> values, so that a second \<open>free\<close> is a \<open>Fault\<close>.
  The rest are generic facts about \<open>take\<close>, \<open>drop\<close> and slices of memory used by
  several components.
\<close>

named_theorems outcome_simps \<open>evaluation of the outcome monad\<close>
named_theorems slice_simps \<open>slices of memory blocks\<close>

section \<open>Outcomes: normal return or undefined behaviour\<close>

datatype fault =
    Out_Of_Bounds        \<comment> \<open>a read or write outside the block a pointer points into\<close>
  | Bad_Free             \<comment> \<open>\<open>free\<close> of a pointer that was already freed\<close>
  | Use_After_Free       \<comment> \<open>an access through a pointer to a freed object\<close>
  | Null_Dereference
  | Uninitialised        \<comment> \<open>a call through a function pointer that was never set\<close>
  | Signed_Overflow
  | Assertion_Failed     \<comment> \<open>\<open>assert\<close> in a build without \<open>NDEBUG\<close>\<close>
  | Exit_Failure         \<comment> \<open>the program calls \<open>exit(EXIT_FAILURE)\<close>\<close>

datatype 'a outcome = Fault fault | Ret 'a

fun bindO :: "'a outcome \<Rightarrow> ('a \<Rightarrow> 'b outcome) \<Rightarrow> 'b outcome" where
  "bindO (Fault f) k = Fault f"
| "bindO (Ret v) k = k v"

abbreviation safe :: "'a outcome \<Rightarrow> bool" where
  "safe m \<equiv> (\<exists>v. m = Ret v)"

lemma bindO_cong [fundef_cong]:
  "m = m' \<Longrightarrow> (\<And>v. m' = Ret v \<Longrightarrow> k v = k' v) \<Longrightarrow> bindO m k = bindO m' k'"
  by (cases m') auto

lemma bindO_Ret_iff [outcome_simps]:
  "bindO m k = Ret w \<longleftrightarrow> (\<exists>v. m = Ret v \<and> k v = Ret w)"
  by (cases m) auto

lemma bindO_Fault_iff [outcome_simps]:
  "bindO m k = Fault f \<longleftrightarrow> m = Fault f \<or> (\<exists>v. m = Ret v \<and> k v = Fault f)"
  by (cases m) auto

lemma bindO_assoc: "bindO (bindO m k) h = bindO m (\<lambda>v. bindO (k v) h)"
  by (cases m) auto

lemma bindO_Ret_right [simp]: "bindO m Ret = m"
  by (cases m) auto

lemma safe_bindO:
  "safe m \<Longrightarrow> (\<And>v. m = Ret v \<Longrightarrow> safe (k v)) \<Longrightarrow> safe (bindO m k)"
  by auto

lemma not_Fault_safe: "(\<forall>f. m \<noteq> Fault f) \<longleftrightarrow> safe m"
  by (cases m) auto

text \<open>Runs that may not end.\<close>

type_synonym 'a run = "'a outcome option"

fun bindR :: "'a run \<Rightarrow> ('a \<Rightarrow> 'b run) \<Rightarrow> 'b run" where
  "bindR None k = None"
| "bindR (Some (Fault f)) k = Some (Fault f)"
| "bindR (Some (Ret v)) k = k v"

lemma bindR_Ret_iff [outcome_simps]:
  "bindR m k = Some (Ret w) \<longleftrightarrow> (\<exists>v. m = Some (Ret v) \<and> k v = Some (Ret w))"
  by (cases "(m, k)" rule: bindR.cases) auto

lemma bindR_cong [fundef_cong]:
  "m = m' \<Longrightarrow> (\<And>v. m' = Some (Ret v) \<Longrightarrow> k v = k' v) \<Longrightarrow> bindR m k = bindR m' k'"
  by (cases "(m', k)" rule: bindR.cases) auto

text \<open>
  \<open>assert(P)\<close>: compiled away when \<open>NDEBUG\<close> is defined (the \<open>release\<close> target of the
  Makefile), an abort otherwise (the \<open>debug\<close> and \<open>test\<close> targets).
\<close>

definition c_assert :: "bool \<Rightarrow> bool \<Rightarrow> unit outcome" where
  "c_assert ndebug P = (if ndebug \<or> P then Ret () else Fault Assertion_Failed)"

lemma c_assert_simps [simp]:
  "c_assert True P = Ret ()"
  "c_assert ndebug True = Ret ()"
  "c_assert False False = Fault Assertion_Failed"
  by (simp_all add: c_assert_def)

lemma c_assert_Ret_iff [outcome_simps]: "c_assert ndebug P = Ret u \<longleftrightarrow> ndebug \<or> P"
  by (simp add: c_assert_def)

section \<open>Owned heap blocks\<close>

text \<open>
  A pointer that owns its block: null, pointing to a live block with the given content,
  or dangling after \<open>free\<close>. \<open>malloc\<close> is taken to succeed.
\<close>

datatype 'a ptr = Null | Live 'a | Freed

fun c_free :: "'a ptr \<Rightarrow> 'a ptr outcome" where
  "c_free Null = Ret Null"
| "c_free (Live b) = Ret Freed"
| "c_free Freed = Fault Bad_Free"

lemma c_free_safe_iff: "safe (c_free p) \<longleftrightarrow> p \<noteq> Freed"
  by (cases p) auto

lemma c_free_Ret_iff [outcome_simps]:
  "c_free p = Ret q \<longleftrightarrow> (p = Null \<and> q = Null) \<or> (\<exists>b. p = Live b \<and> q = Freed)"
  by (cases p) auto

text \<open>Reading through an owning pointer.\<close>

fun deref :: "'a ptr \<Rightarrow> 'a outcome" where
  "deref Null = Fault Null_Dereference"
| "deref (Live b) = Ret b"
| "deref Freed = Fault Use_After_Free"

lemma deref_Ret_iff [outcome_simps]: "deref p = Ret b \<longleftrightarrow> p = Live b"
  by (cases p) auto

section \<open>Memory blocks\<close>

text \<open>
  A memory block is the list of the bytes a pointer may access; \<open>rd m i\<close> is the access
  \<open>((const char *)m)[i]\<close>.
\<close>

definition rd :: "'a list \<Rightarrow> nat \<Rightarrow> 'a outcome" where
  "rd m i = (if i < length m then Ret (m ! i) else Fault Out_Of_Bounds)"

lemma rd_in [simp]: "i < length m \<Longrightarrow> rd m i = Ret (m ! i)"
  by (simp add: rd_def)

lemma rd_out [simp]: "length m \<le> i \<Longrightarrow> rd m i = Fault Out_Of_Bounds"
  by (simp add: rd_def)

lemma rd_Ret_iff [outcome_simps]: "rd m i = Ret c \<longleftrightarrow> i < length m \<and> m ! i = c"
  by (auto simp: rd_def)

lemma rd_append_in: "i < length xs \<Longrightarrow> rd (xs @ ys) i = Ret (xs ! i)"
  by (simp add: nth_append)

text \<open>The bytes from index \<open>s\<close> (inclusive) to \<open>e\<close> (exclusive).\<close>

definition slice :: "'a list \<Rightarrow> nat \<Rightarrow> nat \<Rightarrow> 'a list" where
  "slice m s e = take (e - s) (drop s m)"

lemma length_slice [slice_simps]: "e \<le> length m \<Longrightarrow> length (slice m s e) = e - s"
  by (simp add: slice_def)

lemma slice_empty [slice_simps]: "e \<le> s \<Longrightarrow> slice m s e = []"
  by (simp add: slice_def)

lemma nth_slice [slice_simps]:
  "e \<le> length m \<Longrightarrow> i < e - s \<Longrightarrow> slice m s e ! i = m ! (s + i)"
  by (simp add: slice_def)

lemma slice_append1 [slice_simps]: "e \<le> length xs \<Longrightarrow> slice (xs @ ys) s e = slice xs s e"
  by (simp add: slice_def)

lemma slice_append2 [slice_simps]:
  "length xs \<le> s \<Longrightarrow> slice (xs @ ys) s e = slice ys (s - length xs) (e - length xs)"
  by (cases "s \<le> e") (simp_all add: slice_def)

lemma slice_0_length [slice_simps]: "slice m 0 (length m) = m"
  by (simp add: slice_def)

lemma slice_prefix [slice_simps]: "slice (xs @ ys) 0 (length xs) = xs"
  by (simp add: slice_def)

lemma in_set_slice_iff:
  "e \<le> length m \<Longrightarrow> x \<in> set (slice m s e) \<longleftrightarrow> (\<exists>i. s \<le> i \<and> i < e \<and> m ! i = x)"
proof
  assume e: "e \<le> length m" and "x \<in> set (slice m s e)"
  then obtain i where "i < e - s" "m ! (s + i) = x"
    by (auto simp: in_set_conv_nth slice_simps)
  then show "\<exists>i. s \<le> i \<and> i < e \<and> m ! i = x"
    by (intro exI [of _ "s + i"]) simp
next
  assume e: "e \<le> length m" and "\<exists>i. s \<le> i \<and> i < e \<and> m ! i = x"
  then obtain i where "s \<le> i" "i < e" "m ! i = x" by blast
  with e have "i - s < length (slice m s e) \<and> slice m s e ! (i - s) = x"
    by (simp add: slice_simps)
  then show "x \<in> set (slice m s e)" by (metis nth_mem)
qed

lemma slice_Cons: "s < e \<Longrightarrow> e \<le> length m \<Longrightarrow> slice m s e = m ! s # slice m (Suc s) e"
  by (simp add: slice_def Cons_nth_drop_Suc [symmetric] Suc_diff_Suc [symmetric])

lemma slice_join: "s \<le> k \<Longrightarrow> k \<le> e \<Longrightarrow> slice m s k @ slice m k e = slice m s e"
proof -
  assume "s \<le> k" "k \<le> e"
  then have "take (e - s) (drop s m) = take (k - s) (drop s m) @ take (e - k) (drop (k - s) (drop s m))"
    by (metis add.commute add_diff_cancel_left' le_add_diff_inverse2 take_add diff_add_assoc2 add_diff_assoc)
  with \<open>s \<le> k\<close> show ?thesis by (simp add: slice_def)
qed

text \<open>\<open>memcpy(dst + off, src, n)\<close> into a block, bounds of both blocks checked.\<close>

definition memcpy :: "'a list \<Rightarrow> nat \<Rightarrow> 'a list \<Rightarrow> nat \<Rightarrow> 'a list outcome" where
  "memcpy dst off src n =
     (if n \<le> length src \<and> off + n \<le> length dst
      then Ret (take off dst @ take n src @ drop (off + n) dst)
      else Fault Out_Of_Bounds)"

lemma memcpy_Ret_iff [outcome_simps]:
  "memcpy dst off src n = Ret m \<longleftrightarrow>
     n \<le> length src \<and> off + n \<le> length dst \<and>
     m = take off dst @ take n src @ drop (off + n) dst"
  by (auto simp: memcpy_def)

lemma length_memcpy: "memcpy dst off src n = Ret m \<Longrightarrow> length m = length dst"
  by (auto simp: memcpy_Ret_iff)

end
