(* ===== verification/C_Strings.thy ===== *)
theory C_Strings
  imports Prelude "HOL-Library.Char_ord" "HOL-Library.List_Lexorder"
begin

text \<open>
  The functions of the C library the program calls on strings and memory:
  \<open>isspace\<close>, \<open>isdigit\<close>, \<open>strlen\<close>, \<open>strcmp\<close>, \<open>strncmp\<close>, \<open>memcmp\<close>, \<open>strcpy\<close>,
  \<open>strtoll\<close> and the two \<open>sprintf\<close> conversions \<open>%lu\<close> and \<open>%03d\<close>.

  A block allocated with \<open>malloc(n + 1)\<close> whose last byte is set to NUL is represented
  by its first \<open>n\<close> bytes, a value of type \<open>cstring\<close>; the terminator is implicit, and the
  content may hold further NUL bytes, at which the \<open>str\<close> functions stop. A raw block is a
  plain list of bytes with an explicit end.
\<close>

type_synonym cstring = string

abbreviation NUL :: char where "NUL \<equiv> CHR 0x00"
abbreviation CR :: char where "CR \<equiv> CHR 0x0D"
abbreviation LF :: char where "LF \<equiv> CHR 0x0A"

section \<open>Character classes (C locale)\<close>

definition isspace :: "char \<Rightarrow> bool" where
  "isspace c \<longleftrightarrow> c = CHR '' '' \<or> c = CHR 0x09 \<or> c = CHR 0x0A \<or> c = CHR 0x0B \<or>
     c = CHR 0x0C \<or> c = CHR 0x0D"

definition isdigit :: "char \<Rightarrow> bool" where
  "isdigit c \<longleftrightarrow> 48 \<le> (of_char c :: nat) \<and> (of_char c :: nat) \<le> 57"

lemma isspace_simps [simp]:
  "\<not> isspace NUL" "isspace CR" "isspace LF" "isspace (CHR '' '')" "\<not> isspace (CHR '':'')"
  by (simp_all add: isspace_def)

lemma isdigit_NUL [simp]: "\<not> isdigit NUL"
  by (simp add: isdigit_def)

lemma isspace_not_digit: "isspace c \<Longrightarrow> \<not> isdigit c"
  by (auto simp: isspace_def isdigit_def)

section \<open>String functions\<close>

text \<open>What the \<open>str\<close> functions see of a block: the bytes before the first NUL.\<close>

definition cstr :: "cstring \<Rightarrow> string" where
  "cstr s = takeWhile (\<lambda>c. c \<noteq> NUL) s"

fun strlen :: "cstring \<Rightarrow> nat" where
  "strlen [] = 0"
| "strlen (c # cs) = (if c = NUL then 0 else Suc (strlen cs))"

fun strcmp :: "cstring \<Rightarrow> cstring \<Rightarrow> int" where
  "strcmp [] [] = 0"
| "strcmp [] (d # ds) = - of_char d"
| "strcmp (c # cs) [] = of_char c"
| "strcmp (c # cs) (d # ds) =
     (if c \<noteq> d then of_char c - of_char d else if c = NUL then 0 else strcmp cs ds)"

definition first_char :: "cstring \<Rightarrow> char" where
  "first_char s = (case s of [] \<Rightarrow> NUL | c # _ \<Rightarrow> c)"

lemma first_char_simps [simp]: "first_char [] = NUL" "first_char (c # cs) = c"
  by (simp_all add: first_char_def)

fun strncmp :: "cstring \<Rightarrow> cstring \<Rightarrow> nat \<Rightarrow> int" where
  "strncmp a b 0 = 0"
| "strncmp a b (Suc n) =
     (if first_char a \<noteq> first_char b then of_char (first_char a) - of_char (first_char b)
      else if first_char a = NUL then 0 else strncmp (tl a) (tl b) n)"

text \<open>
  \<open>memcmp\<close> on raw blocks. The standard lets it read all \<open>n\<close> bytes of both, whatever the
  comparison needs, so both blocks must have them.
\<close>

fun byte_difference :: "string \<Rightarrow> string \<Rightarrow> int" where
  "byte_difference (c # cs) (d # ds) = (if c \<noteq> d then of_char c - of_char d else byte_difference cs ds)"
| "byte_difference _ _ = 0"

definition memcmp :: "string \<Rightarrow> string \<Rightarrow> nat \<Rightarrow> int outcome" where
  "memcmp a b n =
     (if n \<le> length a \<and> n \<le> length b then Ret (byte_difference (take n a) (take n b))
      else Fault Out_Of_Bounds)"

definition strcpy :: "string \<Rightarrow> cstring \<Rightarrow> string outcome" where
  "strcpy dst src = memcpy dst 0 (cstr src @ [NUL]) (strlen src + 1)"

lemma cstr_simps [simp]:
  "cstr [] = []" "cstr (NUL # s) = []" "c \<noteq> NUL \<Longrightarrow> cstr (c # s) = c # cstr s"
  by (simp_all add: cstr_def)

lemma cstr_id: "NUL \<notin> set s \<Longrightarrow> cstr s = s"
  by (induction s) (auto simp: cstr_def)

lemma NUL_notin_cstr [simp]: "NUL \<notin> set (cstr s)"
  by (auto simp: cstr_def dest: set_takeWhileD)

lemma cstr_cstr [simp]: "cstr (cstr s) = cstr s"
  by (simp add: cstr_id)

lemma strlen_cstr: "strlen s = length (cstr s)"
  by (induction s) (auto simp: cstr_def)

lemma cstr_append_NUL: "NUL \<notin> set s \<Longrightarrow> cstr (s @ NUL # t) = s"
  by (induction s) auto

lemma cstr_prefix: "\<exists>t. s = cstr s @ t"
  unfolding cstr_def by (metis takeWhile_dropWhile_id)

lemma strlen_le: "strlen s \<le> length s"
  by (induction s) auto

lemma of_char_eq_iff [simp]: "(of_char c :: int) = of_char d \<longleftrightarrow> c = d"
  by (metis char_of_char of_nat_of_char of_nat_eq_iff)

lemma of_char_less_iff: "(of_char c :: int) < of_char d \<longleftrightarrow> c < d"
  by (metis less_char_def of_nat_less_iff of_nat_of_char)

lemma of_char_0_iff [simp]: "(of_char c :: int) = 0 \<longleftrightarrow> c = NUL"
  using of_char_eq_iff [of c NUL] by simp

lemma of_char_nonneg: "(0 :: int) \<le> of_char c"
  by (metis of_nat_0_le_iff of_nat_of_char)

lemma of_char_pos_iff: "(0 :: int) < of_char c \<longleftrightarrow> c \<noteq> NUL"
  using of_char_nonneg [of c] of_char_0_iff [of c] by linarith

text \<open>
  \<open>strcmp\<close> is the lexicographic order on the visible strings: the order the header list
  is kept in.
\<close>

lemma strcmp_eq_0_iff: "strcmp a b = 0 \<longleftrightarrow> cstr a = cstr b"
proof (induction a b rule: strcmp.induct)
  case (2 d ds)
  then show ?case by (cases "d = NUL") auto
next
  case (3 c cs)
  then show ?case by (cases "c = NUL") auto
next
  case (4 c cs d ds)
  then show ?case by (cases "c = NUL"; cases "d = NUL") auto
qed simp

lemma strcmp_less_0_iff: "strcmp a b < 0 \<longleftrightarrow> cstr a < cstr b"
proof (induction a b rule: strcmp.induct)
  case (2 d ds)
  then show ?case by (cases "d = NUL") (auto simp: of_char_pos_iff)
next
  case (3 c cs)
  then show ?case by (cases "c = NUL") (auto simp: not_less of_char_nonneg)
next
  case (4 c cs d ds)
  show ?case
  proof (cases "c = NUL \<or> d = NUL")
    case True
    then show ?thesis
      by (cases "c = NUL"; cases "d = NUL") (auto simp: of_char_pos_iff not_less of_char_nonneg)
  next
    case False
    with 4 show ?thesis by (auto simp: of_char_less_iff)
  qed
qed simp

lemma strcmp_greater_0_iff: "strcmp a b > 0 \<longleftrightarrow> cstr b < cstr a"
  using strcmp_eq_0_iff [of a b] strcmp_less_0_iff [of a b] by (auto simp: not_less le_less)

lemmas strcmp_iffs = strcmp_eq_0_iff strcmp_less_0_iff strcmp_greater_0_iff

lemma strncmp_eq_0_iff:
  "strncmp a b n = 0 \<longleftrightarrow> take n (cstr a) = take n (cstr b)"
proof (induction n arbitrary: a b)
  case (Suc n)
  show ?case
  proof (cases "first_char a = NUL \<or> first_char b = NUL")
    case True
    then show ?thesis
      by (cases a; cases b) (auto simp: cstr_def)
  next
    case False
    with Suc.IH [of "tl a" "tl b"] show ?thesis
      by (cases a; cases b) auto
  qed
qed simp

lemma byte_difference_0_iff: "length a = length b \<Longrightarrow> byte_difference a b = 0 \<longleftrightarrow> a = b"
  by (induction a b rule: byte_difference.induct) auto

lemma memcmp_cases:
  assumes "n \<le> length a" "n \<le> length b"
  shows "\<exists>c. memcmp a b n = Ret c \<and> (c = 0 \<longleftrightarrow> take n a = take n b)"
  using assms byte_difference_0_iff [of "take n a" "take n b"] by (simp add: memcmp_def)

lemma memcmp_short: "length a < n \<or> length b < n \<Longrightarrow> memcmp a b n = Fault Out_Of_Bounds"
  by (auto simp: memcmp_def)

lemma strcpy_Ret_iff:
  "strcpy dst src = Ret m \<longleftrightarrow>
     strlen src < length dst \<and> m = cstr src @ NUL # drop (Suc (strlen src)) dst"
  by (auto simp: strcpy_def memcpy_Ret_iff strlen_cstr)

section \<open>Decimal output\<close>

definition digit_char :: "nat \<Rightarrow> char" where
  "digit_char d = char_of (48 + d)"

text \<open>\<open>sprintf(_, "%lu", n)\<close>\<close>

fun show_lu :: "nat \<Rightarrow> string" where
  "show_lu n = (if n < 10 then [digit_char n] else show_lu (n div 10) @ [digit_char (n mod 10)])"

declare show_lu.simps [simp del]

lemma show_lu_small [simp]: "n < 10 \<Longrightarrow> show_lu n = [digit_char n]"
  by (simp add: show_lu.simps)

text \<open>\<open>sprintf(_, "%03d", v)\<close>: the sign counts towards the width.\<close>

definition show_03d :: "int \<Rightarrow> string" where
  "show_03d v =
     (let s = show_lu (nat \<bar>v\<bar>)
      in if v < 0 then CHR ''-'' # replicate (2 - length s) (CHR ''0'') @ s
         else replicate (3 - length s) (CHR ''0'') @ s)"

text \<open>\<open>sprintf\<close> into an array of \<open>sz\<close> bytes: the text and its terminator must fit.\<close>

definition sprintf_into :: "nat \<Rightarrow> string \<Rightarrow> cstring outcome" where
  "sprintf_into sz s = (if length s < sz then Ret s else Fault Out_Of_Bounds)"

lemma sprintf_into_Ret_iff [outcome_simps]:
  "sprintf_into sz s = Ret t \<longleftrightarrow> length s < sz \<and> t = s"
  by (auto simp: sprintf_into_def)

lemma of_char_digit_char: "d < 10 \<Longrightarrow> (of_char (digit_char d) :: nat) = 48 + d"
  by (simp add: digit_char_def)

lemma isdigit_digit_char [simp]: "d < 10 \<Longrightarrow> isdigit (digit_char d)"
  by (simp add: isdigit_def of_char_digit_char)

lemma show_lu_nonempty [simp]: "show_lu n \<noteq> []"
  by (subst show_lu.simps) simp

lemma show_lu_isdigit: "c \<in> set (show_lu n) \<Longrightarrow> isdigit c"
proof (induction n rule: show_lu.induct)
  case (1 n)
  show ?case
  proof (cases "n < 10")
    case True
    with 1 show ?thesis by simp
  next
    case False
    with 1 show ?thesis by (subst (asm) (2) show_lu.simps) auto
  qed
qed

lemma NUL_notin_show_lu [simp]: "NUL \<notin> set (show_lu n)"
  using show_lu_isdigit by fastforce

lemma length_show_lu_le: "n < 10 ^ k \<Longrightarrow> 0 < k \<Longrightarrow> length (show_lu n) \<le> k"
proof (induction n arbitrary: k rule: show_lu.induct)
  case (1 n)
  show ?case
  proof (cases "n < 10")
    case True
    with 1 show ?thesis by simp
  next
    case False
    with "1.prems" have k: "1 < k" by (cases "k = 1") auto
    with "1.prems" have "n div 10 < 10 ^ (k - 1)"
      by (simp add: less_mult_imp_div_less power_eq_if)
    with "1.IH" False k have "length (show_lu (n div 10)) \<le> k - 1" by simp
    with False k show ?thesis by (subst show_lu.simps) simp
  qed
qed

lemma length_show_lu_64: "n < 2 ^ 64 \<Longrightarrow> length (show_lu n) \<le> 20"
  by (rule length_show_lu_le) simp_all

lemma length_show_03d: "3 \<le> length (show_03d v)"
  using show_lu_nonempty [of "nat \<bar>v\<bar>"]
  by (auto simp: show_03d_def Let_def neq_Nil_conv)

section \<open>\<open>strtoll\<close>\<close>

definition LLONG_MAX :: int where "LLONG_MAX = 2 ^ 63 - 1"
definition LLONG_MIN :: int where "LLONG_MIN = - (2 ^ 63)"

definition digit_value :: "char \<Rightarrow> int" where
  "digit_value c = of_char c - 48"

fun digits_value :: "int \<Rightarrow> string \<Rightarrow> int \<times> string" where
  "digits_value acc [] = (acc, [])"
| "digits_value acc (c # cs) =
     (if isdigit c then digits_value (10 * acc + digit_value c) cs else (acc, c # cs))"

text \<open>
  \<open>strtoll(s, &end, 10)\<close>: the value, saturated to the range of \<open>long long\<close>, and the text
  \<open>end\<close> points to, which is \<open>s\<close> itself when there is no number. On the program's
  platform (LP64) \<open>strtol\<close> is the same function.
\<close>

definition strtoll :: "string \<Rightarrow> int \<times> string" where
  "strtoll s =
     (let s1 = dropWhile isspace s;
          neg = (s1 \<noteq> [] \<and> hd s1 = CHR ''-'');
          s2 = (if s1 \<noteq> [] \<and> (hd s1 = CHR ''-'' \<or> hd s1 = CHR ''+'') then tl s1 else s1)
      in if s2 \<noteq> [] \<and> isdigit (hd s2)
         then (let (n, rest) = digits_value 0 s2;
                   v = (if neg then - n else n)
               in (max LLONG_MIN (min LLONG_MAX v), rest))
         else (0, s))"

lemma digits_value_append:
  "(\<forall>c \<in> set ds. isdigit c) \<Longrightarrow> digits_value acc (ds @ rest) =
     digits_value (fold (\<lambda>c a. 10 * a + digit_value c) ds acc) rest"
  by (induction ds arbitrary: acc) auto

lemma digit_value_digit_char [simp]: "d < 10 \<Longrightarrow> digit_value (digit_char d) = int d"
proof -
  assume "d < 10"
  then have "(48 + int d) = int (of_char (digit_char d))" by (simp only: of_char_digit_char)
  then show ?thesis by (simp only: digit_value_def of_nat_of_char)
qed

lemma fold_show_lu: "fold (\<lambda>c a. 10 * a + digit_value c) (show_lu n) 0 = int n"
proof (induction n rule: show_lu.induct)
  case (1 n)
  show ?case
  proof (cases "n < 10")
    case False
    with 1 have "fold (\<lambda>c a. 10 * a + digit_value c) (show_lu n) 0 = 10 * int (n div 10) + int (n mod 10)"
      by (subst show_lu.simps) simp
    also have "\<dots> = int n" by (metis mult_div_mod_eq of_nat_add of_nat_mult of_nat_numeral)
    finally show ?thesis .
  qed simp
qed

lemma digits_value_show_lu:
  "rest = [] \<or> \<not> isdigit (hd rest) \<Longrightarrow> digits_value 0 (show_lu n @ rest) = (int n, rest)"
  using digits_value_append [of "show_lu n" 0 rest]
  by (cases rest) (auto simp: show_lu_isdigit fold_show_lu)

lemma show_lu_hd: "isdigit (hd (show_lu n))"
  using show_lu_nonempty by (intro show_lu_isdigit) (rule hd_in_set)

lemma strtoll_show_lu:
  assumes "rest = [] \<or> \<not> isdigit (hd rest)" and "int n \<le> LLONG_MAX"
  shows "strtoll (show_lu n @ rest) = (int n, rest)"
proof -
  obtain c cs where s: "show_lu n = c # cs" and c: "isdigit c"
    using show_lu_nonempty [of n] show_lu_hd [of n] by (cases "show_lu n") auto
  have "\<not> isspace c" "c \<noteq> CHR ''-''" "c \<noteq> CHR ''+''"
    using c by (auto simp: isspace_not_digit) (auto simp: isdigit_def)
  moreover have "digits_value 0 (c # cs @ rest) = (int n, rest)"
    using digits_value_show_lu [OF assms(1), of n] s by simp
  ultimately show ?thesis
    using c assms(2) by (simp add: strtoll_def s Let_def LLONG_MIN_def)
qed

lemma strtoll_range: "LLONG_MIN \<le> fst (strtoll s) \<and> fst (strtoll s) \<le> LLONG_MAX"
  by (simp add: strtoll_def Let_def LLONG_MIN_def LLONG_MAX_def split: prod.split)

end
