(* ===== verification/Http_Codes.thy ===== *)
theory Http_Codes
  imports C_Strings
begin

text \<open>
  The enumerations of \<open>http.h\<close> and the table of error texts: \<open>enum http_error_code\<close>
  with the \<open>int\<close> values the C enumerators get (\<open>INT_MIN\<close>, then one more each, and 0
  for success) and \<open>http_get_error_string\<close>.
\<close>

section \<open>Error codes\<close>

datatype http_error_code =
    HTTP_ERROR_CODE_REQUEST_NO_VALID_DATA
  | HTTP_ERROR_CODE_PARSE_INVALID_REQUEST_SYNTAX
  | HTTP_ERROR_CODE_INSUFFICIENT_BUFFER_SIZE
  | HTTP_ERROR_CODE_INCOMPLETE_REQUEST
  | HTTP_ERROR_CODE_UNSUPPORTED_METHOD
  | HTTP_ERROR_CODE_DUPLICATE_HEADER_KEY
  | HTTP_ERROR_CODE_NO_SUCH_HEADER
  | HTTP_ERROR_CODE_SUCCEED

definition INT_MIN :: int where "INT_MIN = - (2 ^ 31)"

fun error_value :: "http_error_code \<Rightarrow> int" where
  "error_value HTTP_ERROR_CODE_REQUEST_NO_VALID_DATA = INT_MIN"
| "error_value HTTP_ERROR_CODE_PARSE_INVALID_REQUEST_SYNTAX = INT_MIN + 1"
| "error_value HTTP_ERROR_CODE_INSUFFICIENT_BUFFER_SIZE = INT_MIN + 2"
| "error_value HTTP_ERROR_CODE_INCOMPLETE_REQUEST = INT_MIN + 3"
| "error_value HTTP_ERROR_CODE_UNSUPPORTED_METHOD = INT_MIN + 4"
| "error_value HTTP_ERROR_CODE_DUPLICATE_HEADER_KEY = INT_MIN + 5"
| "error_value HTTP_ERROR_CODE_NO_SUCH_HEADER = INT_MIN + 6"
| "error_value HTTP_ERROR_CODE_SUCCEED = 0"

lemma error_value_inj: "error_value a = error_value b \<longleftrightarrow> a = b"
  by (cases a; cases b) (simp_all add: INT_MIN_def)

lemma error_value_negative: "error_value e < 0 \<longleftrightarrow> e \<noteq> HTTP_ERROR_CODE_SUCCEED"
  by (cases e) (simp_all add: INT_MIN_def)

fun http_get_error_string :: "http_error_code \<Rightarrow> cstring" where
  "http_get_error_string HTTP_ERROR_CODE_REQUEST_NO_VALID_DATA =
     ''the request supplied does not hold valid information: it may not initialized with HTTP request '' @
     ''message, or some error occurred when parsing the message''"
| "http_get_error_string HTTP_ERROR_CODE_PARSE_INVALID_REQUEST_SYNTAX =
     ''the syntax of HTTP request message to be parsed is invalid, therefore which may not be processed''"
| "http_get_error_string HTTP_ERROR_CODE_INSUFFICIENT_BUFFER_SIZE =
     ''the buffer supplied is insufficient to hold all the results''"
| "http_get_error_string HTTP_ERROR_CODE_INCOMPLETE_REQUEST =
     ''the HTTP request message to be processed is not complete''"
| "http_get_error_string HTTP_ERROR_CODE_UNSUPPORTED_METHOD =
     ''the HTTP request attempted a method that is not supported''"
| "http_get_error_string HTTP_ERROR_CODE_DUPLICATE_HEADER_KEY =
     ''the attempt to add multiple headers with the same key is rejected''"
| "http_get_error_string HTTP_ERROR_CODE_NO_SUCH_HEADER =
     ''the requested key does not exist in headers''"
| "http_get_error_string HTTP_ERROR_CODE_SUCCEED =
     ''not an error, the operation succeed''"

section \<open>Response codes\<close>

text \<open>
  \<open>enum http_response_code\<close> is kept as the integer it is in C, because
  \<open>http_response_set_code\<close> accepts values outside the enumerators.
\<close>

type_synonym http_response_code = int

definition HTTP_RESPONSE_CODE_OK :: http_response_code where
  "HTTP_RESPONSE_CODE_OK = 0"
definition HTTP_RESPONSE_CODE_NO_CONTENT :: http_response_code where
  "HTTP_RESPONSE_CODE_NO_CONTENT = 1"
definition HTTP_RESPONSE_CODE_PARTIAL_CONTENT :: http_response_code where
  "HTTP_RESPONSE_CODE_PARTIAL_CONTENT = 2"
definition HTTP_RESPONSE_CODE_MOVE_MOVED_PERMANENTLY :: http_response_code where
  "HTTP_RESPONSE_CODE_MOVE_MOVED_PERMANENTLY = 3"
definition HTTP_RESPONSE_CODE_BAD_REQUEST :: http_response_code where
  "HTTP_RESPONSE_CODE_BAD_REQUEST = 4"
definition HTTP_RESPONSE_CODE_FORBIDDEN :: http_response_code where
  "HTTP_RESPONSE_CODE_FORBIDDEN = 5"
definition HTTP_RESPONSE_CODE_NOT_FOUND :: http_response_code where
  "HTTP_RESPONSE_CODE_NOT_FOUND = 6"
definition HTTP_RESPONSE_CODE_INTERNAL_SERVER_ERROR :: http_response_code where
  "HTTP_RESPONSE_CODE_INTERNAL_SERVER_ERROR = 7"
definition HTTP_RESPONSE_CODE_NOT_IMPLEMENTED :: http_response_code where
  "HTTP_RESPONSE_CODE_NOT_IMPLEMENTED = 8"
definition HTTP_RESPONSE_CODE_HTTP_VERSION_NOT_SUPPORTED :: http_response_code where
  "HTTP_RESPONSE_CODE_HTTP_VERSION_NOT_SUPPORTED = 9"
definition HTTP_RESPONSE_CODE_MAX :: http_response_code where
  "HTTP_RESPONSE_CODE_MAX = 10"

lemmas response_code_defs =
  HTTP_RESPONSE_CODE_OK_def HTTP_RESPONSE_CODE_NO_CONTENT_def
  HTTP_RESPONSE_CODE_PARTIAL_CONTENT_def HTTP_RESPONSE_CODE_MOVE_MOVED_PERMANENTLY_def
  HTTP_RESPONSE_CODE_BAD_REQUEST_def HTTP_RESPONSE_CODE_FORBIDDEN_def
  HTTP_RESPONSE_CODE_NOT_FOUND_def HTTP_RESPONSE_CODE_INTERNAL_SERVER_ERROR_def
  HTTP_RESPONSE_CODE_NOT_IMPLEMENTED_def HTTP_RESPONSE_CODE_HTTP_VERSION_NOT_SUPPORTED_def
  HTTP_RESPONSE_CODE_MAX_def

abbreviation mapped_code :: "http_response_code \<Rightarrow> bool" where
  "mapped_code c \<equiv> 0 \<le> c \<and> c < HTTP_RESPONSE_CODE_MAX"

end
