(* ===== verification/Header_List.thy ===== *)
theory Header_List
  imports Http_Codes
begin

text \<open>
  The header list of \<open>http.c\<close> (\<open>struct header\<close>, \<open>struct headers\<close>, \<open>lookup_header\<close>,
  \<open>insert_header\<close>, \<open>destroy_headers\<close>) as a HOL list, and the contract its clients rely
  on as a locale: a store of values by key. The pointer surgery behind it is the subject
  of the theory \<open>Header_Heap\<close>; \<open>Header_Refinement\<close> shows that it refines these functions.
\<close>

section \<open>Model\<close>

record header =
  hkey :: cstring
  hvalue :: cstring

type_synonym headers = "header list"

text \<open>
  \<open>lookup_header\<close> returns the header found and the position of the link (\<open>*prev\<close>) that
  points, or would have to point, to it: position 0 is \<open>headers->header_list\<close>, position
  \<open>i + 1\<close> the \<open>next\<close> field of the \<open>i\<close>-th header.
\<close>

fun lookup_header :: "headers \<Rightarrow> cstring \<Rightarrow> header option \<times> nat" where
  "lookup_header [] name = (None, 0)"
| "lookup_header (h # hs) name =
     (if strcmp (hkey h) name < 0
      then (let (target, prev) = lookup_header hs name in (target, Suc prev))
      else if strcmp (hkey h) name = 0 then (Some h, 0)
      else (None, 0))"

definition insert_header :: "headers \<Rightarrow> header \<Rightarrow> http_error_code \<times> headers" where
  "insert_header hs h =
     (let (target, prev) = lookup_header hs (hkey h)
      in if target \<noteq> None then (HTTP_ERROR_CODE_DUPLICATE_HEADER_KEY, hs)
         else (HTTP_ERROR_CODE_SUCCEED, take prev hs @ h # drop prev hs))"

text \<open>
  The visible effect of \<open>destroy_headers\<close>: the list becomes empty. That every node, key
  and value is released exactly once is proved in \<open>Header_Refinement\<close>.
\<close>

definition destroy_headers :: "headers \<Rightarrow> headers" where
  "destroy_headers hs = []"

text \<open>
  The body of \<open>http_response_set_header\<close> on the list: replace the value of an existing
  header, or splice a new node in at the link.
\<close>

definition set_header :: "headers \<Rightarrow> cstring \<Rightarrow> cstring \<Rightarrow> headers" where
  "set_header hs key val =
     (let (target, prev) = lookup_header hs key
      in case target of
           Some t \<Rightarrow> hs[prev := t\<lparr>hvalue := cstr val\<rparr>]
         | None \<Rightarrow> take prev hs @ \<lparr>hkey = cstr key, hvalue = cstr val\<rparr> # drop prev hs)"

section \<open>Invariant and abstraction\<close>

definition headers_sorted :: "headers \<Rightarrow> bool" where
  "headers_sorted hs \<longleftrightarrow> sorted_wrt (\<lambda>a b. cstr (hkey a) < cstr (hkey b)) hs"

text \<open>Keys hold no NUL: what \<open>strcpy\<close> and the parser store.\<close>

definition headers_ok :: "headers \<Rightarrow> bool" where
  "headers_ok hs \<longleftrightarrow> headers_sorted hs \<and> (\<forall>h \<in> set hs. NUL \<notin> set (hkey h))"

definition headers_get :: "headers \<Rightarrow> cstring \<Rightarrow> cstring option" where
  "headers_get hs k = map_of (map (\<lambda>h. (hkey h, hvalue h)) hs) k"

lemma headers_sorted_simps [simp]:
  "headers_sorted []"
  "headers_sorted (h # hs) \<longleftrightarrow>
     (\<forall>x \<in> set hs. cstr (hkey h) < cstr (hkey x)) \<and> headers_sorted hs"
  by (simp_all add: headers_sorted_def)

lemma headers_ok_simps [simp]:
  "headers_ok []"
  "headers_ok (h # hs) \<longleftrightarrow>
     NUL \<notin> set (hkey h) \<and> (\<forall>x \<in> set hs. hkey h < hkey x) \<and> headers_ok hs"
  by (auto simp: headers_ok_def cstr_id)

lemma headers_get_simps [simp]:
  "headers_get [] k = None"
  "headers_get (h # hs) k = (if hkey h = k then Some (hvalue h) else headers_get hs k)"
  by (simp_all add: headers_get_def)

lemma headers_get_None_iff: "headers_get hs k = None \<longleftrightarrow> (\<forall>h \<in> set hs. hkey h \<noteq> k)"
  by (induction hs) auto

lemma headers_get_None_less:
  "(\<forall>x \<in> set hs. k < hkey x) \<Longrightarrow> headers_get hs k = None"
  by (auto simp: headers_get_None_iff)

section \<open>\<open>lookup_header\<close>\<close>

text \<open>The link returned splits the list at the place of \<open>name\<close>.\<close>

lemma lookup_header_prefix:
  "lookup_header hs name = (target, prev) \<Longrightarrow>
     prev \<le> length hs \<and> (\<forall>h \<in> set (take prev hs). cstr (hkey h) < cstr name)"
  by (induction hs arbitrary: prev)
    (fastforce simp: strcmp_iffs split: if_splits prod.splits)+

lemma lookup_header_None:
  "lookup_header hs name = (None, prev) \<Longrightarrow> headers_sorted hs \<Longrightarrow>
     \<forall>h \<in> set (drop prev hs). cstr name < cstr (hkey h)"
  by (induction hs arbitrary: prev)
    (fastforce simp: strcmp_iffs not_less le_less split: if_splits prod.splits)+

lemma lookup_header_Some:
  "lookup_header hs name = (Some h, prev) \<Longrightarrow>
     prev < length hs \<and> hs ! prev = h \<and> cstr (hkey h) = cstr name"
  by (induction hs arbitrary: prev) (auto simp: strcmp_iffs split: if_splits prod.splits)

lemmas lookup_header_split = lookup_header_prefix lookup_header_None lookup_header_Some

lemma lookup_header_get:
  assumes "headers_ok hs" and "NUL \<notin> set name"
  shows "map_option hvalue (fst (lookup_header hs name)) = headers_get hs name"
  using assms(1)
proof (induction hs)
  case (Cons h hs)
  have "headers_get hs name = None" if "name < hkey h"
    using Cons.prems that by (intro headers_get_None_less) auto
  with Cons assms(2) show ?case
    by (auto simp: strcmp_iffs cstr_id not_less le_less split: prod.split)
qed simp

lemma lookup_header_None_iff:
  assumes "headers_ok hs" and "NUL \<notin> set name"
  shows "fst (lookup_header hs name) = None \<longleftrightarrow> headers_get hs name = None"
  using lookup_header_get [OF assms] by (metis map_option_is_None)

text \<open>Splicing at the link keeps the order.\<close>

lemma splice_sorted:
  assumes "headers_sorted hs" and "lookup_header hs (hkey h) = (None, prev)"
  shows "headers_sorted (take prev hs @ h # drop prev hs)"
proof -
  have "headers_sorted (take prev hs @ drop prev hs)" using assms(1) by simp
  moreover note lookup_header_prefix [OF assms(2)] lookup_header_None [OF assms(2,1)]
  ultimately show ?thesis
    unfolding headers_sorted_def sorted_wrt_append by auto
qed

lemma splice_ok:
  assumes "headers_ok hs" and "NUL \<notin> set (hkey h)"
    and "lookup_header hs (hkey h) = (None, prev)"
  shows "headers_ok (take prev hs @ h # drop prev hs)"
  using assms splice_sorted [of hs h prev]
  by (auto simp: headers_ok_def dest: in_set_takeD in_set_dropD)

lemma headers_get_append:
  "headers_get (xs @ ys) k =
     (case headers_get xs k of None \<Rightarrow> headers_get ys k | Some v \<Rightarrow> Some v)"
  by (induction xs) auto

lemma headers_get_splice:
  assumes "headers_get hs (hkey h) = None"
  shows "headers_get (take p hs @ h # drop p hs) = (headers_get hs)(hkey h \<mapsto> hvalue h)"
proof
  fix k
  have hs: "headers_get hs k = headers_get (take p hs @ drop p hs) k" by simp
  have "headers_get (take p hs) (hkey h) = None"
    using assms by (auto simp: headers_get_None_iff dest: in_set_takeD)
  then show "headers_get (take p hs @ h # drop p hs) k = ((headers_get hs)(hkey h \<mapsto> hvalue h)) k"
    by (auto simp only: hs headers_get_append headers_get_simps fun_upd_apply split: option.splits if_splits)
qed

section \<open>\<open>insert_header\<close>\<close>

lemma insert_header_duplicate:
  assumes "headers_ok hs" "NUL \<notin> set (hkey h)" "headers_get hs (hkey h) \<noteq> None"
  shows "insert_header hs h = (HTTP_ERROR_CODE_DUPLICATE_HEADER_KEY, hs)"
  using lookup_header_None_iff [OF assms(1,2)] assms(3)
  by (auto simp: insert_header_def split: prod.split)

lemma insert_header_fresh:
  assumes ok: "headers_ok hs" and k: "NUL \<notin> set (hkey h)" and "headers_get hs (hkey h) = None"
  shows "\<exists>hs'. insert_header hs h = (HTTP_ERROR_CODE_SUCCEED, hs') \<and> headers_ok hs' \<and>
           headers_get hs' = (headers_get hs)(hkey h \<mapsto> hvalue h) \<and>
           set hs' = insert h (set hs)"
proof -
  obtain prev where l: "lookup_header hs (hkey h) = (None, prev)"
    using lookup_header_None_iff [OF ok k] assms(3) by (cases "lookup_header hs (hkey h)") auto
  then have "insert_header hs h = (HTTP_ERROR_CODE_SUCCEED, take prev hs @ h # drop prev hs)"
    by (simp add: insert_header_def)
  moreover have "set (take prev hs @ h # drop prev hs) = insert h (set hs)"
    by (metis append_take_drop_id set_append Un_insert_right list.simps(15))
  ultimately show ?thesis
    using splice_ok [OF ok k l] headers_get_splice [OF assms(3), of prev] by blast
qed

lemma insert_header_ok:
  assumes "headers_ok hs" "NUL \<notin> set (hkey h)" "insert_header hs h = (r, hs')"
  shows "headers_ok hs'"
  using assms insert_header_duplicate [OF assms(1,2)] insert_header_fresh [OF assms(1,2)]
  by (cases "headers_get hs (hkey h)") auto

section \<open>The contract of the store, and its clients\<close>

text \<open>
  What the response code relies on: a map from keys to values whose \<open>put\<close> replaces or
  adds exactly one binding. \<open>valid\<close> says which keys and values the law covers.
\<close>

locale keyed_store =
  fixes inv :: "'s \<Rightarrow> bool"
    and valid :: "'k \<Rightarrow> 'v \<Rightarrow> bool"
    and get :: "'s \<Rightarrow> 'k \<Rightarrow> 'v option"
    and put :: "'s \<Rightarrow> 'k \<Rightarrow> 'v \<Rightarrow> 's"
  assumes put_inv: "inv s \<Longrightarrow> valid k v \<Longrightarrow> inv (put s k v)"
    and get_put: "inv s \<Longrightarrow> valid k v \<Longrightarrow> get (put s k v) = (get s)(k \<mapsto> v)"
begin

definition put_all :: "('k \<times> 'v) list \<Rightarrow> 's \<Rightarrow> 's" where
  "put_all kvs s = fold (\<lambda>(k, v) s. put s k v) kvs s"

lemma put_all_inv_get:
  "inv s \<Longrightarrow> (\<forall>(k, v) \<in> set kvs. valid k v) \<Longrightarrow>
     inv (put_all kvs s) \<and> get (put_all kvs s) = get s ++ map_of (rev kvs)"
proof (induction kvs arbitrary: s)
  case (Cons kv kvs)
  obtain k v where kv: "kv = (k, v)" by fastforce
  with Cons.prems have "inv (put s k v)" "get (put s k v) = (get s)(k \<mapsto> v)"
    by (auto simp: put_inv get_put)
  with Cons.IH [of "put s k v"] Cons.prems kv show ?case
    by (simp add: put_all_def map_add_def fun_eq_iff split: option.split)
qed (simp add: put_all_def)

lemma get_put_same: "inv s \<Longrightarrow> valid k v \<Longrightarrow> get (put s k v) k = Some v"
  by (simp add: get_put)

lemma get_put_other: "inv s \<Longrightarrow> valid k v \<Longrightarrow> k' \<noteq> k \<Longrightarrow> get (put s k v) k' = get s k'"
  by (simp add: get_put)

end

text \<open>
  A store with a canonical representation: equal content means equal state, so the
  order in which bindings were added cannot be observed.
\<close>

locale canonical_store = keyed_store +
  assumes ext: "inv s \<Longrightarrow> inv t \<Longrightarrow> get s = get t \<Longrightarrow> s = t"
begin

lemma put_commute:
  assumes "inv s" "valid k v" "valid k' v'" "k \<noteq> k'"
  shows "put (put s k v) k' v' = put (put s k' v') k v"
  using assms by (intro ext) (auto simp: put_inv get_put fun_upd_twist)

lemma put_overwrite:
  assumes "inv s" "valid k v" "valid k v'"
  shows "put (put s k v) k v' = put s k v'"
  using assms by (intro ext) (auto simp: put_inv get_put)

lemma put_same:
  assumes "inv s" "valid k v" "get s k = Some v"
  shows "put s k v = s"
  using assms by (intro ext) (auto simp: put_inv get_put)

end

section \<open>The header list meets the contract\<close>

definition valid_binding :: "cstring \<Rightarrow> cstring \<Rightarrow> bool" where
  "valid_binding k v \<longleftrightarrow> NUL \<notin> set k \<and> NUL \<notin> set v"

lemma headers_get_update:
  assumes "headers_ok hs" "p < length hs" "hkey h = hkey (hs ! p)"
  shows "headers_ok (hs[p := h]) \<and>
         headers_get (hs[p := h]) = (headers_get hs)(hkey h \<mapsto> hvalue h)"
  using assms
proof (induction hs arbitrary: p)
  case (Cons x hs)
  show ?case
  proof (cases p)
    case 0
    with Cons.prems show ?thesis by (auto simp: fun_eq_iff)
  next
    case (Suc q)
    with Cons.prems have q: "q < length hs" "hkey h = hkey (hs ! q)" "headers_ok hs" by auto
    have "hkey x < hkey h" using Cons.prems(1) q by (metis headers_ok_simps(2) nth_mem)
    moreover have "\<forall>y \<in> set (hs[q := h]). hkey x < hkey y"
      using Cons.prems q calculation set_update_subset_insert [of hs q h] by auto
    ultimately show ?thesis
      using Cons.IH [OF q(3,1,2)] Suc Cons.prems q by (auto simp: fun_eq_iff)
  qed
qed simp

lemma set_header_ok_get:
  assumes ok: "headers_ok hs"
  shows "headers_ok (set_header hs key val) \<and>
         headers_get (set_header hs key val) = (headers_get hs)(cstr key \<mapsto> cstr val)"
proof -
  obtain t p where l: "lookup_header hs key = (t, p)" by fastforce
  show ?thesis
  proof (cases t)
    case None
    let ?h = "\<lparr>hkey = cstr key, hvalue = cstr val\<rparr>"
    have l': "lookup_header hs (hkey ?h) = (None, p)"
    proof -
      have "lookup_header hs (cstr key) = lookup_header hs key" for hs
        by (induction hs) (simp_all add: strcmp_iffs)
      with l None show ?thesis by simp
    qed
    then have "headers_get hs (hkey ?h) = None"
      using lookup_header_None_iff [OF ok, of "hkey ?h"] by simp
    then show ?thesis
      using splice_ok [OF ok _ l'] headers_get_splice [of hs ?h p] l None
      by (simp add: set_header_def)
  next
    case (Some h)
    with l have "p < length hs" "hs ! p = h" "cstr (hkey h) = cstr key"
      by (auto dest: lookup_header_Some)
    moreover have "NUL \<notin> set (hkey h)"
      using ok calculation unfolding headers_ok_def by (metis nth_mem)
    ultimately show ?thesis
      using headers_get_update [OF ok, of p "h\<lparr>hvalue := cstr val\<rparr>"] l Some
      by (simp add: set_header_def cstr_id)
  qed
qed

text \<open>Two ordered lists with the same bindings are the same list.\<close>

lemma headers_get_Some_in: "headers_get hs k = Some v \<Longrightarrow> \<exists>h \<in> set hs. hkey h = k \<and> hvalue h = v"
  by (induction hs) (auto split: if_splits)

lemma headers_get_empty_iff: "headers_get hs = headers_get [] \<longleftrightarrow> hs = []"
proof
  assume eq: "headers_get hs = headers_get []"
  show "hs = []"
  proof (cases hs)
    case (Cons h t)
    then have "headers_get hs (hkey h) \<noteq> None" by simp
    then show ?thesis unfolding eq by simp
  qed
qed simp

lemma headers_get_least:
  assumes "headers_get (h # hs) k \<noteq> None" and "headers_ok (h # hs)"
  shows "hkey h \<le> k"
proof -
  obtain x where "x \<in> set (h # hs)" and k: "hkey x = k"
    using assms(1) unfolding headers_get_None_iff by blast
  then consider "x = h" | "x \<in> set hs" by (metis set_ConsD)
  then show ?thesis
  proof cases
    case 2
    then have "hkey h < hkey x" using assms(2) unfolding headers_ok_simps by blast
    then show ?thesis unfolding k by (rule order.strict_implies_order)
  qed (use k in simp)
qed

lemma headers_ext:
  "headers_ok hs \<Longrightarrow> headers_ok hs' \<Longrightarrow> headers_get hs = headers_get hs' \<Longrightarrow> hs = hs'"
proof (induction hs arbitrary: hs')
  case Nil
  from Nil(3) [symmetric] have "headers_get hs' = headers_get []" .
  then show ?case by (simp only: headers_get_empty_iff)
next
  case (Cons h hs)
  then have "hs' \<noteq> []" by (metis headers_get_empty_iff list.discI)
  then obtain h' hs'' where hs': "hs' = h' # hs''"
    by (cases hs') auto
  have eq: "headers_get (h # hs) k = headers_get (h' # hs'') k" for k
    using Cons.prems hs' by (simp only: fun_eq_iff)
  have least: "hkey h \<le> hkey x" if "headers_get (h # hs) (hkey x) \<noteq> None" for x
    using that Cons.prems(1) by (rule headers_get_least)
  have least': "hkey h' \<le> hkey x" if "headers_get (h' # hs'') (hkey x) \<noteq> None" for x
    using that Cons.prems(2) unfolding hs' by (rule headers_get_least)
  have key: "hkey h = hkey h'"
  proof (rule antisym)
    show "hkey h \<le> hkey h'" by (rule least) (unfold eq, simp)
    show "hkey h' \<le> hkey h" by (rule least') (unfold eq [symmetric], simp)
  qed
  then have h: "h = h'" using eq [of "hkey h"] by simp
  have "headers_get hs = headers_get hs''"
  proof
    fix k
    show "headers_get hs k = headers_get hs'' k"
    proof (cases "k = hkey h")
      case True
      then show ?thesis
        using Cons.prems(1,2) hs' key
        by (metis headers_get_None_less headers_ok_simps(2))
    next
      case False
      then show ?thesis using eq [of k] key by simp
    qed
  qed
  moreover have "headers_ok hs" "headers_ok hs''"
    using Cons.prems(1,2) unfolding hs' headers_ok_simps by blast+
  ultimately have "hs = hs''" by (intro Cons.IH)
  with hs' h show ?case by simp
qed

interpretation header_store:
  canonical_store headers_ok valid_binding headers_get set_header
proof
  fix hs k v
  assume "headers_ok hs" and "valid_binding k v"
  then show "headers_ok (set_header hs k v)"
    and "headers_get (set_header hs k v) = (headers_get hs)(k \<mapsto> v)"
    using set_header_ok_get [of hs k v] by (auto simp: valid_binding_def cstr_id)
qed (rule headers_ext)

end
