(* ===== verification/Buffers.thy ===== *)
theory Buffers
  imports Http_Codes
begin

text \<open>
  Two things requests and responses share: the message body (\<open>struct body\<close>,
  \<open>destroy_body\<close>), and the calling convention \<open>http.h\<close> documents at
  \<open>http_request_get_url\<close> and refers to at \<open>http_request_get_header\<close> and
  \<open>http_response_render\<close>: a caller passes a buffer (or NULL) and the space it has, and
  gets the content or the space it needs. The convention is the locale \<open>sized_getter\<close>;
  the three functions are its interpretations.
\<close>

section \<open>\<open>struct body\<close>\<close>

record body =
  body_data :: "string ptr"
  body_length :: nat

text \<open>\<open>destroy_body\<close>; its argument is the address of a field, never NULL.\<close>

definition destroy_body :: "body \<Rightarrow> body outcome" where
  "destroy_body b =
     (if body_data b \<noteq> Null
      then bindO (c_free (body_data b)) (\<lambda>_. Ret \<lparr>body_data = Null, body_length = 0\<rparr>)
      else Ret (b\<lparr>body_length := 0\<rparr>))"

definition empty_body :: body where
  "empty_body = \<lparr>body_data = Null, body_length = 0\<rparr>"

text \<open>
  The body a response may hold: nothing, or a live block of exactly the recorded length.
\<close>

definition body_ok :: "body \<Rightarrow> bool" where
  "body_ok b \<longleftrightarrow> (body_data b = Null \<and> body_length b = 0) \<or>
     (\<exists>d. body_data b = Live d \<and> body_length b = length d)"

lemma body_ok_empty [simp]: "body_ok empty_body"
  by (simp add: body_ok_def empty_body_def)

lemma destroy_body_ok: "body_ok b \<Longrightarrow> destroy_body b = Ret empty_body"
  by (auto simp: body_ok_def destroy_body_def empty_body_def)

section \<open>The calling convention of the getters\<close>

type_synonym getter_result = "http_error_code \<times> string option \<times> nat"

text \<open>
  A getter on a state \<open>'s\<close>: the caller's buffer (\<open>None\<close> for NULL, otherwise the bytes it
  may access), the space \<open>*length\<close> it claims, and the return code, buffer, \<open>*length\<close> and
  state afterwards.
\<close>

type_synonym 's getter = "'s \<Rightarrow> string option \<Rightarrow> nat \<Rightarrow> (getter_result \<times> 's) outcome"

text \<open>
  How the server uses a getter to obtain content of unknown size: ask for the space,
  allocate it (\<open>junk n\<close> is the indeterminate content of \<open>malloc(n)\<close>), ask again.
\<close>

definition query_then_fill :: "(nat \<Rightarrow> string) \<Rightarrow> 's getter \<Rightarrow> 's \<Rightarrow> (getter_result \<times> 's) outcome" where
  "query_then_fill junk call s =
     bindO (call s None 0) (\<lambda>((code, _, n), s1).
       if code \<noteq> HTTP_ERROR_CODE_SUCCEED then Ret ((code, None, n), s1)
       else call s1 (Some (junk n)) n)"

text \<open>
  How it renders into a buffer it already owns: try it, and allocate the right size when
  it is too small.
\<close>

definition try_then_grow ::
  "(nat \<Rightarrow> string) \<Rightarrow> 's getter \<Rightarrow> 's \<Rightarrow> string option \<Rightarrow> nat \<Rightarrow> (getter_result \<times> 's) outcome" where
  "try_then_grow junk call s buf cap =
     bindO (call s buf cap) (\<lambda>((code, buf1, n), s1).
       if code = HTTP_ERROR_CODE_INSUFFICIENT_BUFFER_SIZE then call s1 (Some (junk n)) n
       else Ret ((code, buf1, n), s1))"

locale sized_getter =
  fixes ok :: "'s \<Rightarrow> bool"
    and call :: "'s getter"
    and need :: "'s \<Rightarrow> nat"      \<comment> \<open>the space the content takes\<close>
    and out :: "'s \<Rightarrow> string"    \<comment> \<open>the bytes written\<close>
    and final :: "'s \<Rightarrow> nat"     \<comment> \<open>what \<open>*length\<close> is set to on success\<close>
    and after :: "'s \<Rightarrow> 's"      \<comment> \<open>the state afterwards\<close>
  assumes query: "ok s \<Longrightarrow> call s None l = Ret ((HTTP_ERROR_CODE_SUCCEED, None, need s), after s)"
    and short: "ok s \<Longrightarrow> l < need s \<Longrightarrow>
      call s (Some b) l = Ret ((HTTP_ERROR_CODE_INSUFFICIENT_BUFFER_SIZE, Some b, need s), after s)"
    and fill: "ok s \<Longrightarrow> need s \<le> l \<Longrightarrow> l \<le> length b \<Longrightarrow>
      call s (Some b) l =
        Ret ((HTTP_ERROR_CODE_SUCCEED, Some (out s @ drop (length (out s)) b), final s), after s)"
    and out_le: "ok s \<Longrightarrow> length (out s) \<le> need s"
    and after_ok: "ok s \<Longrightarrow> ok (after s)"
    and after_same: "ok s \<Longrightarrow> need (after s) = need s \<and> out (after s) = out s \<and>
      final (after s) = final s \<and> after (after s) = after s"
begin

text \<open>With a buffer as large as the caller says, the call never leaves it.\<close>

lemma call_safe: "ok s \<Longrightarrow> l \<le> length b \<Longrightarrow> safe (call s (Some b) l)"
  by (cases "l < need s") (auto simp: short fill)

lemma query_then_fill:
  assumes "ok s" and "\<And>n. length (junk n) = n"
  shows "\<exists>rest. query_then_fill junk call s =
    Ret ((HTTP_ERROR_CODE_SUCCEED, Some (out s @ rest), final s), after s) \<and>
    length (out s @ rest) = need s"
  using assms out_le [OF assms(1)] after_same [OF assms(1)]
  by (simp add: query_then_fill_def query fill after_ok)

lemma try_then_grow:
  assumes "ok s" and "\<And>n. length (junk n) = n" and "cap \<le> length b"
  shows "\<exists>rest. try_then_grow junk call s (Some b) cap =
    Ret ((HTTP_ERROR_CODE_SUCCEED, Some (out s @ rest), final s), after s) \<and>
    length (out s @ rest) = (if cap < need s then need s else length b)"
proof (cases "cap < need s")
  case True
  then show ?thesis
    using assms out_le [OF assms(1)] after_same [OF assms(1)]
    by (simp add: try_then_grow_def short fill after_ok)
next
  case False
  then show ?thesis
    using assms out_le [OF assms(1)] by (simp add: try_then_grow_def fill)
qed

end

end
