(* ===== verification/Request.thy ===== *)
theory Request
  imports Header_List Buffers
begin

text \<open>
  The request object of \<open>http.c\<close>: its state, \<open>http_request_initialize\<close>,
  \<open>http_request_destroy\<close> and the three queries. Parsing is in \<open>Request_Parser\<close>.
\<close>

section \<open>State\<close>

datatype http_request_method = HTTP_REQUEST_METHOD_GET

datatype http_request_state =
    HTTP_REQUEST_STATE_INITIALIZED
  | HTTP_REQUEST_STATE_PARSED
  | HTTP_REQUEST_STATE_INVALID

record request_start_line =
  sl_method :: http_request_method
  sl_http_version :: "cstring ptr"
  sl_http_version_length :: nat
  sl_url :: "cstring ptr"
  sl_url_length :: nat

record http_request =
  req_state :: http_request_state
  start_line :: request_start_line
  req_headers :: headers
  req_body :: body

section \<open>Operations\<close>

text \<open>Overwrites every field but the method; whatever the fields pointed to is forgotten.\<close>

definition http_request_initialize :: "http_request \<Rightarrow> http_error_code \<times> http_request" where
  "http_request_initialize r =
     (HTTP_ERROR_CODE_SUCCEED,
      \<lparr>req_state = HTTP_REQUEST_STATE_INITIALIZED,
       start_line = \<lparr>sl_method = sl_method (start_line r),
                     sl_http_version = Null, sl_http_version_length = 0,
                     sl_url = Null, sl_url_length = 0\<rparr>,
       req_headers = [],
       req_body = \<lparr>body_data = Null, body_length = 0\<rparr>\<rparr>)"

definition http_request_destroy :: "http_request \<Rightarrow> (http_error_code \<times> http_request) outcome" where
  "http_request_destroy r =
     (if req_state r = HTTP_REQUEST_STATE_INITIALIZED then Ret (HTTP_ERROR_CODE_SUCCEED, r)
      else
        bindO (c_free (sl_http_version (start_line r))) (\<lambda>_.
        bindO (c_free (sl_url (start_line r))) (\<lambda>_.
        bindO (destroy_body (req_body r)) (\<lambda>b.
          Ret (http_request_initialize
                 (r\<lparr>req_headers := destroy_headers (req_headers r), req_body := b\<rparr>))))))"

fun method_value :: "http_request_method \<Rightarrow> int" where
  "method_value HTTP_REQUEST_METHOD_GET = 0"

definition http_request_get_method :: "http_request \<Rightarrow> int" where
  "http_request_get_method r =
     (if req_state r \<noteq> HTTP_REQUEST_STATE_PARSED
      then error_value HTTP_ERROR_CODE_REQUEST_NO_VALID_DATA
      else method_value (sl_method (start_line r)))"

definition http_request_get_url :: "http_request getter" where
  "http_request_get_url r buf len =
     (if req_state r \<noteq> HTTP_REQUEST_STATE_PARSED
      then Ret ((HTTP_ERROR_CODE_REQUEST_NO_VALID_DATA, buf, len), r)
      else case buf of
        None \<Rightarrow> Ret ((HTTP_ERROR_CODE_SUCCEED, None, sl_url_length (start_line r) + 1), r)
      | Some b \<Rightarrow>
          if len < sl_url_length (start_line r) + 1
          then Ret ((HTTP_ERROR_CODE_INSUFFICIENT_BUFFER_SIZE, Some b,
                     sl_url_length (start_line r) + 1), r)
          else bindO (deref (sl_url (start_line r))) (\<lambda>url.
               bindO (strcpy b url) (\<lambda>b'.
                 Ret ((HTTP_ERROR_CODE_SUCCEED, Some b', sl_url_length (start_line r)), r))))"

text \<open>The search loop of \<open>http_request_get_header\<close>: skip the smaller keys.\<close>

fun find_header :: "headers \<Rightarrow> cstring \<Rightarrow> headers" where
  "find_header [] name = []"
| "find_header (h # hs) name = (if strcmp (hkey h) name < 0 then find_header hs name else h # hs)"

definition http_request_get_header :: "(http_request \<times> cstring) getter" where
  "http_request_get_header rn buf len =
     (case rn of (r, name) \<Rightarrow>
       if req_state r \<noteq> HTTP_REQUEST_STATE_PARSED
       then Ret ((HTTP_ERROR_CODE_REQUEST_NO_VALID_DATA, buf, len), rn)
       else case find_header (req_headers r) name of
         [] \<Rightarrow> Ret ((HTTP_ERROR_CODE_NO_SUCH_HEADER, buf, len), rn)
       | h # _ \<Rightarrow>
           if strcmp (hkey h) name \<noteq> 0
           then Ret ((HTTP_ERROR_CODE_NO_SUCH_HEADER, buf, len), rn)
           else
             let value_length = strlen (hvalue h)
             in case buf of
                  None \<Rightarrow> Ret ((HTTP_ERROR_CODE_SUCCEED, None, value_length + 1), rn)
                | Some b \<Rightarrow>
                    if len < value_length + 1
                    then Ret ((HTTP_ERROR_CODE_INSUFFICIENT_BUFFER_SIZE, Some b, value_length + 1), rn)
                    else bindO (strcpy b (hvalue h)) (\<lambda>b'.
                           Ret ((HTTP_ERROR_CODE_SUCCEED, Some b', value_length), rn)))"

section \<open>Invariant\<close>

text \<open>
  Between calls: nothing is owned in the initialized state, no pointer dangles, and a
  parsed request owns a URL and a version of the recorded lengths and an ordered header
  list.
\<close>

definition start_line_ok :: "request_start_line \<Rightarrow> bool" where
  "start_line_ok l \<longleftrightarrow> sl_url l \<noteq> Freed \<and> sl_http_version l \<noteq> Freed \<and>
     (\<forall>u. sl_url l = Live u \<longrightarrow> sl_url_length l = length u) \<and>
     (\<forall>v. sl_http_version l = Live v \<longrightarrow> sl_http_version_length l = length v)"

definition request_ok :: "http_request \<Rightarrow> bool" where
  "request_ok r \<longleftrightarrow> start_line_ok (start_line r) \<and> headers_ok (req_headers r) \<and>
     req_body r = empty_body \<and>
     (case req_state r of
        HTTP_REQUEST_STATE_INITIALIZED \<Rightarrow>
          sl_url (start_line r) = Null \<and> sl_http_version (start_line r) = Null \<and>
          sl_url_length (start_line r) = 0 \<and> sl_http_version_length (start_line r) = 0 \<and>
          req_headers r = []
      | HTTP_REQUEST_STATE_PARSED \<Rightarrow>
          (\<exists>u. sl_url (start_line r) = Live u) \<and> (\<exists>v. sl_http_version (start_line r) = Live v)
      | HTTP_REQUEST_STATE_INVALID \<Rightarrow> True)"

lemma http_request_initialize_ok: "request_ok (snd (http_request_initialize r))"
  by (simp add: http_request_initialize_def request_ok_def start_line_ok_def empty_body_def)

lemma http_request_initialize_state [simp]:
  "req_state (snd (http_request_initialize r)) = HTTP_REQUEST_STATE_INITIALIZED"
  "fst (http_request_initialize r) = HTTP_ERROR_CODE_SUCCEED"
  by (simp_all add: http_request_initialize_def)

text \<open>In the initialized state only the method is not fixed.\<close>

lemma request_ok_initialized:
  "request_ok r \<Longrightarrow> req_state r = HTTP_REQUEST_STATE_INITIALIZED \<Longrightarrow>
     snd (http_request_initialize r) = r"
  by (cases r, cases "start_line r")
    (simp add: request_ok_def http_request_initialize_def empty_body_def)

lemma http_request_destroy_eq:
  assumes "request_ok r"
  shows "http_request_destroy r = Ret (http_request_initialize r)"
proof (cases "req_state r = HTTP_REQUEST_STATE_INITIALIZED")
  case True
  with assms show ?thesis
    by (simp add: http_request_destroy_def prod_eq_iff request_ok_initialized)
next
  case False
  have "sl_http_version (start_line r) \<noteq> Freed" "sl_url (start_line r) \<noteq> Freed"
    using assms by (simp_all add: request_ok_def start_line_ok_def)
  then obtain q q' where "c_free (sl_http_version (start_line r)) = Ret q"
      and "c_free (sl_url (start_line r)) = Ret q'"
    by (metis c_free_safe_iff)
  moreover have "destroy_body (req_body r) = Ret empty_body"
    using assms by (simp add: request_ok_def destroy_body_ok)
  ultimately show ?thesis
    using False by (simp add: http_request_destroy_def http_request_initialize_def)
qed

section \<open>Queries\<close>

lemma find_header_get:
  assumes "headers_ok hs"
  shows "find_header hs name = [] \<Longrightarrow> headers_get hs (cstr name) = None"
    and "find_header hs name = h # t \<Longrightarrow>
           headers_get hs (cstr name) = (if strcmp (hkey h) name = 0 then Some (hvalue h) else None)"
proof -
  show "headers_get hs (cstr name) = None" if "find_header hs name = []"
    using assms that by (induction hs) (auto simp: strcmp_iffs cstr_id split: if_splits)
  show "headers_get hs (cstr name) = (if strcmp (hkey h) name = 0 then Some (hvalue h) else None)"
    if "find_header hs name = h # t"
    using assms that
  proof (induction hs)
    case (Cons x hs)
    have *: "headers_get hs (cstr name) = None" if "cstr name < hkey x"
      using Cons.prems(1) that order.strict_trans
      by (intro headers_get_None_less) fastforce
    show ?case
    proof (cases "hkey x < cstr name")
      case True
      with Cons show ?thesis by (auto simp: strcmp_iffs cstr_id split: if_splits)
    next
      case False
      with Cons.prems have "x = h" "cstr (hkey x) = hkey x"
        by (auto simp: strcmp_iffs cstr_id split: if_splits)
      with False * show ?thesis by (auto simp: strcmp_iffs)
    qed
  qed simp
qed

text \<open>The abstract view of a parsed request that the queries report.\<close>

definition request_url :: "http_request \<Rightarrow> cstring" where
  "request_url r = (case sl_url (start_line r) of Live u \<Rightarrow> u | _ \<Rightarrow> [])"

definition request_header :: "http_request \<Rightarrow> cstring \<Rightarrow> cstring option" where
  "request_header r name = headers_get (req_headers r) (cstr name)"

definition parsed :: "http_request \<Rightarrow> bool" where
  "parsed r \<longleftrightarrow> request_ok r \<and> req_state r = HTTP_REQUEST_STATE_PARSED"

lemma parsedD:
  "parsed r \<Longrightarrow> req_state r = HTTP_REQUEST_STATE_PARSED"
  "parsed r \<Longrightarrow> sl_url (start_line r) = Live (request_url r)"
  "parsed r \<Longrightarrow> sl_url_length (start_line r) = length (request_url r)"
  "parsed r \<Longrightarrow> headers_ok (req_headers r)"
  by (auto simp: parsed_def request_ok_def start_line_ok_def request_url_def)

interpretation url_getter: sized_getter
  parsed http_request_get_url
  "\<lambda>r. length (request_url r) + 1"
  "\<lambda>r. cstr (request_url r) @ [NUL]"
  "\<lambda>r. length (request_url r)"
  "\<lambda>r. r"
proof
  fix r :: http_request and l :: nat and b :: string
  assume r: "parsed r"
  note [simp] = parsedD [OF r]
  have len: "strlen (request_url r) \<le> length (request_url r)" by (rule strlen_le)
  show "http_request_get_url r None l =
      Ret ((HTTP_ERROR_CODE_SUCCEED, None, length (request_url r) + 1), r)"
    by (simp add: http_request_get_url_def)
  show "http_request_get_url r (Some b) l =
      Ret ((HTTP_ERROR_CODE_INSUFFICIENT_BUFFER_SIZE, Some b, length (request_url r) + 1), r)"
    if "l < length (request_url r) + 1"
    using that by (simp add: http_request_get_url_def)
  show "http_request_get_url r (Some b) l =
      Ret ((HTTP_ERROR_CODE_SUCCEED,
            Some ((cstr (request_url r) @ [NUL]) @ drop (length (cstr (request_url r) @ [NUL])) b),
            length (request_url r)), r)"
    if "length (request_url r) + 1 \<le> l" "l \<le> length b"
  proof -
    have "strcpy b (request_url r) =
        Ret (cstr (request_url r) @ NUL # drop (Suc (strlen (request_url r))) b)"
      using that len by (simp add: strcpy_Ret_iff)
    with that show ?thesis by (simp add: http_request_get_url_def strlen_cstr)
  qed
  show "length (cstr (request_url r) @ [NUL]) \<le> length (request_url r) + 1"
    using len by (simp add: strlen_cstr)
qed auto

text \<open>
  Looking a header up by name finds the value stored under the visible part of the name.
\<close>

definition header_value :: "http_request \<times> cstring \<Rightarrow> cstring" where
  "header_value rn = (case request_header (fst rn) (snd rn) of None \<Rightarrow> [] | Some v \<Rightarrow> v)"

definition has_header :: "http_request \<times> cstring \<Rightarrow> bool" where
  "has_header rn \<longleftrightarrow> parsed (fst rn) \<and> request_header (fst rn) (snd rn) \<noteq> None"

lemma has_header_found:
  assumes "has_header (r, name)"
  obtains h t where "find_header (req_headers r) name = h # t" "strcmp (hkey h) name = 0"
    "hvalue h = header_value (r, name)"
proof (cases "find_header (req_headers r) name")
  case Nil
  then show ?thesis
    using assms find_header_get(1) [of "req_headers r" name]
    by (auto simp: has_header_def request_header_def parsedD)
next
  case (Cons h t)
  then show ?thesis
    using assms find_header_get(2) [OF _ Cons] that
    by (auto simp: has_header_def request_header_def header_value_def parsedD split: if_splits)
qed

lemma http_request_get_header_missing:
  assumes "parsed r" "request_header r name = None"
  shows "http_request_get_header (r, name) buf len =
    Ret ((HTTP_ERROR_CODE_NO_SUCH_HEADER, buf, len), (r, name))"
proof (cases "find_header (req_headers r) name")
  case (Cons h t)
  then show ?thesis
    using assms find_header_get(2) [OF _ Cons]
    by (auto simp: http_request_get_header_def parsedD request_header_def split: if_splits)
qed (use assms in \<open>simp add: http_request_get_header_def parsedD\<close>)

interpretation header_getter: sized_getter
  has_header http_request_get_header
  "\<lambda>rn. strlen (header_value rn) + 1"
  "\<lambda>rn. cstr (header_value rn) @ [NUL]"
  "\<lambda>rn. strlen (header_value rn)"
  "\<lambda>rn. rn"
proof
  fix rn :: "http_request \<times> cstring" and l :: nat and b :: string
  assume ok: "has_header rn"
  obtain r name where rn: "rn = (r, name)" by fastforce
  with ok obtain h t where f: "find_header (req_headers r) name = h # t" "strcmp (hkey h) name = 0"
    and v: "hvalue h = header_value (r, name)"
    by (auto elim: has_header_found)
  have st: "req_state r = HTTP_REQUEST_STATE_PARSED"
    using ok rn by (simp add: has_header_def parsedD)
  note get = rn http_request_get_header_def f st v
  show "http_request_get_header rn None l =
      Ret ((HTTP_ERROR_CODE_SUCCEED, None, strlen (header_value rn) + 1), rn)"
    by (simp add: get)
  show "http_request_get_header rn (Some b) l =
      Ret ((HTTP_ERROR_CODE_INSUFFICIENT_BUFFER_SIZE, Some b, strlen (header_value rn) + 1), rn)"
    if "l < strlen (header_value rn) + 1"
    using that by (simp add: get)
  show "http_request_get_header rn (Some b) l =
      Ret ((HTTP_ERROR_CODE_SUCCEED,
            Some ((cstr (header_value rn) @ [NUL]) @ drop (length (cstr (header_value rn) @ [NUL])) b),
            strlen (header_value rn)), rn)"
    if "strlen (header_value rn) + 1 \<le> l" "l \<le> length b"
  proof -
    have "strcpy b (header_value rn) =
        Ret (cstr (header_value rn) @ NUL # drop (Suc (strlen (header_value rn))) b)"
      using that by (simp add: strcpy_Ret_iff)
    with that show ?thesis by (simp add: get strlen_cstr Let_def)
  qed
qed (simp_all add: strlen_cstr)

end
