(* ===== verification/Request_Parser.thy ===== *)
theory Request_Parser
  imports Request
begin

text \<open>
  \<open>http_request_from_buffer\<close>: the scanning macros, the stages of the parser in the order
  the function runs them, and the function itself.

  \<open>buf\<close> is the block \<open>buffer\<close> points into, up to the end of its allocation; \<open>len\<close> is the
  argument \<open>length\<close>. Reads go through \<open>rd\<close>, so an access past the allocation is a
  \<open>Fault\<close>; an access at or after \<open>len\<close> but inside the block is an ordinary read, as it is
  in C. Indices are \<open>nat\<close>: no block is as large as \<open>SIZE_MAX - 2\<close> bytes, so \<open>end + 2\<close> does
  not wrap. The C variable \<open>end\<close> is called \<open>stop\<close> here (\<open>e\<close> in the scanning loops).
\<close>

section \<open>The scanning macros\<close>

text \<open>\<open>skip_whitespaces\<close>: \<open>None\<close> is \<open>trigger_incomplete\<close>.\<close>

function skip_whitespaces :: "string \<Rightarrow> nat \<Rightarrow> nat \<Rightarrow> nat option outcome" where
  "skip_whitespaces buf len e =
     bindO (rd buf e) (\<lambda>c.
       if isspace c
       then if Suc e = len then Ret None else skip_whitespaces buf len (Suc e)
       else Ret (Some e))"
  by pat_completeness auto
termination
  by (relation "measure (\<lambda>(buf, len, e). length buf - e)") (auto simp: rd_Ret_iff)

function range_non_blank :: "string \<Rightarrow> nat \<Rightarrow> nat \<Rightarrow> nat outcome" where
  "range_non_blank buf len e =
     (if e < len
      then bindO (rd buf e) (\<lambda>c. if isspace c then Ret e else range_non_blank buf len (Suc e))
      else Ret e)"
  by pat_completeness auto
termination
  by (relation "measure (\<lambda>(buf, len, e). len - e)") auto

text \<open>\<open>range_line\<close>: the index of the next CR LF pair; \<open>None\<close> is \<open>trigger_incomplete\<close>.\<close>

function range_line :: "string \<Rightarrow> nat \<Rightarrow> nat \<Rightarrow> nat option outcome" where
  "range_line buf len e =
     (if e + 1 < len
      then bindO (rd buf e) (\<lambda>c.
             if c \<noteq> CR then range_line buf len (Suc e)
             else bindO (rd buf (e + 1)) (\<lambda>d.
                    if d \<noteq> LF then range_line buf len (Suc e) else Ret (Some e)))
      else Ret None)"
  by pat_completeness auto
termination
  by (relation "measure (\<lambda>(buf, len, e). len - e)") auto

text \<open>\<open>strchr(buffer + i, c)\<close>: it knows nothing of \<open>length\<close> and stops at a NUL only.\<close>

function mem_strchr :: "string \<Rightarrow> nat \<Rightarrow> char \<Rightarrow> nat option outcome" where
  "mem_strchr buf i c =
     bindO (rd buf i) (\<lambda>d.
       if d = c then Ret (Some i)
       else if d = NUL then Ret None
       else mem_strchr buf (Suc i) c)"
  by pat_completeness auto
termination
  by (relation "measure (\<lambda>(buf, i, c). length buf - i)") (auto simp: rd_Ret_iff)

text \<open>The two loops that trim a header value.\<close>

function trim_left :: "string \<Rightarrow> nat \<Rightarrow> nat \<Rightarrow> nat outcome" where
  "trim_left buf value_start value_end =
     (if value_start \<noteq> value_end
      then bindO (rd buf value_start) (\<lambda>c.
             if isspace c then trim_left buf (Suc value_start) value_end else Ret value_start)
      else Ret value_start)"
  by pat_completeness auto
termination
  by (relation "measure (\<lambda>(buf, s, e). length buf - s)") (auto simp: rd_Ret_iff)

fun trim_right :: "string \<Rightarrow> nat \<Rightarrow> nat \<Rightarrow> nat outcome" where
  "trim_right buf value_start 0 = (if value_start \<noteq> 0 then Fault Out_Of_Bounds else Ret 0)"
| "trim_right buf value_start (Suc value_end) =
     (if Suc value_end \<noteq> value_start
      then bindO (rd buf value_end) (\<lambda>c.
             if isspace c then trim_right buf value_start value_end else Ret (Suc value_end))
      else Ret (Suc value_end))"

declare skip_whitespaces.simps [simp del] range_non_blank.simps [simp del]
  range_line.simps [simp del] mem_strchr.simps [simp del] trim_left.simps [simp del]

section \<open>The stages\<close>

definition trigger_incomplete :: "http_request \<Rightarrow> http_error_code \<times> http_request" where
  "trigger_incomplete d =
     (HTTP_ERROR_CODE_INCOMPLETE_REQUEST, d\<lparr>req_state := HTTP_REQUEST_STATE_INVALID\<rparr>)"

definition trigger_invalid :: "http_request \<Rightarrow> http_error_code \<times> http_request" where
  "trigger_invalid d =
     (HTTP_ERROR_CODE_PARSE_INVALID_REQUEST_SYNTAX, d\<lparr>req_state := HTTP_REQUEST_STATE_INVALID\<rparr>)"

text \<open>Storing a header; a duplicate key ends the parse.\<close>

definition store_header :: "http_request \<Rightarrow> header \<Rightarrow> http_error_code \<times> http_request" where
  "store_header d header =
     (let (result, hs) = insert_header (req_headers d) header
      in if result \<noteq> HTTP_ERROR_CODE_SUCCEED
         then (result, d\<lparr>req_state := HTTP_REQUEST_STATE_INVALID\<rparr>)
         else (HTTP_ERROR_CODE_SUCCEED, d\<lparr>req_headers := hs\<rparr>))"

text \<open>One header line, \<open>buffer[start, end)\<close>; \<open>SUCCEED\<close> means: go on with the next line.\<close>

definition parse_header_line ::
  "string \<Rightarrow> http_request \<Rightarrow> nat \<Rightarrow> nat \<Rightarrow> (http_error_code \<times> http_request) outcome" where
  "parse_header_line buf d start stop =
     bindO (mem_strchr buf start (CHR '':'')) (\<lambda>colon_opt.
     case colon_opt of
       None \<Rightarrow> Ret (trigger_invalid d)
     | Some colon \<Rightarrow>
         if list_ex isspace (slice buf start colon) then Ret (trigger_invalid d)
         else
           bindO (trim_left buf (colon + 1) stop) (\<lambda>value_start.
           bindO (trim_right buf value_start stop) (\<lambda>value_end.
             if value_start = value_end then Ret (trigger_invalid d)
             else Ret (store_header d
                         \<lparr>hkey = slice buf start colon, hvalue = slice buf value_start value_end\<rparr>))))"

text \<open>After the empty line: no body is allowed.\<close>

definition parse_body :: "http_request \<Rightarrow> nat \<Rightarrow> nat \<Rightarrow> http_error_code \<times> http_request" where
  "parse_body d len stop =
     (if stop \<noteq> len then trigger_invalid d
      else (HTTP_ERROR_CODE_SUCCEED, d\<lparr>req_state := HTTP_REQUEST_STATE_PARSED\<rparr>))"

lemma range_line_progress: "range_line buf len e = Ret (Some e') \<Longrightarrow> e \<le> e' \<and> e' + 1 < len"
proof (induction "len - e" arbitrary: e rule: less_induct)
  case less
  from less.prems [unfolded range_line.simps [of buf len e]]
  have "(e' = e \<or> range_line buf len (Suc e) = Ret (Some e')) \<and> e + 1 < len"
    by (auto simp: outcome_simps split: if_splits)
  moreover from this have "len - Suc e < len - e" by linarith
  ultimately show ?case using less.hyps [of "Suc e"] by auto
qed

function parse_headers ::
  "string \<Rightarrow> nat \<Rightarrow> http_request \<Rightarrow> nat \<Rightarrow> (http_error_code \<times> http_request) outcome" where
  "parse_headers buf len d start =
     bindO (range_line buf len start) (\<lambda>line.
     case line of
       None \<Rightarrow> Ret (trigger_incomplete d)
     | Some stop \<Rightarrow>
         if start = stop then Ret (parse_body d len (stop + 2))
         else bindO (parse_header_line buf d start stop) (\<lambda>(result, d').
                if result \<noteq> HTTP_ERROR_CODE_SUCCEED then Ret (result, d')
                else parse_headers buf len d' (stop + 2)))"
  by pat_completeness auto
termination
  by (relation "measure (\<lambda>(buf, len, d, start). len - start)")
    (auto dest: range_line_progress)

declare parse_headers.simps [simp del]

definition parse_version ::
  "string \<Rightarrow> nat \<Rightarrow> http_request \<Rightarrow> nat \<Rightarrow> (http_error_code \<times> http_request) outcome" where
  "parse_version buf len d end0 =
     bindO (skip_whitespaces buf len end0) (\<lambda>s.
     case s of None \<Rightarrow> Ret (trigger_incomplete d) | Some start \<Rightarrow>
     bindO (range_non_blank buf len start) (\<lambda>stop.
       if start = stop then Ret (trigger_incomplete d)
       else
         let d1 = d\<lparr>start_line := (start_line d)
                     \<lparr>sl_http_version_length := stop - start,
                      sl_http_version := Live (slice buf start stop)\<rparr>\<rparr>
         in if stop + 1 \<ge> len then Ret (trigger_incomplete d1)
            else bindO (rd buf stop) (\<lambda>c.
                   if c \<noteq> CR then Ret (trigger_invalid d1)
                   else bindO (rd buf (stop + 1)) (\<lambda>c'.
                          if c' \<noteq> LF then Ret (trigger_invalid d1)
                          else parse_headers buf len d1 (stop + 2)))))"

definition parse_url ::
  "string \<Rightarrow> nat \<Rightarrow> http_request \<Rightarrow> nat \<Rightarrow> (http_error_code \<times> http_request) outcome" where
  "parse_url buf len d end0 =
     bindO (skip_whitespaces buf len end0) (\<lambda>s.
     case s of None \<Rightarrow> Ret (trigger_incomplete d) | Some start \<Rightarrow>
     bindO (range_non_blank buf len start) (\<lambda>stop.
       if start = stop then Ret (trigger_incomplete d)
       else
         parse_version buf len
           (d\<lparr>start_line := (start_line d)
               \<lparr>sl_url_length := stop - start, sl_url := Live (slice buf start stop)\<rparr>\<rparr>)
           stop))"

definition http_request_from_buffer ::
  "http_request \<Rightarrow> string \<Rightarrow> nat \<Rightarrow> (http_error_code \<times> http_request) outcome" where
  "http_request_from_buffer destination buf len =
     bindO (if req_state destination \<noteq> HTTP_REQUEST_STATE_INITIALIZED
            then bindO (http_request_destroy destination) (\<lambda>(_, d). Ret d)
            else Ret destination) (\<lambda>d.
     bindO (range_non_blank buf len 0) (\<lambda>stop.
       if strncmp ''GET'' (slice buf 0 stop) stop \<noteq> 0
       then Ret (HTTP_ERROR_CODE_UNSUPPORTED_METHOD, d)
       else
         parse_url buf len
           (d\<lparr>start_line := (start_line d)\<lparr>sl_method := HTTP_REQUEST_METHOD_GET\<rparr>\<rparr>) stop))"

end
