(* ===== verification/Parser_Safety.thy ===== *)
theory Parser_Safety
  imports Request_Parser
begin

text \<open>
  What the scanning macros compute, and the safety of the parser: on a block whose byte
  at index \<open>length\<close> is a NUL, \<open>http_request_from_buffer\<close> never leaves the block, always
  returns, and leaves the request in a well-formed state that matches the return code.
\<close>

section \<open>Ranges of indices\<close>

definition all_in :: "(char \<Rightarrow> bool) \<Rightarrow> string \<Rightarrow> nat \<Rightarrow> nat \<Rightarrow> bool" where
  "all_in P buf i j \<longleftrightarrow> (\<forall>k. i \<le> k \<and> k < j \<longrightarrow> P (buf ! k))"

lemma all_in_empty [simp]: "j \<le> i \<Longrightarrow> all_in P buf i j"
  by (auto simp: all_in_def)

lemma all_in_Suc: "P (buf ! i) \<Longrightarrow> all_in P buf (Suc i) j \<Longrightarrow> all_in P buf i j"
  unfolding all_in_def by (metis Suc_leI le_neq_implies_less)

lemma all_in_D: "all_in P buf i j \<Longrightarrow> i \<le> k \<Longrightarrow> k < j \<Longrightarrow> P (buf ! k)"
  by (simp add: all_in_def)

lemma all_in_slice: "j \<le> length buf \<Longrightarrow> all_in P buf i j \<longleftrightarrow> (\<forall>c \<in> set (slice buf i j). P c)"
  unfolding all_in_def using in_set_slice_iff [of j buf _ i] by metis

lemma list_ex_slice: "j \<le> length buf \<Longrightarrow> list_ex P (slice buf i j) \<longleftrightarrow> \<not> all_in (\<lambda>c. \<not> P c) buf i j"
  by (auto simp: all_in_slice list_ex_iff)

text \<open>The first stop of a scan is unique.\<close>

lemma first_unique:
  assumes "all_in P buf s e" "e < n \<longrightarrow> \<not> P (buf ! e)" "s \<le> e" "e \<le> n"
    and "all_in P buf s e'" "e' < n \<longrightarrow> \<not> P (buf ! e')" "s \<le> e'" "e' \<le> n"
  shows "e = e'"
  using assms by (metis all_in_D linorder_neqE_nat order_less_le_trans)

section \<open>The scanning macros\<close>

lemma range_non_blank_spec:
  "e \<le> len \<Longrightarrow> len \<le> length buf \<Longrightarrow>
     \<exists>e'. range_non_blank buf len e = Ret e' \<and> e \<le> e' \<and> e' \<le> len \<and>
       all_in (\<lambda>c. \<not> isspace c) buf e e' \<and> (e' < len \<longrightarrow> isspace (buf ! e'))"
proof (induction "len - e" arbitrary: e)
  case 0
  then show ?case by (subst range_non_blank.simps) auto
next
  case (Suc n)
  then have e: "e < len" by simp
  show ?case
  proof (cases "isspace (buf ! e)")
    case True
    with e Suc.prems show ?thesis by (subst range_non_blank.simps) auto
  next
    case False
    with e Suc.prems have eq: "range_non_blank buf len e = range_non_blank buf len (Suc e)"
      by (subst range_non_blank.simps) auto
    have "n = len - Suc e" "Suc e \<le> len" using Suc.hyps(2) e by linarith+
    note IH = Suc.hyps(1) [OF this Suc.prems(2)]
    show ?thesis unfolding eq using IH False by (metis all_in_Suc Suc_leD)
  qed
qed

text \<open>A NUL at index \<open>len\<close>, inside the block.\<close>

definition terminated :: "string \<Rightarrow> nat \<Rightarrow> bool" where
  "terminated buf len \<longleftrightarrow> len < length buf \<and> buf ! len = NUL"

lemma terminatedD: "terminated buf len \<Longrightarrow> len < length buf" "terminated buf len \<Longrightarrow> buf ! len = NUL"
  by (simp_all add: terminated_def)

lemma skip_whitespaces_spec:
  "e \<le> len \<Longrightarrow> terminated buf len \<Longrightarrow>
     (skip_whitespaces buf len e = Ret None \<and> e < len \<and> all_in isspace buf e len) \<or>
     (\<exists>e'. skip_whitespaces buf len e = Ret (Some e') \<and> e \<le> e' \<and> e' \<le> len \<and>
       (e' = len \<longrightarrow> e = len) \<and> all_in isspace buf e e' \<and> \<not> isspace (buf ! e'))"
proof (induction "len - e" arbitrary: e)
  case 0
  then show ?case by (subst (1 2) skip_whitespaces.simps) (auto simp: terminated_def)
next
  case (Suc n)
  then have e: "e < len" "e < length buf" by (auto simp: terminated_def)
  show ?case
  proof (cases "isspace (buf ! e)")
    case False
    with e show ?thesis by (subst (1 2) skip_whitespaces.simps) auto
  next
    case sp: True
    show ?thesis
    proof (cases "Suc e = len")
      case True
      with sp e show ?thesis
        by (subst (1 2) skip_whitespaces.simps) (auto simp: all_in_def less_Suc_eq_le)
    next
      case False
      with e sp have eq: "skip_whitespaces buf len e = skip_whitespaces buf len (Suc e)"
        by (subst skip_whitespaces.simps) auto
      have "n = len - Suc e" "Suc e \<le> len" using Suc.hyps(2) e by linarith+
      note IH = Suc.hyps(1) [OF this Suc.prems(2)]
      show ?thesis unfolding eq using IH sp e False by (metis all_in_Suc Suc_leD)
    qed
  qed
qed

abbreviation crlf_at :: "string \<Rightarrow> nat \<Rightarrow> bool" where
  "crlf_at buf i \<equiv> buf ! i = CR \<and> buf ! Suc i = LF"

lemma range_line_spec:
  "len \<le> length buf \<Longrightarrow>
     (range_line buf len e = Ret None \<and> (\<forall>i. e \<le> i \<and> Suc i < len \<longrightarrow> \<not> crlf_at buf i)) \<or>
     (\<exists>e'. range_line buf len e = Ret (Some e') \<and> e \<le> e' \<and> Suc e' < len \<and> crlf_at buf e' \<and>
       (\<forall>i. e \<le> i \<and> i < e' \<longrightarrow> \<not> crlf_at buf i))"
proof (induction "len - e" arbitrary: e rule: less_induct)
  case less
  show ?case
  proof (cases "Suc e < len")
    case False
    then show ?thesis by (subst (1 2) range_line.simps) auto
  next
    case e: True
    show ?thesis
    proof (cases "crlf_at buf e")
      case True
      with e less.prems show ?thesis by (subst (1 2) range_line.simps) auto
    next
      case False
      with e less.prems have eq: "range_line buf len e = range_line buf len (Suc e)"
        by (subst range_line.simps) auto
      have "len - Suc e < len - e" using e by linarith
      note IH = less.hyps [OF this less.prems]
      have step: "(\<forall>i. e \<le> i \<and> Q i \<longrightarrow> \<not> crlf_at buf i) \<longleftrightarrow>
          (\<forall>i. Suc e \<le> i \<and> Q i \<longrightarrow> \<not> crlf_at buf i)" for Q
        using False by (metis Suc_leD Suc_leI le_neq_implies_less)
      show ?thesis unfolding eq step using IH by (auto dest: Suc_leD)
    qed
  qed
qed

lemma mem_strchr_spec:
  "i \<le> len \<Longrightarrow> terminated buf len \<Longrightarrow> c \<noteq> NUL \<Longrightarrow>
     (\<exists>j. mem_strchr buf i c = Ret None \<and> i \<le> j \<and> j \<le> len \<and> buf ! j = NUL \<and>
        all_in (\<lambda>d. d \<noteq> c \<and> d \<noteq> NUL) buf i j) \<or>
     (\<exists>j. mem_strchr buf i c = Ret (Some j) \<and> i \<le> j \<and> j < len \<and> buf ! j = c \<and>
        all_in (\<lambda>d. d \<noteq> c \<and> d \<noteq> NUL) buf i j)"
proof (induction "len - i" arbitrary: i)
  case 0
  then have "i = len" by simp
  with 0 have "mem_strchr buf i c = Ret None"
    by (subst mem_strchr.simps) (auto simp: terminated_def)
  with 0 \<open>i = len\<close> show ?case by (auto simp: terminated_def)
next
  case (Suc n)
  then have i: "i < len" "i < length buf" by (auto simp: terminated_def)
  then have eq: "mem_strchr buf i c =
      (if buf ! i = c then Ret (Some i) else if buf ! i = NUL then Ret None
       else mem_strchr buf (Suc i) c)"
    by (subst mem_strchr.simps) simp
  show ?case
  proof (cases "buf ! i = c \<or> buf ! i = NUL")
    case True
    with i Suc.prems show ?thesis unfolding eq by (auto intro: exI [of _ i])
  next
    case False
    have "n = len - Suc i" "Suc i \<le> len" using Suc.hyps(2) i by auto
    note IH = Suc.hyps(1) [OF this Suc.prems(2,3)]
    have ext: "all_in (\<lambda>d. d \<noteq> c \<and> d \<noteq> NUL) buf i j"
      if "all_in (\<lambda>d. d \<noteq> c \<and> d \<noteq> NUL) buf (Suc i) j" for j
      using False by (intro all_in_Suc [OF _ that]) simp
    have eq': "mem_strchr buf i c = mem_strchr buf (Suc i) c" using eq False by simp
    show ?thesis unfolding eq' using IH
    proof (elim disjE exE conjE, goal_cases)
      case (1 j)
      with ext [of j] show ?case by (intro disjI1 exI [of _ j]) auto
    next
      case (2 j)
      with ext [of j] show ?case by (intro disjI2 exI [of _ j]) auto
    qed
  qed
qed

lemma trim_left_spec:
  "s \<le> e \<Longrightarrow> e \<le> length buf \<Longrightarrow>
     \<exists>s'. trim_left buf s e = Ret s' \<and> s \<le> s' \<and> s' \<le> e \<and>
       all_in isspace buf s s' \<and> (s' < e \<longrightarrow> \<not> isspace (buf ! s'))"
proof (induction "e - s" arbitrary: s)
  case 0
  then show ?case by (subst trim_left.simps) auto
next
  case (Suc n)
  then have s: "s < e" by simp
  show ?case
  proof (cases "isspace (buf ! s)")
    case False
    with s Suc.prems show ?thesis by (subst trim_left.simps) auto
  next
    case True
    with s Suc.prems have eq: "trim_left buf s e = trim_left buf (Suc s) e"
      by (subst trim_left.simps) auto
    have "n = e - Suc s" "Suc s \<le> e" using Suc.hyps(2) s by linarith+
    note IH = Suc.hyps(1) [OF this Suc.prems(2)]
    show ?thesis unfolding eq using IH True by (metis all_in_Suc Suc_leD)
  qed
qed

lemma trim_right_spec:
  "s \<le> e \<Longrightarrow> e \<le> length buf \<Longrightarrow>
     \<exists>e'. trim_right buf s e = Ret e' \<and> s \<le> e' \<and> e' \<le> e \<and>
       all_in isspace buf e' e \<and> (s < e' \<longrightarrow> \<not> isspace (buf ! (e' - 1)))"
proof (induction e)
  case (Suc e)
  then have "e < length buf" by simp
  show ?case
  proof (cases "s = Suc e \<or> \<not> isspace (buf ! e)")
    case True
    with Suc.prems show ?thesis by auto
  next
    case False
    with Suc obtain e' where e': "trim_right buf s e = Ret e'" "s \<le> e'" "e' \<le> e"
        "all_in isspace buf e' e" "s < e' \<longrightarrow> \<not> isspace (buf ! (e' - 1))"
      by auto
    moreover have "all_in isspace buf e' (Suc e)"
      using e' False by (auto simp: all_in_def less_Suc_eq)
    ultimately show ?thesis using False Suc.prems by auto
  qed
qed simp

section \<open>Header lines\<close>

text \<open>
  The text \<open>buf[start, stop)\<close> is a header line: a key without white space, colon or NUL,
  a colon at \<open>colon\<close>, and a value \<open>buf[vs, ve)\<close> with its surrounding white space removed.
\<close>

definition header_line_at :: "string \<Rightarrow> nat \<Rightarrow> nat \<Rightarrow> nat \<Rightarrow> nat \<Rightarrow> nat \<Rightarrow> bool" where
  "header_line_at buf start colon vs ve stop \<longleftrightarrow>
     start \<le> colon \<and> colon < vs \<and> vs < ve \<and> ve \<le> stop \<and> buf ! colon = CHR '':'' \<and>
     all_in (\<lambda>c. c \<noteq> CHR '':'' \<and> c \<noteq> NUL) buf start colon \<and>
     all_in (\<lambda>c. \<not> isspace c) buf start colon \<and>
     all_in isspace buf (Suc colon) vs \<and> \<not> isspace (buf ! vs) \<and>
     \<not> isspace (buf ! (ve - 1)) \<and> all_in isspace buf ve stop"

lemma parse_header_line_cases:
  assumes t: "terminated buf len" and ss: "start \<le> stop" "Suc stop < len" and cr: "buf ! stop = CR"
  shows "parse_header_line buf d start stop = Ret (trigger_invalid d) \<or>
    (\<exists>colon vs ve. header_line_at buf start colon vs ve stop \<and>
       parse_header_line buf d start stop =
         Ret (store_header d \<lparr>hkey = slice buf start colon, hvalue = slice buf vs ve\<rparr>))"
proof -
  have len: "len < length buf" using t by (simp add: terminated_def)
  have "start \<le> len" using ss by simp
  note mem_strchr_spec [OF this t, of "CHR '':''"]
  then consider (none) "mem_strchr buf start (CHR '':'') = Ret None"
    | (some) colon where "mem_strchr buf start (CHR '':'') = Ret (Some colon)"
        "start \<le> colon" "colon < len" "buf ! colon = CHR '':''"
        "all_in (\<lambda>c. c \<noteq> CHR '':'' \<and> c \<noteq> NUL) buf start colon"
    by auto
  then show ?thesis
  proof cases
    case none
    then show ?thesis by (simp add: parse_header_line_def)
  next
    case some
    show ?thesis
    proof (cases "all_in (\<lambda>c. \<not> isspace c) buf start colon")
      case False
      with some len show ?thesis by (simp add: parse_header_line_def list_ex_slice)
    next
      case nosp: True
      have "colon \<noteq> stop" using some(4) cr by auto
      moreover have "\<not> stop < colon" using nosp ss(1) cr all_in_D [OF nosp, of stop] by auto
      ultimately have "Suc colon \<le> stop" by simp
      moreover have stop: "stop \<le> length buf" using ss len by simp
      ultimately obtain vs where vs: "trim_left buf (Suc colon) stop = Ret vs" "Suc colon \<le> vs"
          "vs \<le> stop" "all_in isspace buf (Suc colon) vs" "vs < stop \<longrightarrow> \<not> isspace (buf ! vs)"
        using trim_left_spec by blast
      obtain ve where ve: "trim_right buf vs stop = Ret ve" "vs \<le> ve" "ve \<le> stop"
          "all_in isspace buf ve stop" "vs < ve \<longrightarrow> \<not> isspace (buf ! (ve - 1))"
        using trim_right_spec [OF vs(3) stop] by blast
      have run: "parse_header_line buf d start stop =
          (if vs = ve then Ret (trigger_invalid d)
           else Ret (store_header d \<lparr>hkey = slice buf start colon, hvalue = slice buf vs ve\<rparr>))"
        using some nosp len vs(1) ve(1) by (simp add: parse_header_line_def list_ex_slice)
      show ?thesis
      proof (cases "vs = ve")
        case False
        then have "header_line_at buf start colon vs ve stop"
          using some nosp vs ve by (auto simp: header_line_at_def)
        with run False show ?thesis by auto
      qed (simp add: run)
    qed
  qed
qed

lemma header_line_at_key:
  assumes "header_line_at buf start colon vs ve stop" "stop \<le> length buf"
  shows "NUL \<notin> set (slice buf start colon)"
proof -
  have "colon \<le> length buf" "all_in (\<lambda>c. c \<noteq> CHR '':'' \<and> c \<noteq> NUL) buf start colon"
    using assms by (auto simp: header_line_at_def)
  then show ?thesis by (auto simp: all_in_slice)
qed

section \<open>Safety of the stages\<close>

text \<open>A request under construction, and what a stage may return.\<close>

definition building :: "http_request \<Rightarrow> bool" where
  "building d \<longleftrightarrow> start_line_ok (start_line d) \<and> headers_ok (req_headers d) \<and>
     req_body d = empty_body"

definition has_start_line :: "http_request \<Rightarrow> bool" where
  "has_start_line d \<longleftrightarrow> (\<exists>u. sl_url (start_line d) = Live u) \<and>
     (\<exists>v. sl_http_version (start_line d) = Live v)"

definition result_ok :: "http_error_code \<times> http_request \<Rightarrow> bool" where
  "result_ok r \<longleftrightarrow> building (snd r) \<and>
     (if fst r = HTTP_ERROR_CODE_SUCCEED
      then req_state (snd r) = HTTP_REQUEST_STATE_PARSED \<and> has_start_line (snd r)
      else req_state (snd r) = HTTP_REQUEST_STATE_INVALID \<and>
           fst r \<in> {HTTP_ERROR_CODE_INCOMPLETE_REQUEST, HTTP_ERROR_CODE_PARSE_INVALID_REQUEST_SYNTAX,
                HTTP_ERROR_CODE_DUPLICATE_HEADER_KEY})"

fun returns_ok :: "(http_error_code \<times> http_request) outcome \<Rightarrow> bool" where
  "returns_ok (Ret r) = result_ok r"
| "returns_ok (Fault f) = False"

lemma returns_okE:
  assumes "returns_ok m"
  obtains c d where "m = Ret (c, d)" "result_ok (c, d)"
  using assms by (cases m) auto

lemma result_ok_triggers [simp]:
  "building d \<Longrightarrow> result_ok (trigger_incomplete d)"
  "building d \<Longrightarrow> result_ok (trigger_invalid d)"
  "building d \<Longrightarrow> has_start_line d \<Longrightarrow> result_ok (parse_body d len stop)"
  by (simp_all add: result_ok_def trigger_incomplete_def trigger_invalid_def parse_body_def
      building_def has_start_line_def)

lemma store_header_cases:
  assumes "building d" "NUL \<notin> set (hkey h)"
  shows "(\<exists>hs. store_header d h = (HTTP_ERROR_CODE_SUCCEED, d\<lparr>req_headers := hs\<rparr>) \<and>
            headers_get (req_headers d) (hkey h) = None \<and> headers_ok hs \<and>
            headers_get hs = (headers_get (req_headers d))(hkey h \<mapsto> hvalue h) \<and>
            set hs = insert h (set (req_headers d))) \<or>
         (store_header d h = (HTTP_ERROR_CODE_DUPLICATE_HEADER_KEY,
            d\<lparr>req_state := HTTP_REQUEST_STATE_INVALID\<rparr>) \<and>
          headers_get (req_headers d) (hkey h) \<noteq> None)"
proof -
  have ok: "headers_ok (req_headers d)" using assms(1) by (simp add: building_def)
  show ?thesis
    using insert_header_duplicate [OF ok assms(2)] insert_header_fresh [OF ok assms(2)]
    by (cases "headers_get (req_headers d) (hkey h) = None")
      (auto simp: store_header_def simp del: fun_upd_apply)
qed

lemma parse_header_line_safe:
  assumes "terminated buf len" "start \<le> stop" "Suc stop < len" "buf ! stop = CR"
    and "building d" "has_start_line d"
  shows "\<exists>c d'. parse_header_line buf d start stop = Ret (c, d') \<and>
    (if c = HTTP_ERROR_CODE_SUCCEED then building d' \<and> has_start_line d' else result_ok (c, d'))"
  using parse_header_line_cases [OF assms(1-4), of d]
proof (elim disjE exE conjE)
  assume "parse_header_line buf d start stop = Ret (trigger_invalid d)"
  then show ?thesis using assms(5)
    by (simp add: result_ok_def trigger_invalid_def building_def)
next
  fix colon vs ve
  let ?h = "\<lparr>hkey = slice buf start colon, hvalue = slice buf vs ve\<rparr>"
  assume "header_line_at buf start colon vs ve stop"
    and run: "parse_header_line buf d start stop = Ret (store_header d ?h)"
  then have "NUL \<notin> set (hkey ?h)"
    using header_line_at_key assms(1,3) by (auto simp: terminated_def)
  from store_header_cases [OF assms(5) this] show ?thesis
    unfolding run using assms(5,6) by (auto simp: result_ok_def building_def has_start_line_def)
qed

lemma parse_headers_safe:
  assumes t: "terminated buf len"
  shows "building d \<Longrightarrow> has_start_line d \<Longrightarrow>
    returns_ok (parse_headers buf len d start)"
proof (induction "len - start" arbitrary: d start rule: less_induct)
  case less
  have len: "len \<le> length buf" using t by (simp add: terminated_def)
  from range_line_spec [OF len, of start] show ?case
  proof (elim disjE exE conjE)
    assume "range_line buf len start = Ret None"
    with less.prems show ?thesis by (subst parse_headers.simps) simp
  next
    fix stop assume r: "range_line buf len start = Ret (Some stop)" "start \<le> stop"
      "Suc stop < len" "buf ! stop = CR"
    from parse_header_line_safe [OF t r(2-4) less.prems] obtain c d' where
      line: "parse_header_line buf d start stop = Ret (c, d')" and
      ok: "if c = HTTP_ERROR_CODE_SUCCEED then building d' \<and> has_start_line d' else result_ok (c, d')"
      by blast
    consider "start = stop" | "start \<noteq> stop" "c \<noteq> HTTP_ERROR_CODE_SUCCEED"
      | "start \<noteq> stop" "c = HTTP_ERROR_CODE_SUCCEED" by blast
    then show ?thesis
    proof cases
      case 1
      with r less.prems show ?thesis by (subst parse_headers.simps) simp
    next
      case 2
      with r line ok show ?thesis by (subst parse_headers.simps) simp
    next
      case 3
      have "len - (stop + 2) < len - start" using r by linarith
      from less.hyps [OF this] ok 3
      have "returns_ok (parse_headers buf len d' (stop + 2))" by simp
      with 3 r line show ?thesis by (subst parse_headers.simps) simp
    qed
  qed
qed

lemma parse_version_safe:
  assumes t: "terminated buf len" and d: "building d" and u: "\<exists>u. sl_url (start_line d) = Live u"
    and e: "end0 \<le> len"
  shows "returns_ok (parse_version buf len d end0)"
  using skip_whitespaces_spec [OF e t]
proof (elim disjE exE conjE)
  assume "skip_whitespaces buf len end0 = Ret None"
  with d show ?thesis by (simp add: parse_version_def)
next
  fix start assume s: "skip_whitespaces buf len end0 = Ret (Some start)" "start \<le> len"
  have len: "len < length buf" using t by (simp add: terminated_def)
  with s(2) obtain stop where r: "range_non_blank buf len start = Ret stop" "start \<le> stop" "stop \<le> len"
    using range_non_blank_spec [of start len buf] by auto
  let ?d = "d\<lparr>start_line := (start_line d)
      \<lparr>sl_http_version_length := stop - start, sl_http_version := Live (slice buf start stop)\<rparr>\<rparr>"
  have b: "building ?d" "has_start_line ?d"
    using d u r len by (auto simp: building_def start_line_ok_def has_start_line_def slice_simps)
  from b have "returns_ok (parse_headers buf len ?d (stop + 2))" by (rule parse_headers_safe [OF t])
  with s r len d b show ?thesis by (simp add: parse_version_def Let_def)
qed

lemma parse_url_safe:
  assumes t: "terminated buf len" and d: "building d" and e: "end0 \<le> len"
  shows "returns_ok (parse_url buf len d end0)"
  using skip_whitespaces_spec [OF e t]
proof (elim disjE exE conjE)
  assume "skip_whitespaces buf len end0 = Ret None"
  with d show ?thesis by (simp add: parse_url_def)
next
  fix start assume s: "skip_whitespaces buf len end0 = Ret (Some start)" "start \<le> len"
  have len: "len < length buf" using t by (simp add: terminated_def)
  with s(2) obtain stop where r: "range_non_blank buf len start = Ret stop" "start \<le> stop" "stop \<le> len"
    using range_non_blank_spec [of start len buf] by auto
  let ?d = "d\<lparr>start_line := (start_line d)
      \<lparr>sl_url_length := stop - start, sl_url := Live (slice buf start stop)\<rparr>\<rparr>"
  have b: "building ?d" "\<exists>u. sl_url (start_line ?d) = Live u"
    using d r len by (auto simp: building_def start_line_ok_def slice_simps)
  from b r(3) have "returns_ok (parse_version buf len ?d stop)" by (rule parse_version_safe [OF t])
  with s r d show ?thesis by (simp add: parse_url_def)
qed

section \<open>The whole parser\<close>

text \<open>The state \<open>http_request_initialize\<close> leaves.\<close>

definition fresh_request :: http_request where
  "fresh_request =
     \<lparr>req_state = HTTP_REQUEST_STATE_INITIALIZED,
      start_line = \<lparr>sl_method = HTTP_REQUEST_METHOD_GET,
                    sl_http_version = Null, sl_http_version_length = 0,
                    sl_url = Null, sl_url_length = 0\<rparr>,
      req_headers = [],
      req_body = empty_body\<rparr>"

lemma http_request_initialize_fresh:
  "http_request_initialize r = (HTTP_ERROR_CODE_SUCCEED, fresh_request)"
  by (cases "sl_method (start_line r)")
    (simp add: http_request_initialize_def fresh_request_def empty_body_def)

lemma fresh_request_simps [simp]:
  "req_state fresh_request = HTTP_REQUEST_STATE_INITIALIZED"
  "req_headers fresh_request = []"
  "request_ok fresh_request" "building fresh_request"
  using http_request_initialize_ok [of fresh_request]
  by (simp_all add: http_request_initialize_fresh request_ok_def building_def)
    (simp_all add: fresh_request_def)

lemma request_ok_initialized_fresh:
  "request_ok r \<Longrightarrow> req_state r = HTTP_REQUEST_STATE_INITIALIZED \<Longrightarrow> r = fresh_request"
  using request_ok_initialized [of r] by (simp add: http_request_initialize_fresh)

lemma http_request_destroy_fresh:
  "request_ok r \<Longrightarrow> http_request_destroy r = Ret (HTTP_ERROR_CODE_SUCCEED, fresh_request)"
  by (simp add: http_request_destroy_eq http_request_initialize_fresh)

text \<open>Setting the only method there is changes nothing.\<close>

lemma set_method_fresh [simp]:
  "fresh_request\<lparr>start_line := (start_line fresh_request)\<lparr>sl_method := HTTP_REQUEST_METHOD_GET\<rparr>\<rparr> =
   fresh_request"
  by (simp add: fresh_request_def)

lemma from_buffer_eq:
  assumes "request_ok d"
  shows "http_request_from_buffer d buf len =
    bindO (range_non_blank buf len 0) (\<lambda>stop.
      if strncmp ''GET'' (slice buf 0 stop) stop \<noteq> 0
      then Ret (HTTP_ERROR_CODE_UNSUPPORTED_METHOD, fresh_request)
      else parse_url buf len fresh_request stop)"
proof -
  have "(if req_state d \<noteq> HTTP_REQUEST_STATE_INITIALIZED
      then bindO (http_request_destroy d) (\<lambda>(_, d). Ret d) else Ret d) = Ret fresh_request"
    using http_request_destroy_fresh [OF assms] request_ok_initialized_fresh [OF assms] by simp
  then show ?thesis unfolding http_request_from_buffer_def by (simp only: bindO.simps set_method_fresh)
qed

text \<open>
  The state of the request that goes with a return code of \<open>http_request_from_buffer\<close>.
\<close>

fun state_for :: "http_error_code \<Rightarrow> http_request_state" where
  "state_for HTTP_ERROR_CODE_SUCCEED = HTTP_REQUEST_STATE_PARSED"
| "state_for HTTP_ERROR_CODE_UNSUPPORTED_METHOD = HTTP_REQUEST_STATE_INITIALIZED"
| "state_for _ = HTTP_REQUEST_STATE_INVALID"

definition parser_codes :: "http_error_code list" where
  "parser_codes =
     [HTTP_ERROR_CODE_SUCCEED, HTTP_ERROR_CODE_UNSUPPORTED_METHOD,
      HTTP_ERROR_CODE_INCOMPLETE_REQUEST, HTTP_ERROR_CODE_PARSE_INVALID_REQUEST_SYNTAX,
      HTTP_ERROR_CODE_DUPLICATE_HEADER_KEY]"

lemma result_ok_request_ok:
  "result_ok (c, d) \<Longrightarrow> request_ok d \<and> req_state d = state_for c \<and> c \<in> set parser_codes"
  by (auto simp: result_ok_def request_ok_def building_def has_start_line_def parser_codes_def
      split: if_splits)

lemma from_buffer_safe:
  assumes "request_ok d" and t: "terminated buf len"
  shows "\<exists>c d'. http_request_from_buffer d buf len = Ret (c, d') \<and> request_ok d' \<and>
           req_state d' = state_for c \<and> c \<in> set parser_codes"
proof -
  have len: "len \<le> length buf" using t by (simp add: terminated_def)
  then obtain stop where stop: "range_non_blank buf len 0 = Ret stop" "stop \<le> len"
    using range_non_blank_spec [of 0 len buf] by auto
  show ?thesis
  proof (cases "strncmp ''GET'' (slice buf 0 stop) stop = 0")
    case False
    with stop show ?thesis by (simp add: from_buffer_eq [OF assms(1)] parser_codes_def)
  next
    case True
    obtain c d' where "parse_url buf len fresh_request stop = Ret (c, d')" "result_ok (c, d')"
      using parse_url_safe [OF t _ stop(2), of fresh_request] by (auto elim: returns_okE)
    then show ?thesis
      using True stop result_ok_request_ok by (simp add: from_buffer_eq [OF assms(1)])
  qed
qed

end
