(* ===== verification/Parser_Prefix.thy ===== *)
theory Parser_Prefix
  imports Parser_Safety
begin

text \<open>
  Requests arrive in pieces: \<open>handle_connection\<close> parses whatever has been received so far
  and waits for more when the answer is \<open>INCOMPLETE\<close>. This theory shows that the parser
  supports this: on every proper prefix of an acceptable request it answers
  \<open>INCOMPLETE\<close>, never with a rejection, and an attempt leaves nothing behind that a later
  attempt could see.
\<close>

section \<open>Evaluating the scanners\<close>

lemma range_non_blank_eqI:
  assumes "e \<le> e'" "e' \<le> len" "len \<le> length buf"
    and "all_in (\<lambda>c. \<not> isspace c) buf e e'" "e' < len \<longrightarrow> isspace (buf ! e')"
  shows "range_non_blank buf len e = Ret e'"
proof -
  obtain x where x: "range_non_blank buf len e = Ret x" "e \<le> x" "x \<le> len"
      "all_in (\<lambda>c. \<not> isspace c) buf e x" "x < len \<longrightarrow> isspace (buf ! x)"
    using range_non_blank_spec [of e len buf] assms by auto
  have "x = e'"
    by (rule first_unique [of "\<lambda>c. \<not> isspace c" buf e x len e']) (use x assms in auto)
  with x(1) show ?thesis by simp
qed

lemma skip_whitespaces_eqI:
  assumes "len \<le> length buf" "e \<le> e'" "e' < len"
    and "all_in isspace buf e e'" "\<not> isspace (buf ! e')"
  shows "skip_whitespaces buf len e = Ret (Some e')"
  using assms(2-)
proof (induction "e' - e" arbitrary: e)
  case 0
  then show ?case using assms(1) by (subst skip_whitespaces.simps) auto
next
  case (Suc n)
  then have e: "e < e'" "isspace (buf ! e)" by (auto simp: all_in_def)
  with Suc.prems assms(1) have "skip_whitespaces buf len e = skip_whitespaces buf len (Suc e)"
    by (subst skip_whitespaces.simps) simp
  moreover have "n = e' - Suc e" "Suc e \<le> e'" "all_in isspace buf (Suc e) e'"
    using Suc e by (auto simp: all_in_def)
  ultimately show ?case using Suc by simp
qed

lemma mem_strchr_eqI:
  "i \<le> j \<Longrightarrow> j < length buf \<Longrightarrow> buf ! j = c \<Longrightarrow>
     all_in (\<lambda>d. d \<noteq> c \<and> d \<noteq> NUL) buf i j \<Longrightarrow> mem_strchr buf i c = Ret (Some j)"
proof (induction "j - i" arbitrary: i)
  case 0
  then show ?case by (subst mem_strchr.simps) auto
next
  case (Suc n)
  then have i: "i < j" "buf ! i \<noteq> c" "buf ! i \<noteq> NUL" by (auto simp: all_in_def)
  with Suc.prems have "mem_strchr buf i c = mem_strchr buf (Suc i) c"
    by (subst mem_strchr.simps) simp
  moreover have "n = j - Suc i" "Suc i \<le> j" "all_in (\<lambda>d. d \<noteq> c \<and> d \<noteq> NUL) buf (Suc i) j"
    using Suc i by (auto simp: all_in_def)
  ultimately show ?case using Suc by simp
qed

lemma trim_left_eqI:
  assumes "s \<le> s'" "s' < e" "e \<le> length buf" "all_in isspace buf s s'" "\<not> isspace (buf ! s')"
  shows "trim_left buf s e = Ret s'"
proof -
  obtain x where x: "trim_left buf s e = Ret x" "s \<le> x" "x \<le> e"
      "all_in isspace buf s x" "x < e \<longrightarrow> \<not> isspace (buf ! x)"
    using trim_left_spec [of s e buf] assms by auto
  have "x = s'"
    by (rule first_unique [of isspace buf s x e s']) (use x assms in auto)
  with x(1) show ?thesis by simp
qed

lemma trim_right_eqI:
  assumes "s < e'" "e' \<le> e" "e \<le> length buf" "all_in isspace buf e' e" "\<not> isspace (buf ! (e' - 1))"
  shows "trim_right buf s e = Ret e'"
proof -
  obtain x where x: "trim_right buf s e = Ret x" "s \<le> x" "x \<le> e"
      "all_in isspace buf x e" "s < x \<longrightarrow> \<not> isspace (buf ! (x - 1))"
    using trim_right_spec [of s e buf] assms by auto
  have "\<not> x < e'" using all_in_D [OF x(4), of "e' - 1"] assms by (cases e') auto
  moreover have "\<not> e' < x" using all_in_D [OF assms(4), of "x - 1"] x assms(1) by (cases x) auto
  ultimately show ?thesis using x(1) by simp
qed

lemma parse_header_line_eqI:
  assumes h: "header_line_at buf start colon vs ve stop" and stop: "stop \<le> length buf"
  shows "parse_header_line buf d start stop =
    Ret (store_header d \<lparr>hkey = slice buf start colon, hvalue = slice buf vs ve\<rparr>)"
proof -
  note h' = h [unfolded header_line_at_def]
  have "mem_strchr buf start (CHR '':'') = Ret (Some colon)"
    using h' stop by (intro mem_strchr_eqI) auto
  moreover have "\<not> list_ex isspace (slice buf start colon)"
    using h' stop by (subst list_ex_slice) auto
  moreover have "trim_left buf (colon + 1) stop = Ret vs"
    using h' stop by (intro trim_left_eqI) auto
  moreover have "trim_right buf vs stop = Ret ve"
    using h' stop by (intro trim_right_eqI) auto
  ultimately show ?thesis using h' by (simp add: parse_header_line_def)
qed

section \<open>A buffer and a truncation of it\<close>

definition truncation :: "string \<Rightarrow> nat \<Rightarrow> string \<Rightarrow> nat \<Rightarrow> bool" where
  "truncation buf len buf' k \<longleftrightarrow> k < len \<and> terminated buf len \<and> k \<le> length buf' \<and>
     (\<forall>i < k. buf' ! i = buf ! i)"

lemma truncationD:
  assumes "truncation buf len buf' k"
  shows "k < len" "len < length buf" "k \<le> length buf'" "terminated buf len"
    "i < k \<Longrightarrow> buf' ! i = buf ! i"
  using assms by (auto simp: truncation_def terminated_def)

lemma all_in_truncation:
  "truncation buf len buf' k \<Longrightarrow> j \<le> k \<Longrightarrow> all_in P buf' i j \<longleftrightarrow> all_in P buf i j"
  by (auto simp: truncation_def all_in_def)

lemma slice_truncation:
  assumes "truncation buf len buf' k" "j \<le> k"
  shows "slice buf' i j = slice buf i j"
  using truncationD [OF assms(1)] assms(2)
  by (intro nth_equalityI) (auto simp: slice_simps)

lemma range_non_blank_truncation:
  assumes t: "truncation buf len buf' k" and e: "e \<le> k" and r: "range_non_blank buf len e = Ret x"
  shows "range_non_blank buf' k e = Ret (min x k)"
proof -
  note t' = truncationD [OF t]
  have x: "e \<le> x" "x \<le> len" "all_in (\<lambda>c. \<not> isspace c) buf e x" "x < len \<longrightarrow> isspace (buf ! x)"
    using range_non_blank_spec [of e len buf] r e t' by auto
  show ?thesis
    by (rule range_non_blank_eqI)
      (use x e t' in \<open>auto simp: all_in_def min_def split: if_splits\<close>)
qed

lemma skip_whitespaces_inside:
  "e < k \<Longrightarrow> k \<le> length buf \<Longrightarrow>
     (skip_whitespaces buf k e = Ret None \<and> all_in isspace buf e k) \<or>
     (\<exists>x. skip_whitespaces buf k e = Ret (Some x) \<and> e \<le> x \<and> x < k \<and>
        all_in isspace buf e x \<and> \<not> isspace (buf ! x))"
proof (induction "k - e" arbitrary: e rule: less_induct)
  case less
  show ?case
  proof (cases "isspace (buf ! e) \<and> Suc e \<noteq> k")
    case True
    with less.prems have eq: "skip_whitespaces buf k e = skip_whitespaces buf k (Suc e)"
      by (subst skip_whitespaces.simps) auto
    have "k - Suc e < k - e" "Suc e < k" using True less.prems by linarith+
    note IH = less.hyps [OF this less.prems(2)]
    show ?thesis unfolding eq using IH True by (metis all_in_Suc Suc_leD)
  next
    case False
    with less.prems show ?thesis
      by (subst (1 2) skip_whitespaces.simps) (auto simp: all_in_def less_Suc_eq)
  qed
qed

lemma skip_whitespaces_truncation:
  assumes t: "truncation buf len buf' k" and e: "e < k"
    and r: "skip_whitespaces buf len e = Ret (Some x)"
  shows "(x < k \<and> skip_whitespaces buf' k e = Ret (Some x)) \<or>
         (k \<le> x \<and> skip_whitespaces buf' k e = Ret None)"
proof -
  note t' = truncationD [OF t]
  have x: "e \<le> x" "x \<le> len" "all_in isspace buf e x" "\<not> isspace (buf ! x)"
    using skip_whitespaces_spec [of e len buf] r e t' by auto
  from skip_whitespaces_inside [OF e t'(3)] show ?thesis
  proof (elim disjE exE conjE)
    assume n: "skip_whitespaces buf' k e = Ret None" "all_in isspace buf' e k"
    then have "\<not> x < k" using x all_in_D [OF n(2), of x] t'(5) by auto
    with n show ?thesis by simp
  next
    fix y assume y: "skip_whitespaces buf' k e = Ret (Some y)" "e \<le> y" "y < k"
      "all_in isspace buf' e y" "\<not> isspace (buf' ! y)"
    have "x = y"
      by (rule first_unique [of isspace buf e x len y])
        (use x y t t' in \<open>auto simp: all_in_truncation\<close>)
    with y show ?thesis by simp
  qed
qed

lemma range_line_truncation:
  assumes t: "truncation buf len buf' k" and r: "range_line buf len e = Ret (Some x)"
  shows "(Suc x < k \<and> range_line buf' k e = Ret (Some x)) \<or>
         (k \<le> Suc x \<and> range_line buf' k e = Ret None)"
proof -
  note t' = truncationD [OF t]
  have x: "e \<le> x" "Suc x < len" "crlf_at buf x" "\<forall>i. e \<le> i \<and> i < x \<longrightarrow> \<not> crlf_at buf i"
    using range_line_spec [of len buf e] r t' by auto
  have same: "crlf_at buf' i \<longleftrightarrow> crlf_at buf i" if "Suc i < k" for i
    using that t'(5) by auto
  have k: "k \<le> length buf'" using t' by simp
  from range_line_spec [OF k, of e] show ?thesis
  proof (elim disjE exE conjE)
    assume n: "range_line buf' k e = Ret None" "\<forall>i. e \<le> i \<and> Suc i < k \<longrightarrow> \<not> crlf_at buf' i"
    then have "\<not> Suc x < k" using x same by blast
    with n show ?thesis by simp
  next
    fix y assume y: "range_line buf' k e = Ret (Some y)" "e \<le> y" "Suc y < k"
      "buf' ! y = CR" "buf' ! Suc y = LF" "\<forall>i. e \<le> i \<and> i < y \<longrightarrow> \<not> crlf_at buf' i"
    have "\<not> y < x" using x y same by blast
    moreover have "\<not> x < y" using x y same [of x] by auto
    ultimately show ?thesis using y by simp
  qed
qed

lemma header_line_at_truncation:
  assumes "truncation buf len buf' k" "stop \<le> k"
  shows "header_line_at buf' start colon vs ve stop \<longleftrightarrow> header_line_at buf start colon vs ve stop"
  using assms truncationD(5) [OF assms(1)] all_in_truncation [OF assms(1)]
  by (auto simp: header_line_at_def)

section \<open>The stages on a truncated buffer\<close>

text \<open>\<open>waits m\<close>: the parser asks for more data.\<close>

fun waits :: "(http_error_code \<times> http_request) outcome \<Rightarrow> bool" where
  "waits (Ret r) = (fst r = HTTP_ERROR_CODE_INCOMPLETE_REQUEST)"
| "waits (Fault f) = False"

lemma waits_trigger [simp]: "fst (trigger_incomplete d) = HTTP_ERROR_CODE_INCOMPLETE_REQUEST"
  by (simp add: trigger_incomplete_def)

lemma parse_header_line_success:
  assumes "terminated buf len" "start \<le> stop" "Suc stop < len" "buf ! stop = CR"
    and "parse_header_line buf d start stop = Ret (HTTP_ERROR_CODE_SUCCEED, d')"
  obtains colon vs ve where "header_line_at buf start colon vs ve stop"
    "store_header d \<lparr>hkey = slice buf start colon, hvalue = slice buf vs ve\<rparr> =
       (HTTP_ERROR_CODE_SUCCEED, d')"
  using parse_header_line_cases [OF assms(1-4), of d] assms(5)
  by (auto simp: trigger_invalid_def)

lemma parse_headers_waits:
  assumes t: "truncation buf len buf' k"
  shows "parse_headers buf len d start = Ret (HTTP_ERROR_CODE_SUCCEED, d1) \<Longrightarrow>
    waits (parse_headers buf' k d start)"
proof (induction "len - start" arbitrary: d start rule: less_induct)
  case less
  note t' = truncationD [OF t]
  have len: "len \<le> length buf" using t' by simp
  from range_line_spec [OF len, of start] show ?case
  proof (elim disjE exE conjE)
    assume "range_line buf len start = Ret None"
    with less.prems show ?thesis
      by (simp add: parse_headers.simps [of buf len d] trigger_incomplete_def)
  next
    fix stop assume r: "range_line buf len start = Ret (Some stop)" "start \<le> stop"
      "Suc stop < len" "buf ! stop = CR"
    show ?thesis
    proof (cases "Suc stop < k")
      case False
      then have "range_line buf' k start = Ret None"
        using range_line_truncation [OF t r(1)] by auto
      then show ?thesis by (simp add: parse_headers.simps [of buf' k d])
    next
      case True
      then have r': "range_line buf' k start = Ret (Some stop)"
        using range_line_truncation [OF t r(1)] by auto
      have ne: "start \<noteq> stop"
      proof
        assume "start = stop"
        with less.prems r(1) True t'(1) show False
          by (simp add: parse_headers.simps [of buf len d] parse_body_def trigger_invalid_def)
      qed
      with less.prems r(1) obtain d' where
        line: "parse_header_line buf d start stop = Ret (HTTP_ERROR_CODE_SUCCEED, d')" and
        rest: "parse_headers buf len d' (stop + 2) = Ret (HTTP_ERROR_CODE_SUCCEED, d1)"
        by (auto simp: parse_headers.simps [of buf len d start] outcome_simps split: if_splits)
      obtain colon vs ve where h: "header_line_at buf start colon vs ve stop" and
        st: "store_header d \<lparr>hkey = slice buf start colon, hvalue = slice buf vs ve\<rparr> =
           (HTTP_ERROR_CODE_SUCCEED, d')"
        using parse_header_line_success [OF t'(4) r(2-4) line] by blast
      have "parse_header_line buf' d start stop = Ret (HTTP_ERROR_CODE_SUCCEED, d')"
      proof -
        have "header_line_at buf' start colon vs ve stop"
          using h header_line_at_truncation [OF t] True by simp
        moreover have "colon \<le> k" "ve \<le> k" using h True by (auto simp: header_line_at_def)
        moreover have "stop \<le> length buf'" using True t' by simp
        ultimately show ?thesis
          using st slice_truncation [OF t] by (simp add: parse_header_line_eqI)
      qed
      moreover have "waits (parse_headers buf' k d' (stop + 2))"
        by (rule less.hyps [OF _ rest]) (use r in linarith)
      ultimately show ?thesis
        using r' ne by (simp add: parse_headers.simps [of buf' k d start])
    qed
  qed
qed

lemma parse_version_waits:
  assumes t: "truncation buf len buf' k" and e: "end0 < k"
    and ok: "parse_version buf len d end0 = Ret (HTTP_ERROR_CODE_SUCCEED, d1)"
  shows "waits (parse_version buf' k d end0)"
proof -
  note t' = truncationD [OF t]
  from ok obtain start where s: "skip_whitespaces buf len end0 = Ret (Some start)"
    by (auto simp: parse_version_def trigger_incomplete_def outcome_simps split: option.splits)
  have start: "start \<le> len" using skip_whitespaces_spec [of end0 len buf] s e t' by auto
  then obtain stop where r: "range_non_blank buf len start = Ret stop" "start \<le> stop" "stop \<le> len"
    using range_non_blank_spec [of start len buf] t' by auto
  let ?d = "d\<lparr>start_line := (start_line d)
      \<lparr>sl_http_version_length := stop - start, sl_http_version := Live (slice buf start stop)\<rparr>\<rparr>"
  from ok s r have c: "start \<noteq> stop" "stop + 1 < len" "buf ! stop = CR" "buf ! (stop + 1) = LF"
      and h: "parse_headers buf len ?d (stop + 2) = Ret (HTTP_ERROR_CODE_SUCCEED, d1)"
    by (auto simp: parse_version_def Let_def trigger_incomplete_def trigger_invalid_def
        outcome_simps split: if_splits)
  from skip_whitespaces_truncation [OF t e s] show ?thesis
  proof (elim disjE conjE)
    assume k: "start < k" and s': "skip_whitespaces buf' k end0 = Ret (Some start)"
    then have r': "range_non_blank buf' k start = Ret (min stop k)"
      using range_non_blank_truncation [OF t _ r(1)] by simp
    show ?thesis
    proof (cases "stop + 1 < k")
      case True
      then have "slice buf' start stop = slice buf start stop"
        by (intro slice_truncation [OF t]) simp
      then show ?thesis
        using True s' r' c t' parse_headers_waits [OF t h]
        by (simp add: parse_version_def Let_def min_def)
    next
      case False
      then show ?thesis using s' r' k c(1)
        by (auto simp: parse_version_def Let_def min_def split: if_splits)
    qed
  qed (simp_all add: parse_version_def range_non_blank.simps)
qed

text \<open>
  When the buffer is cut inside a token the next scan starts at its very end: it looks at
  the byte after the message.
\<close>

definition looks_past :: "string \<Rightarrow> nat \<Rightarrow> (http_error_code \<times> http_request) outcome \<Rightarrow> bool" where
  "looks_past buf k m \<longleftrightarrow> (\<exists>F. m = bindO (skip_whitespaces buf k k) F \<and> waits (F (Some k)))"

lemma looks_past_terminated: "looks_past buf k m \<Longrightarrow> terminated buf k \<Longrightarrow> waits m"
proof -
  assume "terminated buf k"
  then have "skip_whitespaces buf k k = Ret (Some k)"
    by (subst skip_whitespaces.simps) (simp add: terminated_def)
  then show "looks_past buf k m \<Longrightarrow> waits m" by (auto simp: looks_past_def)
qed

lemma looks_past_exact: "looks_past buf (length buf) m \<Longrightarrow> m = Fault Out_Of_Bounds"
proof -
  have "skip_whitespaces buf (length buf) (length buf) = Fault Out_Of_Bounds"
    by (subst skip_whitespaces.simps) simp
  then show "looks_past buf (length buf) m \<Longrightarrow> m = Fault Out_Of_Bounds" by (auto simp: looks_past_def)
qed

lemma range_non_blank_end: "range_non_blank buf k k = Ret k"
  by (subst range_non_blank.simps) simp

lemma looks_past_version: "looks_past buf k (parse_version buf k d k)"
  unfolding looks_past_def parse_version_def
  by (rule exI, rule conjI, rule refl) (simp add: range_non_blank_end)

lemma looks_past_url: "looks_past buf k (parse_url buf k d k)"
  unfolding looks_past_def parse_url_def
  by (rule exI, rule conjI, rule refl) (simp add: range_non_blank_end)

lemma parse_url_truncated:
  assumes t: "truncation buf len buf' k" and e: "end0 < k"
    and ok: "parse_url buf len d end0 = Ret (HTTP_ERROR_CODE_SUCCEED, d1)"
    and s: "skip_whitespaces buf len end0 = Ret (Some start)"
    and r: "range_non_blank buf len start = Ret stop"
  shows "if start < k \<and> k \<le> stop then looks_past buf' k (parse_url buf' k d end0)
    else waits (parse_url buf' k d end0)"
proof -
  note t' = truncationD [OF t]
  have start: "start \<le> len" using skip_whitespaces_spec [of end0 len buf] s e t' by auto
  then have r2: "start \<le> stop" "stop \<le> len"
    using range_non_blank_spec [of start len buf] t' r by auto
  let ?d = "\<lambda>u n. d\<lparr>start_line := (start_line d)\<lparr>sl_url_length := n, sl_url := Live u\<rparr>\<rparr>"
  from ok s r have c: "start \<noteq> stop"
      and h: "parse_version buf len (?d (slice buf start stop) (stop - start)) stop =
        Ret (HTTP_ERROR_CODE_SUCCEED, d1)"
    by (auto simp: parse_url_def trigger_incomplete_def split: if_splits)
  from skip_whitespaces_truncation [OF t e s] show ?thesis
  proof (elim disjE conjE)
    assume k: "start < k" and s': "skip_whitespaces buf' k end0 = Ret (Some start)"
    then have r': "range_non_blank buf' k start = Ret (min stop k)"
      using range_non_blank_truncation [OF t _ r] by simp
    show ?thesis
    proof (cases "stop < k")
      case True
      then have "slice buf' start stop = slice buf start stop"
        by (intro slice_truncation [OF t]) simp
      then show ?thesis
        using True s' r' c parse_version_waits [OF t _ h]
        by (simp add: parse_url_def min_def)
    next
      case False
      then have "parse_url buf' k d end0 =
          parse_version buf' k (?d (slice buf' start k) (k - start)) k"
        using s' r' k by (simp add: parse_url_def min_def split: if_splits)
      then show ?thesis using False k looks_past_version by simp
    qed
  qed (simp_all add: parse_url_def)
qed

lemma cstr_take: "cstr (take m s) = take m (cstr s)"
  by (induction s arbitrary: m) (auto simp: cstr_def take_Cons split: nat.splits)

lemma from_buffer_truncated:
  assumes d: "request_ok d" "request_ok d'" and t: "truncation buf len buf' k"
    and ok: "http_request_from_buffer d buf len = Ret (HTTP_ERROR_CODE_SUCCEED, d1)"
    and r: "range_non_blank buf len 0 = Ret m" and s: "skip_whitespaces buf len m = Ret (Some start)"
    and u: "range_non_blank buf len start = Ret stop"
  shows "if k \<le> m \<or> start < k \<and> k \<le> stop
    then looks_past buf' k (http_request_from_buffer d' buf' k)
    else waits (http_request_from_buffer d' buf' k)"
proof -
  note t' = truncationD [OF t]
  from ok r have m: "strncmp ''GET'' (slice buf 0 m) m = 0"
      and h: "parse_url buf len fresh_request m = Ret (HTTP_ERROR_CODE_SUCCEED, d1)"
    by (auto simp: from_buffer_eq [OF d(1)] split: if_splits)
  have r': "range_non_blank buf' k 0 = Ret (min m k)"
    using range_non_blank_truncation [OF t _ r] by simp
  let ?n = "min m k"
  have "slice buf' 0 ?n = take ?n (slice buf 0 m)"
    using slice_truncation [OF t, of ?n 0] by (simp add: slice_def)
  with m have m': "strncmp ''GET'' (slice buf' 0 ?n) ?n = 0"
    unfolding strncmp_eq_0_iff by (simp add: cstr_take) (metis min.commute take_take)
  then have eq: "http_request_from_buffer d' buf' k = parse_url buf' k fresh_request ?n"
    using r' by (simp add: from_buffer_eq [OF d(2)])
  show ?thesis
  proof (cases "m < k")
    case True
    then show ?thesis
      using eq parse_url_truncated [OF t _ h s u] by (simp add: min_def)
  next
    case False
    then show ?thesis using eq looks_past_url by (simp add: min_def)
  qed
qed

lemma parse_scans:
  assumes "terminated buf len" "request_ok d"
    and "http_request_from_buffer d buf len = Ret (HTTP_ERROR_CODE_SUCCEED, d1)"
  obtains m start stop where "range_non_blank buf len 0 = Ret m"
    "skip_whitespaces buf len m = Ret (Some start)" "range_non_blank buf len start = Ret stop"
proof -
  have l: "len \<le> length buf" using assms(1) by (simp add: terminated_def)
  then obtain m where m: "range_non_blank buf len 0 = Ret m" "m \<le> len"
    using range_non_blank_spec [of 0 len buf] by auto
  with assms(3) have "parse_url buf len fresh_request m = Ret (HTTP_ERROR_CODE_SUCCEED, d1)"
    by (auto simp: from_buffer_eq [OF assms(2)] split: if_splits)
  then obtain start where s: "skip_whitespaces buf len m = Ret (Some start)"
    by (auto simp: parse_url_def trigger_incomplete_def outcome_simps split: option.splits)
  moreover have "start \<le> len" using skip_whitespaces_spec [OF m(2) assms(1)] s by auto
  then obtain stop where "range_non_blank buf len start = Ret stop"
    using range_non_blank_spec [of start len buf] l by auto
  ultimately show thesis using that m by blast
qed

lemma from_buffer_waits:
  assumes d: "request_ok d" "request_ok d'" and t: "truncation buf len buf' k" "terminated buf' k"
    and ok: "http_request_from_buffer d buf len = Ret (HTTP_ERROR_CODE_SUCCEED, d1)"
  shows "waits (http_request_from_buffer d' buf' k)"
proof -
  obtain m start stop where "range_non_blank buf len 0 = Ret m"
      "skip_whitespaces buf len m = Ret (Some start)" "range_non_blank buf len start = Ret stop"
    using parse_scans [OF truncationD(4) [OF t(1)] d(1) ok] by blast
  from from_buffer_truncated [OF d t(1) ok this] show ?thesis
    using looks_past_terminated [OF _ t(2)] by (auto split: if_splits)
qed

end
