(* ===== verification/Parser_Grammar.thy ===== *)
theory Parser_Grammar
  imports Parser_Prefix
begin

text \<open>
  The language the parser accepts, as a grammar of strings, and the request each accepted
  text denotes. The main lemma says that \<open>http_request_from_buffer\<close> succeeds exactly on
  the texts of the grammar and then returns exactly the denoted request.
\<close>

section \<open>Slices\<close>

lemma slice_split: "i \<le> j \<Longrightarrow> j \<le> k \<Longrightarrow> slice m i k = slice m i j @ slice m j k"
proof -
  assume "i \<le> j" "j \<le> k"
  then obtain a b where j: "j = i + a" and k: "k = i + a + b"
    by (metis le_add_diff_inverse)
  have "take (a + b) (drop i m) = take a (drop i m) @ take b (drop a (drop i m))"
    by (rule take_add)
  then show ?thesis by (simp add: slice_def j k add.commute)
qed

lemma slice_eq_append:
  assumes "slice m i k = xs @ ys" "i \<le> k" "k \<le> length m"
  shows "slice m i (i + length xs) = xs" "slice m (i + length xs) k = ys" "i + length xs \<le> k"
proof -
  have "k - i = length xs + length ys"
    using arg_cong [OF assms(1), of length] assms(3) by (simp add: length_slice)
  then show le: "i + length xs \<le> k" using assms(2) by linarith
  have "slice m i (i + length xs) @ slice m (i + length xs) k = xs @ ys"
    using slice_split [of i "i + length xs" k m] le assms(1) by simp
  moreover have "length (slice m i (i + length xs)) = length xs"
    using le assms(3) by (simp add: length_slice)
  ultimately show "slice m i (i + length xs) = xs" "slice m (i + length xs) k = ys"
    by simp_all
qed

lemma slice_two: "Suc i < length m \<Longrightarrow> slice m i (Suc (Suc i)) = [m ! i, m ! Suc i]"
  by (simp add: slice_Cons slice_empty)

lemma slice_eq_Cons:
  assumes "slice m i k = x # xs" "k \<le> length m"
  shows "i < k" "m ! i = x" "slice m (Suc i) k = xs"
proof -
  show i: "i < k" using assms(1) by (metis list.distinct(1) not_less slice_empty)
  with assms show "m ! i = x" "slice m (Suc i) k = xs" by (simp_all add: slice_Cons)
qed

lemma hd_slice: "i < j \<Longrightarrow> j \<le> length m \<Longrightarrow> hd (slice m i j) = m ! i"
  by (simp add: slice_Cons)

lemma last_slice: "i < j \<Longrightarrow> j \<le> length m \<Longrightarrow> last (slice m i j) = m ! (j - 1)"
proof -
  assume j: "i < j" "j \<le> length m"
  then have "slice m i j \<noteq> []" by (simp add: slice_Cons)
  with j show ?thesis by (simp add: last_conv_nth length_slice nth_slice)
qed

section \<open>Grammar\<close>

record header_text =
  ht_key :: string
  ht_lead :: string
  ht_value :: string
  ht_trail :: string

text \<open>No CR LF pair inside.\<close>

fun no_crlf :: "string \<Rightarrow> bool" where
  "no_crlf (c # d # cs) = (\<not> (c = CR \<and> d = LF) \<and> no_crlf (d # cs))"
| "no_crlf _ = True"

definition line_of :: "header_text \<Rightarrow> string" where
  "line_of h = ht_key h @ CHR '':'' # ht_lead h @ ht_value h @ ht_trail h"

definition header_text_ok :: "header_text \<Rightarrow> bool" where
  "header_text_ok h \<longleftrightarrow>
     list_all (\<lambda>c. \<not> isspace c \<and> c \<noteq> CHR '':'' \<and> c \<noteq> NUL) (ht_key h) \<and>
     list_all isspace (ht_lead h) \<and> list_all isspace (ht_trail h) \<and>
     ht_value h \<noteq> [] \<and> \<not> isspace (hd (ht_value h)) \<and> \<not> isspace (last (ht_value h)) \<and>
     no_crlf (line_of h)"

fun headers_text :: "header_text list \<Rightarrow> string" where
  "headers_text [] = [CR, LF]"
| "headers_text (h # hs) = line_of h @ [CR, LF] @ headers_text hs"

record request_text =
  rt_method :: string
  rt_sep1 :: string
  rt_url :: string
  rt_sep2 :: string
  rt_version :: string
  rt_headers :: "header_text list"

definition request_text_of :: "request_text \<Rightarrow> string" where
  "request_text_of t =
     rt_method t @ rt_sep1 t @ rt_url t @ rt_sep2 t @ rt_version t @ [CR, LF] @ headers_text (rt_headers t)"

definition token_ok :: "string \<Rightarrow> bool" where
  "token_ok s \<longleftrightarrow> s \<noteq> [] \<and> list_all (\<lambda>c. \<not> isspace c) s"

definition sep_ok :: "string \<Rightarrow> bool" where
  "sep_ok s \<longleftrightarrow> s \<noteq> [] \<and> list_all isspace s"

text \<open>What the parser takes for the method \<open>GET\<close>: \<open>strncmp\<close> over the token's own length.\<close>

definition method_ok :: "string \<Rightarrow> bool" where
  "method_ok m \<longleftrightarrow> list_all (\<lambda>c. \<not> isspace c) m \<and> strncmp ''GET'' m (length m) = 0"

definition request_text_ok :: "request_text \<Rightarrow> bool" where
  "request_text_ok t \<longleftrightarrow>
     method_ok (rt_method t) \<and> sep_ok (rt_sep1 t) \<and> token_ok (rt_url t) \<and> sep_ok (rt_sep2 t) \<and>
     token_ok (rt_version t) \<and> list_all header_text_ok (rt_headers t) \<and>
     distinct (map ht_key (rt_headers t))"

section \<open>Denotation\<close>

definition header_of :: "header_text \<Rightarrow> header" where
  "header_of h = \<lparr>hkey = ht_key h, hvalue = ht_value h\<rparr>"

definition start_line_of :: "string \<Rightarrow> string \<Rightarrow> request_start_line" where
  "start_line_of url version =
     \<lparr>sl_method = HTTP_REQUEST_METHOD_GET,
      sl_http_version = Live version, sl_http_version_length = length version,
      sl_url = Live url, sl_url_length = length url\<rparr>"

definition request_of :: "request_text \<Rightarrow> http_request" where
  "request_of t =
     \<lparr>req_state = HTTP_REQUEST_STATE_PARSED,
      start_line = start_line_of (rt_url t) (rt_version t),
      req_headers = sort_key hkey (map header_of (rt_headers t)),
      req_body = empty_body\<rparr>"

text \<open>Storing a list of headers one after the other.\<close>

fun store_all :: "http_request \<Rightarrow> header list \<Rightarrow> http_error_code \<times> http_request" where
  "store_all d [] = (HTTP_ERROR_CODE_SUCCEED, d)"
| "store_all d (h # hs) =
     (let (c, d') = store_header d h
      in if c \<noteq> HTTP_ERROR_CODE_SUCCEED then (c, d') else store_all d' hs)"

lemma headers_ok_set_unique:
  assumes "headers_ok hs" "headers_ok hs'" "set hs = set hs'"
  shows "hs = hs'"
proof (rule headers_ext [OF assms(1,2)])
  have in_get: "headers_get hs (hkey h) = Some (hvalue h)" if "headers_ok hs" "h \<in> set hs" for hs h
    using that by (induction hs) auto
  show "headers_get hs = headers_get hs'"
  proof
    fix k
    show "headers_get hs k = headers_get hs' k"
    proof (cases "headers_get hs k")
      case None
      then show ?thesis using assms(3) by (metis headers_get_None_iff)
    next
      case (Some v)
      then obtain h where "h \<in> set hs" "hkey h = k" "hvalue h = v"
        using headers_get_Some_in by blast
      then show ?thesis using Some in_get [OF assms(2), of h] assms(3) by auto
    qed
  qed
qed

lemma headers_ok_sort_key:
  assumes "\<forall>h \<in> set hs. NUL \<notin> set (hkey h)" "distinct (map hkey hs)"
  shows "headers_ok (sort_key hkey hs)"
proof -
  have "sorted (map hkey (sort_key hkey hs))" by simp
  moreover have "distinct (map hkey (sort_key hkey hs))"
    using assms(2) by (simp add: distinct_map)
  ultimately have s: "sorted_wrt (<) (map hkey (sort_key hkey hs))"
    by (simp add: strict_sorted_iff)
  have "sorted_wrt (\<lambda>a b. cstr (hkey a) < cstr (hkey b)) (sort_key hkey hs)"
    using s unfolding sorted_wrt_map
    by (rule sorted_wrt_mono_rel [rotated]) (use assms(1) in \<open>simp add: cstr_id\<close>)
  with assms(1) show ?thesis by (simp add: headers_ok_def headers_sorted_def)
qed

lemma store_all_success_iff:
  assumes "building d" "\<forall>h \<in> set hs. NUL \<notin> set (hkey h)"
  shows "store_all d hs = (HTTP_ERROR_CODE_SUCCEED, d') \<longleftrightarrow>
    distinct (map hkey hs) \<and> (\<forall>h \<in> set hs. headers_get (req_headers d) (hkey h) = None) \<and>
    (\<exists>l. d' = d\<lparr>req_headers := l\<rparr> \<and> headers_ok l \<and> set l = set (req_headers d) \<union> set hs)"
  using assms
proof (induction hs arbitrary: d)
  case Nil
  have "d = d\<lparr>req_headers := l\<rparr> \<longleftrightarrow> l = req_headers d" for l by (cases d) auto
  with Nil show ?case
    by (auto simp: building_def intro: headers_ok_set_unique)
next
  case (Cons h hs)
  have "NUL \<notin> set (hkey h)" using Cons.prems by simp
  from store_header_cases [OF Cons.prems(1) this] show ?case
  proof (elim disjE exE conjE)
    fix l assume st: "store_header d h = (HTTP_ERROR_CODE_SUCCEED, d\<lparr>req_headers := l\<rparr>)"
      and fresh: "headers_get (req_headers d) (hkey h) = None" and l: "headers_ok l"
      and get: "headers_get l = (headers_get (req_headers d))(hkey h \<mapsto> hvalue h)"
      and set: "set l = insert h (set (req_headers d))"
    have "building (d\<lparr>req_headers := l\<rparr>)" using Cons.prems l by (simp add: building_def)
    note IH = Cons.IH [OF this]
    have "(\<forall>x \<in> set hs. headers_get l (hkey x) = None) \<longleftrightarrow>
        hkey h \<notin> hkey ` set hs \<and> (\<forall>x \<in> set hs. headers_get (req_headers d) (hkey x) = None)"
      unfolding get by (auto split: if_splits) (metis imageI)
    with IH Cons.prems(2) st fresh set show ?thesis by auto
  qed (simp add: trigger_invalid_def)
qed


section \<open>Lines\<close>

lemma no_crlf_iff: "no_crlf xs \<longleftrightarrow> (\<forall>i. Suc i < length xs \<longrightarrow> \<not> (xs ! i = CR \<and> xs ! Suc i = LF))"
proof (induction xs rule: no_crlf.induct)
  case (1 c d cs)
  show ?case
  proof
    assume n: "no_crlf (c # d # cs)"
    show "\<forall>i. Suc i < length (c # d # cs) \<longrightarrow>
        \<not> ((c # d # cs) ! i = CR \<and> (c # d # cs) ! Suc i = LF)"
    proof (intro allI impI)
      fix i assume "Suc i < length (c # d # cs)"
      with n 1 show "\<not> ((c # d # cs) ! i = CR \<and> (c # d # cs) ! Suc i = LF)"
        by (cases i) auto
    qed
  next
    assume n: "\<forall>i. Suc i < length (c # d # cs) \<longrightarrow>
        \<not> ((c # d # cs) ! i = CR \<and> (c # d # cs) ! Suc i = LF)"
    have "\<not> (c = CR \<and> d = LF)" using n [rule_format, of 0] by simp
    moreover have "no_crlf (d # cs)"
      unfolding 1 using n [rule_format, of "Suc i" for i] by auto
    ultimately show "no_crlf (c # d # cs)" by simp
  qed
qed simp_all

lemma no_crlf_slice:
  assumes "stop \<le> length buf" "start \<le> stop" "Suc stop < length buf" "buf ! stop = CR"
  shows "no_crlf (slice buf start stop) \<longleftrightarrow> (\<forall>i. start \<le> i \<and> i < stop \<longrightarrow> \<not> crlf_at buf i)"
proof
  assume n: "no_crlf (slice buf start stop)"
  show "\<forall>i. start \<le> i \<and> i < stop \<longrightarrow> \<not> crlf_at buf i"
  proof (intro allI impI)
    fix i assume i: "start \<le> i \<and> i < stop"
    show "\<not> crlf_at buf i"
    proof (cases "Suc i = stop")
      case False
      then have "Suc (i - start) < stop - start" using i by linarith
      then have "Suc (i - start) < length (slice buf start stop)"
        using assms by (simp add: length_slice)
      with n have "\<not> (slice buf start stop ! (i - start) = CR \<and> slice buf start stop ! Suc (i - start) = LF)"
        unfolding no_crlf_iff by blast
      moreover have "slice buf start stop ! (i - start) = buf ! i"
          "slice buf start stop ! Suc (i - start) = buf ! Suc i"
        using i assms(1) \<open>Suc (i - start) < stop - start\<close>
          nth_slice [of stop buf "i - start" start] nth_slice [of stop buf "Suc (i - start)" start]
        by auto
      ultimately show ?thesis by simp
    qed (use assms(4) in auto)
  qed
next
  assume n: "\<forall>i. start \<le> i \<and> i < stop \<longrightarrow> \<not> crlf_at buf i"
  show "no_crlf (slice buf start stop)"
    unfolding no_crlf_iff using n [rule_format, of "start + i" for i] assms
    by (auto simp: length_slice nth_slice)
qed

lemma range_line_eqI:
  assumes "e \<le> x" "Suc x < len" "len \<le> length buf" "crlf_at buf x"
    "\<forall>i. e \<le> i \<and> i < x \<longrightarrow> \<not> crlf_at buf i"
  shows "range_line buf len e = Ret (Some x)"
  using range_line_spec [OF assms(3), of e]
proof (elim disjE exE conjE)
  fix y assume y: "range_line buf len e = Ret (Some y)" "e \<le> y" "Suc y < len"
    "buf ! y = CR" "buf ! Suc y = LF" "\<forall>i. e \<le> i \<and> i < y \<longrightarrow> \<not> crlf_at buf i"
  have "\<not> y < x" using assms y by blast
  moreover have "\<not> x < y" using assms y by blast
  ultimately show ?thesis using y(1) by simp
qed (use assms in blast)

text \<open>A header line in the buffer is a line of the grammar, and conversely.\<close>

lemma header_line_at_text:
  assumes h: "header_line_at buf start colon vs ve stop" and b: "Suc stop < length buf" "buf ! stop = CR"
    and n: "\<forall>i. start \<le> i \<and> i < stop \<longrightarrow> \<not> crlf_at buf i"
  defines "t \<equiv> \<lparr>ht_key = slice buf start colon, ht_lead = slice buf (Suc colon) vs,
                 ht_value = slice buf vs ve, ht_trail = slice buf ve stop\<rparr>"
  shows "header_text_ok t \<and> slice buf start stop = line_of t"
proof -
  note h' = h [unfolded header_line_at_def]
  have o: "start \<le> colon" "colon < vs" "vs < ve" "ve \<le> stop" "stop < length buf" using h' b by auto
  have "slice buf start stop = slice buf start colon @ slice buf colon stop"
    using o by (intro slice_split) auto
  also have "slice buf colon stop = buf ! colon # slice buf (Suc colon) stop"
    using o by (intro slice_Cons) auto
  also have "slice buf (Suc colon) stop = slice buf (Suc colon) vs @ slice buf vs stop"
    using o by (intro slice_split) auto
  also have "slice buf vs stop = slice buf vs ve @ slice buf ve stop"
    using o by (intro slice_split) auto
  finally have line: "slice buf start stop = line_of t"
    using h' by (simp add: line_of_def t_def)
  have v: "slice buf vs ve = buf ! vs # slice buf (Suc vs) ve"
    using o by (intro slice_Cons) auto
  have "last (slice buf vs ve) = buf ! (ve - 1)"
    using o by (intro last_slice) auto
  moreover have "no_crlf (line_of t)"
    using n no_crlf_slice [of stop buf start] o b unfolding line [symmetric] by auto
  ultimately show ?thesis
    using line h' o v
    by (auto simp: header_text_ok_def t_def list_all_iff all_in_slice)
qed

lemma text_header_line_at:
  assumes t: "header_text_ok t" and s: "slice buf start stop = line_of t" and b: "start \<le> stop" "stop \<le> length buf"
  shows "\<exists>colon vs ve. header_line_at buf start colon vs ve stop \<and>
    slice buf start colon = ht_key t \<and> slice buf vs ve = ht_value t"
proof -
  let ?colon = "start + length (ht_key t)"
  let ?vs = "Suc ?colon + length (ht_lead t)"
  let ?ve = "?vs + length (ht_value t)"
  note s1 = slice_eq_append [OF s [unfolded line_of_def] b]
  note s2 = slice_eq_Cons [OF s1(2) b(2)]
  have "Suc ?colon \<le> stop" using s2(1) by simp
  note s3 = slice_eq_append [OF s2(3) this b(2)]
  note s4 = slice_eq_append [OF s3(2) s3(3) b(2)]
  have "ht_value t \<noteq> []" using t by (simp add: header_text_ok_def)
  then have ve: "?vs < ?ve" "?ve \<le> length buf" using s4(3) b(2) by auto
  have "hd (ht_value t) = buf ! ?vs" using hd_slice [OF ve] s4(1) by simp
  moreover have "last (ht_value t) = buf ! (?ve - 1)" using last_slice [OF ve] s4(1) by simp
  ultimately have "\<not> isspace (buf ! ?vs)" "\<not> isspace (buf ! (?ve - 1))"
    using t by (auto simp: header_text_ok_def)
  moreover have "all_in isspace buf (Suc ?colon) ?vs" "all_in isspace buf ?ve stop"
    using t s3(1,3) s4(2,3) b(2) by (simp_all add: header_text_ok_def list_all_iff all_in_slice)
  moreover have "all_in (\<lambda>c. c \<noteq> CHR '':'' \<and> c \<noteq> NUL) buf start ?colon"
      "all_in (\<lambda>c. \<not> isspace c) buf start ?colon"
    using t s1(1,3) b(2) by (simp_all add: header_text_ok_def list_all_iff all_in_slice)
  ultimately have "header_line_at buf start ?colon ?vs ?ve stop"
    using s2(2) s4(3) ve(1) by (simp add: header_line_at_def)
  then show ?thesis using s1(1) s4(1) by blast
qed

section \<open>The header block\<close>

lemma headers_text_nonempty: "headers_text hs \<noteq> []"
  by (cases hs) auto

lemma line_of_nonempty: "line_of h \<noteq> []"
  by (simp add: line_of_def)

lemma parse_headers_sound:
  assumes t: "terminated buf len"
  shows "start \<le> len \<Longrightarrow> parse_headers buf len d start = Ret (HTTP_ERROR_CODE_SUCCEED, d1) \<Longrightarrow>
    \<exists>hs d0. slice buf start len = headers_text hs \<and> list_all header_text_ok hs \<and>
      store_all d (map header_of hs) = (HTTP_ERROR_CODE_SUCCEED, d0) \<and>
      d1 = d0\<lparr>req_state := HTTP_REQUEST_STATE_PARSED\<rparr>"
proof (induction "len - start" arbitrary: d start rule: less_induct)
  case less
  have len: "len < length buf" using t by (simp add: terminated_def)
  then have "len \<le> length buf" by simp
  from range_line_spec [OF this, of start] show ?case
  proof (elim disjE exE conjE)
    assume "range_line buf len start = Ret None"
    with less.prems show ?thesis
      by (simp add: parse_headers.simps [of buf len d] trigger_incomplete_def)
  next
    fix stop assume r: "range_line buf len start = Ret (Some stop)" "start \<le> stop"
      "Suc stop < len" "buf ! stop = CR" "buf ! Suc stop = LF"
      and n: "\<forall>i. start \<le> i \<and> i < stop \<longrightarrow> \<not> crlf_at buf i"
    have crlf: "slice buf stop (stop + 2) = [CR, LF]" using r len by (simp add: slice_two)
    have rest_split: "slice buf stop len = [CR, LF] @ slice buf (stop + 2) len"
      using slice_split [of stop "stop + 2" len buf] crlf r by simp
    show ?thesis
    proof (cases "start = stop")
      case True
      with less.prems r have "stop + 2 = len" "d1 = d\<lparr>req_state := HTTP_REQUEST_STATE_PARSED\<rparr>"
        by (auto simp: parse_headers.simps [of buf len d] parse_body_def trigger_invalid_def
            split: if_splits)
      with True crlf show ?thesis by (intro exI [of _ "[]"]) auto
    next
      case False
      with less.prems r(1) obtain d' where
        line: "parse_header_line buf d start stop = Ret (HTTP_ERROR_CODE_SUCCEED, d')" and
        rest: "parse_headers buf len d' (stop + 2) = Ret (HTTP_ERROR_CODE_SUCCEED, d1)"
        by (auto simp: parse_headers.simps [of buf len d start] outcome_simps split: if_splits)
      obtain colon vs ve where h: "header_line_at buf start colon vs ve stop" and
        st: "store_header d \<lparr>hkey = slice buf start colon, hvalue = slice buf vs ve\<rparr> =
           (HTTP_ERROR_CODE_SUCCEED, d')"
        using parse_header_line_success [OF t r(2-4) line] by blast
      let ?h = "\<lparr>ht_key = slice buf start colon, ht_lead = slice buf (Suc colon) vs,
                 ht_value = slice buf vs ve, ht_trail = slice buf ve stop\<rparr>"
      have "Suc stop < length buf" using r len by simp
      note ht = header_line_at_text [OF h this r(4) n]
      have "len - (stop + 2) < len - start" "stop + 2 \<le> len" using r by linarith+
      from less.hyps [OF this rest] obtain hs d0 where hs:
        "slice buf (stop + 2) len = headers_text hs" "list_all header_text_ok hs"
        "store_all d' (map header_of hs) = (HTTP_ERROR_CODE_SUCCEED, d0)"
        "d1 = d0\<lparr>req_state := HTTP_REQUEST_STATE_PARSED\<rparr>" by blast
      have "slice buf start len = slice buf start stop @ slice buf stop len"
        using r by (intro slice_split) auto
      then have "slice buf start len = headers_text (?h # hs)"
        using ht rest_split hs(1) by simp
      moreover have "store_all d (map header_of (?h # hs)) = (HTTP_ERROR_CODE_SUCCEED, d0)"
        using st hs(3) by (simp add: header_of_def)
      ultimately show ?thesis
        using ht hs(2,4) by (intro exI [of _ "?h # hs"] exI [of _ d0]) simp
    qed
  qed
qed

lemma parse_headers_complete:
  assumes len: "len \<le> length buf"
  shows "start \<le> len \<Longrightarrow> slice buf start len = headers_text hs \<Longrightarrow> list_all header_text_ok hs \<Longrightarrow>
    store_all d (map header_of hs) = (HTTP_ERROR_CODE_SUCCEED, d0) \<Longrightarrow>
    parse_headers buf len d start =
      Ret (HTTP_ERROR_CODE_SUCCEED, d0\<lparr>req_state := HTTP_REQUEST_STATE_PARSED\<rparr>)"
proof (induction hs arbitrary: d start)
  case Nil
  have l: "len \<le> length buf" using len by simp
  from Nil have "slice buf start len = CR # LF # []" by simp
  note a = slice_eq_Cons [OF this l]
  note b = slice_eq_Cons [OF a(3) l]
  have "len = start + 2"
    using arg_cong [OF b(3), of length] b(1) l by (simp add: length_slice)
  moreover have "range_line buf len start = Ret (Some start)"
    using a b calculation l by (intro range_line_eqI) auto
  ultimately show ?case
    using Nil.prems(4) by (simp add: parse_headers.simps [of buf _ d0] parse_body_def)
next
  case (Cons h hs)
  have l: "len \<le> length buf" using len by simp
  let ?stop = "start + length (line_of h)"
  have "slice buf start len = line_of h @ CR # LF # headers_text hs" using Cons.prems(2) by simp
  note s = slice_eq_append [OF this Cons.prems(1) l]
  note a = slice_eq_Cons [OF s(2) l]
  note b = slice_eq_Cons [OF a(3) l]
  have ok: "header_text_ok h" using Cons.prems(3) by simp
  have stop: "Suc ?stop < len" "?stop \<le> length buf" "start \<le> ?stop" using b(1) l by auto
  have "no_crlf (slice buf start ?stop)" using ok s(1) by (simp add: header_text_ok_def)
  then have "\<forall>i. start \<le> i \<and> i < ?stop \<longrightarrow> \<not> crlf_at buf i"
    using no_crlf_slice [of ?stop buf start] stop l a(2) by auto
  then have r: "range_line buf len start = Ret (Some ?stop)"
    using stop l a b by (intro range_line_eqI) auto
  obtain colon vs ve where at: "header_line_at buf start colon vs ve ?stop"
      "slice buf start colon = ht_key h" "slice buf vs ve = ht_value h"
    using text_header_line_at [OF ok s(1) stop(3,2)] by blast
  from Cons.prems(4) obtain d' where
    st: "store_header d (header_of h) = (HTTP_ERROR_CODE_SUCCEED, d')" and
    rest: "store_all d' (map header_of hs) = (HTTP_ERROR_CODE_SUCCEED, d0)"
    by (auto simp: Let_def split: prod.splits if_splits)
  have line: "parse_header_line buf d start ?stop = Ret (HTTP_ERROR_CODE_SUCCEED, d')"
    using parse_header_line_eqI [OF at(1) stop(2)] st at(2,3) by (simp add: header_of_def)
  have "parse_headers buf len d' (?stop + 2) =
      Ret (HTTP_ERROR_CODE_SUCCEED, d0\<lparr>req_state := HTTP_REQUEST_STATE_PARSED\<rparr>)"
    using Cons.IH [OF _ _ _ rest] b stop Cons.prems(3) by simp
  then show ?case
    using r line line_of_nonempty [of h] by (simp add: parse_headers.simps [of buf len d start])
qed

section \<open>The whole request\<close>

lemma parse_version_sound:
  assumes t: "terminated buf len" and e: "end0 < len" "isspace (buf ! end0)"
    and ok: "parse_version buf len d end0 = Ret (HTTP_ERROR_CODE_SUCCEED, d1)"
  shows "\<exists>sep version hs d0. sep_ok sep \<and> token_ok version \<and>
    slice buf end0 len = sep @ version @ [CR, LF] @ headers_text hs \<and> list_all header_text_ok hs \<and>
    store_all (d\<lparr>start_line := (start_line d)
        \<lparr>sl_http_version_length := length version, sl_http_version := Live version\<rparr>\<rparr>)
      (map header_of hs) = (HTTP_ERROR_CODE_SUCCEED, d0) \<and>
    d1 = d0\<lparr>req_state := HTTP_REQUEST_STATE_PARSED\<rparr>"
proof -
  have len: "len < length buf" using t by (simp add: terminated_def)
  from ok obtain start where s: "skip_whitespaces buf len end0 = Ret (Some start)"
    by (auto simp: parse_version_def trigger_incomplete_def outcome_simps split: option.splits)
  then have start: "end0 \<le> start" "start \<le> len" "all_in isspace buf end0 start" "\<not> isspace (buf ! start)"
    using skip_whitespaces_spec [of end0 len buf] t e by auto
  then obtain stop where r: "range_non_blank buf len start = Ret stop" "start \<le> stop" "stop \<le> len"
      "all_in (\<lambda>c. \<not> isspace c) buf start stop"
    using range_non_blank_spec [of start len buf] len by auto
  from ok s r have c: "start \<noteq> stop" "stop + 1 < len" "buf ! stop = CR" "buf ! Suc stop = LF"
      and h: "parse_headers buf len (d\<lparr>start_line := (start_line d)
        \<lparr>sl_http_version_length := stop - start, sl_http_version := Live (slice buf start stop)\<rparr>\<rparr>)
        (stop + 2) = Ret (HTTP_ERROR_CODE_SUCCEED, d1)"
    by (auto simp: parse_version_def Let_def trigger_incomplete_def trigger_invalid_def
        outcome_simps split: if_splits)
  have "stop + 2 \<le> len" using c by simp
  from parse_headers_sound [OF t this h] obtain hs d0 where hs:
    "slice buf (stop + 2) len = headers_text hs" "list_all header_text_ok hs"
    "store_all (d\<lparr>start_line := (start_line d)
        \<lparr>sl_http_version_length := stop - start, sl_http_version := Live (slice buf start stop)\<rparr>\<rparr>)
      (map header_of hs) = (HTTP_ERROR_CODE_SUCCEED, d0)"
    "d1 = d0\<lparr>req_state := HTTP_REQUEST_STATE_PARSED\<rparr>" by blast
  have "end0 \<noteq> start" using e(2) start(4) by auto
  then have sep: "sep_ok (slice buf end0 start)"
    using start len by (auto simp: sep_ok_def list_all_iff all_in_slice slice_Cons)
  have tok: "token_ok (slice buf start stop)"
    using r c len by (auto simp: token_ok_def list_all_iff all_in_slice slice_Cons)
  have "slice buf end0 len = slice buf end0 start @ slice buf start stop @ slice buf stop (stop + 2) @
      slice buf (stop + 2) len"
    using slice_split [of end0 start len buf] slice_split [of start stop len buf]
      slice_split [of stop "stop + 2" len buf] start r c by simp
  moreover have "slice buf stop (stop + 2) = [CR, LF]" using c len by (simp add: slice_two)
  moreover have "length (slice buf start stop) = stop - start" using r len by (simp add: length_slice)
  ultimately show ?thesis
    using sep tok hs by (intro exI [of _ "slice buf end0 start"] exI [of _ "slice buf start stop"]
        exI [of _ hs] exI [of _ d0]) simp
qed

lemma parse_version_complete:
  assumes l: "len \<le> length buf" and e: "end0 \<le> len"
    and g: "sep_ok sep" "token_ok version" "list_all header_text_ok hs"
      "slice buf end0 len = sep @ version @ [CR, LF] @ headers_text hs"
    and st: "store_all (d\<lparr>start_line := (start_line d)
        \<lparr>sl_http_version_length := length version, sl_http_version := Live version\<rparr>\<rparr>)
      (map header_of hs) = (HTTP_ERROR_CODE_SUCCEED, d0)"
  shows "parse_version buf len d end0 =
    Ret (HTTP_ERROR_CODE_SUCCEED, d0\<lparr>req_state := HTTP_REQUEST_STATE_PARSED\<rparr>)"
proof -
  let ?start = "end0 + length sep"
  let ?stop = "?start + length version"
  note s1 = slice_eq_append [OF g(4) e l]
  note s2 = slice_eq_append [OF s1(2) s1(3) l]
  have "slice buf ?stop len = CR # LF # headers_text hs" using s2(2) by simp
  note a = slice_eq_Cons [OF this l]
  note b = slice_eq_Cons [OF a(3) l]
  have v: "?start < ?stop" using g(2) by (simp add: token_ok_def)
  have blank: "all_in (\<lambda>c. \<not> isspace c) buf ?start ?stop"
    using g(2) s2(1,3) l by (simp add: token_ok_def list_all_iff all_in_slice)
  have "all_in isspace buf end0 ?start"
    using g(1) s1(1,3) l by (simp add: sep_ok_def list_all_iff all_in_slice)
  moreover have "\<not> isspace (buf ! ?start)" using blank v by (simp add: all_in_def)
  ultimately have "skip_whitespaces buf len end0 = Ret (Some ?start)"
    using v a(1) by (intro skip_whitespaces_eqI [OF l]) auto
  moreover have "range_non_blank buf len ?start = Ret ?stop"
    using blank a v l by (intro range_non_blank_eqI) auto
  moreover have "slice buf (?stop + 2) len = headers_text hs" "?stop + 2 \<le> len"
    using b by simp_all
  then have "parse_headers buf len (d\<lparr>start_line := (start_line d)
        \<lparr>sl_http_version_length := length version, sl_http_version := Live version\<rparr>\<rparr>) (?stop + 2) =
      Ret (HTTP_ERROR_CODE_SUCCEED, d0\<lparr>req_state := HTTP_REQUEST_STATE_PARSED\<rparr>)"
    using parse_headers_complete [OF l _ _ g(3) st] by blast
  ultimately show ?thesis
    using v a b s2(1) l by (simp add: parse_version_def Let_def)
qed

text \<open>The denotation of the header block after a given start line.\<close>

lemma store_all_fresh:
  assumes "list_all header_text_ok hs" "req_headers d = []" "building d"
  shows "store_all d (map header_of hs) = (HTTP_ERROR_CODE_SUCCEED, d0) \<longleftrightarrow>
    distinct (map ht_key hs) \<and> d0 = d\<lparr>req_headers := sort_key hkey (map header_of hs)\<rparr>"
proof -
  have nul: "\<forall>h \<in> set (map header_of hs). NUL \<notin> set (hkey h)"
    using assms(1) by (auto simp: list_all_iff header_text_ok_def header_of_def)
  have keys: "map hkey (map header_of hs) = map ht_key hs"
    by (simp add: header_of_def)
  have "(\<exists>l. d0 = d\<lparr>req_headers := l\<rparr> \<and> headers_ok l \<and> set l = set (map header_of hs)) \<longleftrightarrow>
      d0 = d\<lparr>req_headers := sort_key hkey (map header_of hs)\<rparr>" if "distinct (map ht_key hs)"
  proof -
    have "headers_ok (sort_key hkey (map header_of hs))"
      using headers_ok_sort_key [OF nul, unfolded keys] that by blast
    then have "headers_ok l \<and> set l = set (map header_of hs) \<longleftrightarrow> l = sort_key hkey (map header_of hs)" for l
      using headers_ok_set_unique [of l "sort_key hkey (map header_of hs)"] by (metis set_sort)
    then show ?thesis by auto
  qed
  then show ?thesis
    unfolding store_all_success_iff [OF assms(3) nul] keys assms(2) by auto
qed

lemma set_all_fresh:
  "fresh_request\<lparr>start_line := start_line_of url version, req_headers := hs,
      req_state := HTTP_REQUEST_STATE_PARSED\<rparr> =
   \<lparr>req_state = HTTP_REQUEST_STATE_PARSED, start_line = start_line_of url version,
    req_headers = hs, req_body = empty_body\<rparr>"
  by (simp add: fresh_request_def)

lemma fresh_line:
  "(start_line fresh_request)\<lparr>sl_url_length := length u, sl_url := Live u,
     sl_http_version_length := length v, sl_http_version := Live v\<rparr> = start_line_of u v"
  by (simp add: fresh_request_def start_line_of_def)

lemma store_all_start_line:
  assumes "list_all header_text_ok hs"
  shows "store_all (fresh_request\<lparr>start_line := start_line_of u v\<rparr>) (map header_of hs) =
      (HTTP_ERROR_CODE_SUCCEED, d0) \<longleftrightarrow>
    distinct (map ht_key hs) \<and>
    d0 = fresh_request\<lparr>start_line := start_line_of u v, req_headers := sort_key hkey (map header_of hs)\<rparr>"
  by (subst store_all_fresh [OF assms])
    (simp_all add: building_def start_line_ok_def start_line_of_def fresh_request_def)

lemma parse_url_sound:
  assumes t: "terminated buf len" and e: "end0 \<le> len" "end0 < len \<longrightarrow> isspace (buf ! end0)"
    and ok: "parse_url buf len fresh_request end0 = Ret (HTTP_ERROR_CODE_SUCCEED, r)"
  shows "\<exists>sep url sep2 version hs. sep_ok sep \<and> token_ok url \<and> sep_ok sep2 \<and> token_ok version \<and>
    list_all header_text_ok hs \<and> distinct (map ht_key hs) \<and>
    slice buf end0 len = sep @ url @ sep2 @ version @ [CR, LF] @ headers_text hs \<and>
    r = fresh_request\<lparr>start_line := start_line_of url version,
          req_headers := sort_key hkey (map header_of hs), req_state := HTTP_REQUEST_STATE_PARSED\<rparr>"
proof -
  have l: "len \<le> length buf" using t by (simp add: terminated_def)
  from ok obtain start where s: "skip_whitespaces buf len end0 = Ret (Some start)"
    by (auto simp: parse_url_def trigger_incomplete_def outcome_simps split: option.splits)
  then have start: "end0 \<le> start" "start \<le> len" "start = len \<longrightarrow> end0 = len"
      "all_in isspace buf end0 start" "\<not> isspace (buf ! start)"
    using skip_whitespaces_spec [of end0 len buf] t e by auto
  then obtain stop where r: "range_non_blank buf len start = Ret stop" "start \<le> stop" "stop \<le> len"
      "all_in (\<lambda>c. \<not> isspace c) buf start stop" "stop < len \<longrightarrow> isspace (buf ! stop)"
    using range_non_blank_spec [of start len buf] l by auto
  let ?u = "slice buf start stop"
  have lu: "length ?u = stop - start" using r l by (simp add: length_slice)
  from ok s r have ne: "start \<noteq> stop"
      and v: "parse_version buf len (fresh_request\<lparr>start_line := (start_line fresh_request)
        \<lparr>sl_url_length := length ?u, sl_url := Live ?u\<rparr>\<rparr>) stop = Ret (HTTP_ERROR_CODE_SUCCEED, r)"
    using lu by (auto simp: parse_url_def trigger_incomplete_def split: if_splits)
  have stop: "stop < len"
  proof (rule ccontr)
    assume "\<not> stop < len"
    then have "skip_whitespaces buf len stop = Ret (Some stop)" "range_non_blank buf len stop = Ret stop"
      using t r(3) by (subst skip_whitespaces.simps range_non_blank.simps; simp add: terminated_def)+
    with v show False by (simp add: parse_version_def trigger_incomplete_def)
  qed
  from parse_version_sound [OF t stop _ v] r(5) stop obtain sep version hs d0 where g:
    "sep_ok sep" "token_ok version" "slice buf stop len = sep @ version @ [CR, LF] @ headers_text hs"
    "list_all header_text_ok hs"
    "store_all (fresh_request\<lparr>start_line := start_line_of ?u version\<rparr>) (map header_of hs) =
       (HTTP_ERROR_CODE_SUCCEED, d0)"
    "r = d0\<lparr>req_state := HTTP_REQUEST_STATE_PARSED\<rparr>"
    by (auto simp: fresh_line)
  have "end0 \<noteq> start" using e(2) start stop r ne by (metis le_neq_implies_less order_le_less_trans)
  then have "sep_ok (slice buf end0 start)"
    using start l by (auto simp: sep_ok_def list_all_iff all_in_slice slice_Cons)
  moreover have "token_ok ?u"
    using r ne l by (auto simp: token_ok_def list_all_iff all_in_slice slice_Cons)
  moreover have "slice buf end0 len = slice buf end0 start @ ?u @ slice buf stop len"
    using slice_split [of end0 start len buf] slice_split [of start stop len buf] start r by simp
  ultimately show ?thesis
    using g store_all_start_line [OF g(4)] by (metis append.assoc)
qed

text \<open>The main lemma, in its two directions.\<close>

lemma from_buffer_sound:
  assumes d: "request_ok d" and t: "terminated buf len"
    and ok: "http_request_from_buffer d buf len = Ret (HTTP_ERROR_CODE_SUCCEED, r)"
  shows "\<exists>g. request_text_ok g \<and> slice buf 0 len = request_text_of g \<and> r = request_of g"
proof -
  have l: "len \<le> length buf" using t by (simp add: terminated_def)
  then obtain m where m: "range_non_blank buf len 0 = Ret m" "m \<le> len"
      "all_in (\<lambda>c. \<not> isspace c) buf 0 m" "m < len \<longrightarrow> isspace (buf ! m)"
    using range_non_blank_spec [of 0 len buf] by auto
  with ok have get: "strncmp ''GET'' (slice buf 0 m) m = 0"
      and u: "parse_url buf len fresh_request m = Ret (HTTP_ERROR_CODE_SUCCEED, r)"
    by (auto simp: from_buffer_eq [OF d] split: if_splits)
  from parse_url_sound [OF t m(2,4) u] obtain sep url sep2 version hs where g:
    "sep_ok sep" "token_ok url" "sep_ok sep2" "token_ok version"
    "list_all header_text_ok hs" "distinct (map ht_key hs)"
    "slice buf m len = sep @ url @ sep2 @ version @ [CR, LF] @ headers_text hs"
    "r = fresh_request\<lparr>start_line := start_line_of url version,
       req_headers := sort_key hkey (map header_of hs), req_state := HTTP_REQUEST_STATE_PARSED\<rparr>"
    by blast
  let ?g = "\<lparr>rt_method = slice buf 0 m, rt_sep1 = sep, rt_url = url, rt_sep2 = sep2,
    rt_version = version, rt_headers = hs\<rparr>"
  have "method_ok (slice buf 0 m)"
    using m get l by (simp add: method_ok_def list_all_iff all_in_slice length_slice)
  with g have "request_text_ok ?g" by (simp add: request_text_ok_def)
  moreover have "slice buf 0 len = request_text_of ?g"
    using slice_split [of 0 m len buf] m g(7) by (simp add: request_text_of_def)
  moreover have "r = request_of ?g"
    using g(8) set_all_fresh by (simp add: request_of_def)
  ultimately show ?thesis by blast
qed

text \<open>Where the tokens of a text of the grammar are found.\<close>

lemma text_scans:
  assumes l: "len \<le> length buf" and g: "request_text_ok g" "slice buf 0 len = request_text_of g"
  defines "m \<equiv> length (rt_method g)"
  defines "start \<equiv> m + length (rt_sep1 g)"
  defines "stop \<equiv> start + length (rt_url g)"
  shows "range_non_blank buf len 0 = Ret m" "skip_whitespaces buf len m = Ret (Some start)"
    "range_non_blank buf len start = Ret stop"
    and "slice buf 0 m = rt_method g" "slice buf start stop = rt_url g"
      "slice buf stop len = rt_sep2 g @ rt_version g @ [CR, LF] @ headers_text (rt_headers g)"
    and "start < stop" "stop < len" "isspace (buf ! stop)"
proof -
  note ok = g(1) [unfolded request_text_ok_def]
  have l0: "0 \<le> len" by simp
  note s1 = slice_eq_append [OF g(2) [unfolded request_text_of_def] l0 l, simplified add_0]
  note s2 = slice_eq_append [OF s1(2) s1(3) l]
  note s3 = slice_eq_append [OF s2(2) s2(3) l]
  note s = s1 s2 s3
  have ne: "m < start" "start < stop"
    using ok by (auto simp: sep_ok_def token_ok_def start_def stop_def)
  have le: "m \<le> len" "start \<le> len" "stop \<le> len"
    using s1(3) s2(3) s3(3) by (simp_all add: m_def start_def stop_def)
  show sl: "slice buf 0 m = rt_method g" "slice buf start stop = rt_url g"
      "slice buf stop len = rt_sep2 g @ rt_version g @ [CR, LF] @ headers_text (rt_headers g)"
    using s1(1) s3(1,2) by (simp_all add: m_def start_def stop_def)
  have b1: "all_in (\<lambda>c. \<not> isspace c) buf 0 m"
    using ok sl(1) le l by (simp add: method_ok_def list_all_iff all_in_slice)
  have b2: "all_in isspace buf m start"
    using ok s2(1) le l by (simp add: sep_ok_def list_all_iff all_in_slice m_def start_def)
  have b3: "all_in (\<lambda>c. \<not> isspace c) buf start stop"
    using ok sl(2) le l by (simp add: token_ok_def list_all_iff all_in_slice)
  obtain c cs where c: "rt_sep2 g = c # cs" "isspace c"
    using ok by (cases "rt_sep2 g") (auto simp: sep_ok_def)
  show b4: "stop < len" "isspace (buf ! stop)"
    using slice_eq_Cons [of buf stop len c "cs @ rt_version g @ [CR, LF] @ headers_text (rt_headers g)"]
      sl(3) c l le by simp_all
  show "start < stop" by (rule ne)
  show "range_non_blank buf len 0 = Ret m"
    using b1 b2 ne le l by (intro range_non_blank_eqI) (auto simp: all_in_def)
  show "skip_whitespaces buf len m = Ret (Some start)"
    using b2 b3 ne le by (intro skip_whitespaces_eqI [OF l]) (auto simp: all_in_def)
  show "range_non_blank buf len start = Ret stop"
    using b3 b4 ne l by (intro range_non_blank_eqI) auto
qed

lemma from_buffer_complete:
  assumes d: "request_ok d" and l: "len \<le> length buf"
    and g: "request_text_ok g" "slice buf 0 len = request_text_of g"
  shows "http_request_from_buffer d buf len = Ret (HTTP_ERROR_CODE_SUCCEED, request_of g)"
proof -
  note ok = g(1) [unfolded request_text_ok_def]
  note s = text_scans [OF l g]
  let ?m = "length (rt_method g)"
  let ?stop = "?m + length (rt_sep1 g) + length (rt_url g)"
  let ?d1 = "fresh_request\<lparr>start_line := (start_line fresh_request)
      \<lparr>sl_url_length := length (rt_url g), sl_url := Live (rt_url g)\<rparr>\<rparr>"
  have "store_all (?d1\<lparr>start_line := (start_line ?d1)\<lparr>sl_http_version_length := length (rt_version g),
      sl_http_version := Live (rt_version g)\<rparr>\<rparr>) (map header_of (rt_headers g)) =
      (HTTP_ERROR_CODE_SUCCEED, fresh_request\<lparr>start_line := start_line_of (rt_url g) (rt_version g),
        req_headers := sort_key hkey (map header_of (rt_headers g))\<rparr>)"
    using store_all_start_line [of "rt_headers g" "rt_url g" "rt_version g"] ok by (simp add: fresh_line)
  from parse_version_complete [OF l _ _ _ _ s(6) this] ok s(8)
  have v: "parse_version buf len ?d1 ?stop = Ret (HTTP_ERROR_CODE_SUCCEED, request_of g)"
    using set_all_fresh by (simp add: request_of_def)
  then show ?thesis
    using ok s by (simp add: from_buffer_eq [OF d] parse_url_def method_ok_def)
qed

lemma from_buffer_accepts_iff:
  assumes d: "request_ok d" and t: "terminated buf len"
  shows "http_request_from_buffer d buf len = Ret (HTTP_ERROR_CODE_SUCCEED, r) \<longleftrightarrow>
    (\<exists>g. request_text_ok g \<and> slice buf 0 len = request_text_of g \<and> r = request_of g)"
  using from_buffer_sound [OF assms] from_buffer_complete [OF d less_imp_le [OF terminatedD(1) [OF t]]]
  by auto

end
