(* ===== verification/Parser_Extension.thy ===== *)
theory Parser_Extension
  imports Parser_Safety
begin

text \<open>
  A parse that stays inside a block gives the same result on any longer block: nothing after
  the last byte read matters. With the safety of terminated buffers this shows that a parse
  depends on the message alone.
\<close>

section \<open>The scanners\<close>

lemma rd_extend: "rd b i = Ret c \<Longrightarrow> rd (b @ e) i = Ret c"
  by (simp add: rd_Ret_iff nth_append)

lemma skip_whitespaces_extend:
  "skip_whitespaces b len i = Ret x \<Longrightarrow> skip_whitespaces (b @ e) len i = Ret x"
proof (induction b len i rule: skip_whitespaces.induct)
  case (1 b len i)
  obtain c where c: "rd b i = Ret c"
    using 1(2) by (auto simp: skip_whitespaces.simps [of b len i] outcome_simps)
  with 1 show ?case
    by (auto simp: skip_whitespaces.simps [of b len i] skip_whitespaces.simps [of "b @ e" len i]
        rd_extend split: if_splits)
qed

lemma range_non_blank_extend:
  "range_non_blank b len i = Ret x \<Longrightarrow>
     range_non_blank (b @ e) len i = Ret x \<and> i \<le> x \<and> (x = i \<or> x \<le> length b)"
proof (induction b len i rule: range_non_blank.induct)
  case (1 b len i)
  show ?case
  proof (cases "i < len")
    case True
    then obtain c where c: "rd b i = Ret c"
      using 1(2) by (auto simp: range_non_blank.simps [of b len i] outcome_simps)
    with 1 True show ?thesis
      by (auto simp: range_non_blank.simps [of b len i] range_non_blank.simps [of "b @ e" len i]
          rd_extend [OF c] rd_Ret_iff split: if_splits)
  next
    case False
    then have "range_non_blank b' len i = Ret i" for b' by (subst range_non_blank.simps) simp
    with 1(2) show ?thesis by simp
  qed
qed

lemma range_line_extend:
  "range_line b len i = Ret x \<Longrightarrow>
     range_line (b @ e) len i = Ret x \<and> (\<forall>s. x = Some s \<longrightarrow> i \<le> s \<and> s < length b)"
proof (induction b len i rule: range_line.induct)
  case (1 b len i)
  show ?case
  proof (cases "i + 1 < len")
    case True
    with 1(3) obtain c where c: "rd b i = Ret c"
      by (auto simp: range_line.simps [of b len i] outcome_simps)
    show ?thesis
    proof (cases "c = CR")
      case False
      with 1(1) 1(3) True c show ?thesis
        by (auto simp: range_line.simps [of b len i] range_line.simps [of "b @ e" len i] rd_extend [OF c])
    next
      case cr: True
      with 1(3) True c obtain d where d: "rd b (i + 1) = Ret d"
        by (auto simp: range_line.simps [of b len i] outcome_simps)
      from 1(2) 1(3) True c cr d show ?thesis
        by (auto simp: range_line.simps [of b len i] range_line.simps [of "b @ e" len i] rd_extend [OF c]
            rd_extend [OF d, unfolded Suc_eq_plus1 [symmetric]] rd_Ret_iff split: if_splits)
    qed
  qed (use 1(3) in \<open>simp add: range_line.simps [of b len i] range_line.simps [of "b @ e" len i]\<close>)
qed

lemma mem_strchr_extend:
  "mem_strchr b i c = Ret x \<Longrightarrow> mem_strchr (b @ e) i c = Ret x \<and> (\<forall>j. x = Some j \<longrightarrow> j < length b)"
proof (induction b i c rule: mem_strchr.induct)
  case (1 b i c)
  obtain d where d: "rd b i = Ret d"
    using 1(2) by (auto simp: mem_strchr.simps [of b i c] outcome_simps)
  with 1 show ?case
    by (auto simp: mem_strchr.simps [of b i c] mem_strchr.simps [of "b @ e" i c] rd_extend [OF d]
        rd_Ret_iff split: if_splits)
qed

lemma trim_left_extend:
  "trim_left b s t = Ret x \<Longrightarrow> trim_left (b @ e) s t = Ret x"
proof (induction b s t rule: trim_left.induct)
  case (1 b s t)
  show ?case
  proof (cases "s = t")
    case False
    then obtain c where c: "rd b s = Ret c"
      using 1(2) by (auto simp: trim_left.simps [of b s t] outcome_simps)
    with 1 False show ?thesis
      by (auto simp: trim_left.simps [of b s t] trim_left.simps [of "b @ e" s t] rd_extend [OF c]
          split: if_splits)
  next
    case True
    then have "trim_left b' s t = Ret s" for b' by (subst trim_left.simps) simp
    with 1(2) show ?thesis by simp
  qed
qed

lemma trim_right_extend:
  "trim_right b s t = Ret x \<Longrightarrow> trim_right (b @ e) s t = Ret x \<and> x \<le> t"
proof (induction t)
  case (Suc t)
  show ?case
  proof (cases "Suc t = s")
    case False
    then obtain c where c: "rd b t = Ret c" using Suc.prems by (auto simp: outcome_simps)
    with Suc False show ?thesis by (auto simp: rd_extend [OF c] split: if_splits)
  next
    case True
    then have "trim_right b' s (Suc t) = Ret (Suc t)" for b' by (subst trim_right.simps) simp
    from this [of b] this [of "b @ e"] Suc.prems show ?thesis by (simp del: trim_right.simps)
  qed
qed (auto split: if_splits)

section \<open>The stages\<close>

lemma slice_extend: "j \<le> length b \<Longrightarrow> slice (b @ e) i j = slice b i j"
  by (rule slice_append1)

lemma parse_header_line_extend:
  assumes "parse_header_line b d start stop = Ret x" "stop \<le> length b"
  shows "parse_header_line (b @ e) d start stop = Ret x"
proof -
  obtain colon_opt where m: "mem_strchr b start (CHR '':'') = Ret colon_opt"
    using assms(1) by (auto simp: parse_header_line_def outcome_simps)
  note m' = mem_strchr_extend [OF m, of e]
  show ?thesis
  proof (cases colon_opt)
    case None
    then show ?thesis using assms(1) m m' by (simp add: parse_header_line_def)
  next
    case (Some colon)
    then have sl: "slice (b @ e) start colon = slice b start colon"
      using m' by (intro slice_extend) simp
    show ?thesis
    proof (cases "list_ex isspace (slice b start colon)")
      case True
      then show ?thesis using assms(1) m m' Some sl by (simp add: parse_header_line_def)
    next
      case False
      then obtain vs ve where v: "trim_left b (colon + 1) stop = Ret vs" "trim_right b vs stop = Ret ve"
        using assms(1) m Some by (auto simp: parse_header_line_def outcome_simps)
      note v' = trim_left_extend [OF v(1), of e] trim_right_extend [OF v(2), of e]
      then have "slice (b @ e) vs ve = slice b vs ve"
        using assms(2) by (intro slice_extend) simp
      then show ?thesis using assms(1) m m' Some sl v v' False
        by (auto simp: parse_header_line_def split: if_splits)
    qed
  qed
qed

lemma parse_headers_extend:
  "parse_headers b len d start = Ret x \<Longrightarrow> parse_headers (b @ e) len d start = Ret x"
proof (induction b len d start rule: parse_headers.induct)
  case (1 b len d start)
  obtain line where l: "range_line b len start = Ret line"
    using 1(2) by (auto simp: parse_headers.simps [of b len d start] outcome_simps)
  note l' = range_line_extend [OF l, of e]
  show ?case
  proof (cases line)
    case None
    then show ?thesis
      using 1(2) l l' by (simp add: parse_headers.simps [of b len d start] parse_headers.simps [of "b @ e" len d start])
  next
    case (Some stop)
    show ?thesis
    proof (cases "start = stop")
      case True
      then have "parse_headers b' len d start = Ret (parse_body d len (stop + 2))"
        if "range_line b' len start = Ret (Some stop)" for b'
        using that by (subst parse_headers.simps) simp
      then show ?thesis using 1(2) l l' Some by simp
    next
      case False
      with 1(2) l Some obtain c d' where h: "parse_header_line b d start stop = Ret (c, d')"
        by (auto simp: parse_headers.simps [of b len d start] outcome_simps)
      have h': "parse_header_line (b @ e) d start stop = Ret (c, d')"
        using l' Some by (intro parse_header_line_extend [OF h]) simp
      show ?thesis
      proof (cases "c = HTTP_ERROR_CODE_SUCCEED")
        case True
        then have "parse_headers b len d' (stop + 2) = Ret x"
          using 1(2) l Some False h by (simp add: parse_headers.simps [of b len d start])
        then have "parse_headers (b @ e) len d' (stop + 2) = Ret x"
          using 1(1) [OF l Some False h refl] True by simp
        then show ?thesis
          using l' Some False h' True by (simp add: parse_headers.simps [of "b @ e" len d start])
      next
        case c: False
        then have "parse_headers b' len d start = Ret (c, d')"
          if "range_line b' len start = Ret (Some stop)" "parse_header_line b' d start stop = Ret (c, d')" for b'
          using that False by (subst parse_headers.simps) simp
        then show ?thesis using 1(2) l l' Some h h' by simp
      qed
    qed
  qed
qed

lemma parse_version_extend:
  assumes "parse_version b len d i = Ret x"
  shows "parse_version (b @ e) len d i = Ret x"
proof -
  obtain s where s: "skip_whitespaces b len i = Ret s"
    using assms(1) by (auto simp: parse_version_def outcome_simps)
  note s' = skip_whitespaces_extend [OF s, of e]
  show ?thesis
  proof (cases s)
    case None
    then show ?thesis using assms s s' by (simp add: parse_version_def)
  next
    case (Some start)
    then obtain stop where r: "range_non_blank b len start = Ret stop"
      using assms s by (auto simp: parse_version_def outcome_simps)
    note r' = range_non_blank_extend [OF r, of e]
    show ?thesis
    proof (cases "start = stop")
      case True
      then show ?thesis using assms s s' r r' Some by (simp add: parse_version_def)
    next
      case False
      then have sl: "slice (b @ e) start stop = slice b start stop"
        using r' by (intro slice_extend) simp
      let ?d = "d\<lparr>start_line := (start_line d)
          \<lparr>sl_http_version_length := stop - start, sl_http_version := Live (slice b start stop)\<rparr>\<rparr>"
      show ?thesis
      proof (cases "stop + 1 \<ge> len")
        case True
        then show ?thesis using assms s s' r r' Some False sl by (simp add: parse_version_def Let_def)
      next
        case l: False
        then obtain c where c: "rd b stop = Ret c"
          using assms s r Some False by (auto simp: parse_version_def Let_def outcome_simps)
        show ?thesis
        proof (cases "c = CR")
          case cr: False
          then show ?thesis using assms s s' r r' Some False l sl c rd_extend [OF c, of e]
            by (simp add: parse_version_def Let_def)
        next
          case cr: True
          then obtain c' where c': "rd b (Suc stop) = Ret c'"
            using assms s r Some False l c by (auto simp: parse_version_def Let_def outcome_simps)
          show ?thesis
          proof (cases "c' = LF")
            case lf: False
            then show ?thesis
              using assms s s' r r' Some False l sl c cr c' rd_extend [OF c, of e] rd_extend [OF c', of e]
              by (simp add: parse_version_def Let_def)
          next
            case lf: True
            then have "parse_headers b len ?d (stop + 2) = Ret x"
              using assms s r Some False l c cr c' by (simp add: parse_version_def Let_def)
            from parse_headers_extend [OF this, of e] show ?thesis
              using s' r' Some False l sl cr lf rd_extend [OF c, of e] rd_extend [OF c', of e]
              by (simp add: parse_version_def Let_def)
          qed
        qed
      qed
    qed
  qed
qed

lemma parse_url_extend:
  assumes "parse_url b len d i = Ret x"
  shows "parse_url (b @ e) len d i = Ret x"
proof -
  obtain s where s: "skip_whitespaces b len i = Ret s"
    using assms by (auto simp: parse_url_def outcome_simps)
  note s' = skip_whitespaces_extend [OF s, of e]
  show ?thesis
  proof (cases s)
    case None
    then show ?thesis using assms s s' by (simp add: parse_url_def)
  next
    case (Some start)
    then obtain stop where r: "range_non_blank b len start = Ret stop"
      using assms s by (auto simp: parse_url_def outcome_simps)
    note r' = range_non_blank_extend [OF r, of e]
    show ?thesis
    proof (cases "start = stop")
      case True
      then show ?thesis using assms s s' r r' Some by (simp add: parse_url_def)
    next
      case False
      then have sl: "slice (b @ e) start stop = slice b start stop"
        using r' by (intro slice_extend) simp
      let ?d = "d\<lparr>start_line := (start_line d)
          \<lparr>sl_url_length := stop - start, sl_url := Live (slice b start stop)\<rparr>\<rparr>"
      have "parse_version b len ?d stop = Ret x"
        using assms s r Some False by (simp add: parse_url_def)
      from parse_version_extend [OF this, of e] show ?thesis
        using s' r' Some False sl by (simp add: parse_url_def)
    qed
  qed
qed

section \<open>The parser\<close>

lemma from_buffer_extend:
  assumes d: "request_ok d" and r: "http_request_from_buffer d b len = Ret x"
  shows "http_request_from_buffer d (b @ e) len = Ret x"
proof -
  obtain m where m: "range_non_blank b len 0 = Ret m"
    using r by (auto simp: from_buffer_eq [OF d] outcome_simps)
  note m' = range_non_blank_extend [OF m, of e]
  have sl: "slice (b @ e) 0 m = slice b 0 m"
    using m' by (cases "m = 0") (auto simp: slice_empty intro: slice_extend)
  show ?thesis
  proof (cases "strncmp ''GET'' (slice b 0 m) m = 0")
    case True
    then have "parse_url b len fresh_request m = Ret x"
      using r m by (simp add: from_buffer_eq [OF d])
    from parse_url_extend [OF this, of e] show ?thesis
      using True m' sl by (simp add: from_buffer_eq [OF d])
  next
    case False
    then show ?thesis using r m m' sl by (simp add: from_buffer_eq [OF d])
  qed
qed

text \<open>What was in the object before does not matter.\<close>

lemma from_buffer_object:
  "request_ok d \<Longrightarrow> request_ok d' \<Longrightarrow> http_request_from_buffer d' b len = http_request_from_buffer d b len"
  by (simp add: from_buffer_eq)

text \<open>
  A parse of a block that returns does what the parse of the terminated message does, so it
  keeps the invariant.
\<close>

lemma from_buffer_returns_ok:
  assumes d: "request_ok d" and len: "len = length b" and r: "http_request_from_buffer d b len = Ret (c, r)"
  shows "request_ok r \<and> req_state r = state_for c \<and> c \<in> set parser_codes"
proof -
  have "terminated (b @ [NUL]) len" by (simp add: terminated_def len)
  from from_buffer_safe [OF d this] show ?thesis
    using from_buffer_extend [OF d r, of "[NUL]"] by auto
qed

text \<open>Two blocks that hold the same terminated message.\<close>

lemma from_buffer_same:
  assumes t: "terminated b len" "terminated b' len" and same: "slice b 0 len = slice b' 0 len"
    and d: "request_ok d" "request_ok d'"
  shows "http_request_from_buffer d' b' len = http_request_from_buffer d b len"
proof -
  have split: "(slice b 0 len @ [NUL]) @ drop (Suc len) b = b" if "terminated b len" for b
    using id_take_nth_drop [OF terminatedD(1) [OF that], symmetric] terminatedD(2) [OF that]
    by (simp add: slice_def)
  let ?m = "slice b 0 len @ [NUL]"
  have "terminated ?m len"
    using terminatedD [OF t(1)] by (simp add: terminated_def nth_append length_slice)
  then obtain x where "http_request_from_buffer d ?m len = Ret x"
    using from_buffer_safe [OF d(1)] by blast
  note e = from_buffer_extend [OF d(1) this]
  have "http_request_from_buffer d b len = Ret x"
    using e [of "drop (Suc len) b"] split [OF t(1)] by simp
  moreover have "http_request_from_buffer d b' len = Ret x"
    using e [of "drop (Suc len) b'"] split [OF t(2)] same by simp
  ultimately show ?thesis using from_buffer_object [OF d] by simp
qed

end
