(* ===== verification/Request_Properties.thy ===== *)
theory Request_Properties
  imports Parser_Grammar Parser_Extension
begin

text \<open>
  What the request component promises its callers: the properties of
  \<open>http_request_from_buffer\<close>, \<open>http_request_destroy\<close> and the queries, alone and one
  after the other, and the inputs on which the parser leaves its buffer.
\<close>

section \<open>The life of a request object\<close>

text \<open>What a caller may do with an initialized object: parse any buffer into it, destroy it.\<close>

datatype request_op = Op_Parse string nat | Op_Destroy

fun request_op_ok :: "request_op \<Rightarrow> bool" where
  "request_op_ok (Op_Parse buf len) = terminated buf len"
| "request_op_ok Op_Destroy = True"

fun run_request :: "request_op list \<Rightarrow> http_request \<Rightarrow> http_request outcome" where
  "run_request [] r = Ret r"
| "run_request (Op_Parse buf len # ops) r =
     bindO (http_request_from_buffer r buf len) (\<lambda>(_, r'). run_request ops r')"
| "run_request (Op_Destroy # ops) r =
     bindO (http_request_destroy r) (\<lambda>(_, r'). run_request ops r')"

lemma run_request_ok:
  "request_ok r \<Longrightarrow> list_all request_op_ok ops \<Longrightarrow> \<exists>r'. run_request ops r = Ret r' \<and> request_ok r'"
proof (induction ops arbitrary: r)
  case (Cons x ops)
  show ?case
  proof (cases x)
    case (Op_Parse buf len)
    then obtain c d where "http_request_from_buffer r buf len = Ret (c, d)" "request_ok d"
      using from_buffer_safe [of r buf len] Cons.prems by auto
    then show ?thesis using Cons Op_Parse by simp
  next
    case Op_Destroy
    then show ?thesis using Cons http_request_destroy_fresh [of r] by simp
  qed
qed simp

section \<open>Messages\<close>

abbreviation message :: "request_text \<Rightarrow> string" where
  "message g \<equiv> request_text_of g"

lemma terminated_append_NUL: "terminated (s @ [NUL]) (length s)"
  by (simp add: terminated_def)

lemma truncation_take:
  "k < length s \<Longrightarrow> truncation (s @ [NUL]) (length s) (take k s @ rest) k"
  by (simp add: truncation_def terminated_def nth_append min_def)

lemma from_buffer_message:
  assumes "request_ok d" "request_text_ok g"
  shows "http_request_from_buffer d (message g @ rest) (length (message g)) =
    Ret (HTTP_ERROR_CODE_SUCCEED, request_of g)"
  using assms by (intro from_buffer_complete) (simp_all add: slice_prefix)

lemma from_buffer_message_prefix:
  assumes "request_ok d" "request_text_ok g" "k < length (message g)"
  shows "\<exists>r. http_request_from_buffer d (take k (message g) @ [NUL]) k =
    Ret (HTTP_ERROR_CODE_INCOMPLETE_REQUEST, r) \<and> request_ok r"
proof -
  note t = truncation_take [OF assms(3), of "[NUL]"]
  have n: "terminated (take k (message g) @ [NUL]) k"
    using assms(3) terminated_append_NUL [of "take k (message g)"] by simp
  then have "waits (http_request_from_buffer d (take k (message g) @ [NUL]) k)"
    by (rule from_buffer_waits [OF assms(1,1) t _ from_buffer_message [OF assms(1,2)]])
  moreover obtain c r where "http_request_from_buffer d (take k (message g) @ [NUL]) k = Ret (c, r)"
      "request_ok r"
    using from_buffer_safe [OF assms(1), of "take k (message g) @ [NUL]" k] n by auto
  ultimately show ?thesis by auto
qed

text \<open>On a block of exactly the bytes received.\<close>

definition inside_token :: "request_text \<Rightarrow> nat \<Rightarrow> bool" where
  "inside_token g k \<longleftrightarrow> k \<le> length (rt_method g) \<or>
     (length (rt_method g @ rt_sep1 g) < k \<and> k \<le> length (rt_method g @ rt_sep1 g @ rt_url g))"

lemma from_buffer_exact_prefix:
  assumes d: "request_ok d" and g: "request_text_ok g" and k: "k < length (message g)"
  shows "if inside_token g k
    then http_request_from_buffer d (take k (message g)) k = Fault Out_Of_Bounds
    else \<exists>r. http_request_from_buffer d (take k (message g)) k =
           Ret (HTTP_ERROR_CODE_INCOMPLETE_REQUEST, r) \<and> request_ok r"
proof -
  let ?b = "message g @ [NUL]"
  have "truncation ?b (length (message g)) (take k (message g)) k"
    using truncation_take [OF k, of "[]"] by simp
  moreover have "length (message g) \<le> length ?b" "slice ?b 0 (length (message g)) = request_text_of g"
    by (simp_all add: slice_prefix)
  note s = text_scans [OF this(1) g this(2)]
  ultimately have *: "if inside_token g k
      then looks_past (take k (message g)) k (http_request_from_buffer d (take k (message g)) k)
      else waits (http_request_from_buffer d (take k (message g)) k)"
    using from_buffer_truncated [OF d d _ from_buffer_message [OF d g] s(1-3)]
    by (simp add: inside_token_def add.assoc)
  have len: "length (take k (message g)) = k" using k by simp
  show ?thesis
  proof (cases "inside_token g k")
    case True
    with * looks_past_exact [of "take k (message g)"] show ?thesis unfolding len by simp
  next
    case False
    with * have w: "waits (http_request_from_buffer d (take k (message g)) k)" by simp
    then obtain r where "http_request_from_buffer d (take k (message g)) k =
        Ret (HTTP_ERROR_CODE_INCOMPLETE_REQUEST, r)"
      by (cases "http_request_from_buffer d (take k (message g)) k") auto
    with False from_buffer_returns_ok [OF d len [symmetric]] show ?thesis by auto
  qed
qed

lemma parsed_request_of:
  assumes "request_text_ok g"
  shows "parsed (request_of g)" "request_url (request_of g) = rt_url g"
proof -
  have "http_request_from_buffer fresh_request (message g @ [NUL]) (length (message g)) =
      Ret (HTTP_ERROR_CODE_SUCCEED, request_of g)"
    using assms by (simp add: from_buffer_message)
  then show "parsed (request_of g)"
    using from_buffer_safe [OF _ terminated_append_NUL, of fresh_request "message g"]
    by (auto simp: parsed_def)
  show "request_url (request_of g) = rt_url g"
    by (simp add: request_of_def request_url_def start_line_of_def)
qed

lemma headers_get_in:
  "headers_ok hs \<Longrightarrow> h \<in> set hs \<Longrightarrow> headers_get hs (hkey h) = Some (hvalue h)"
  by (induction hs) auto

lemma request_header_of:
  assumes "request_text_ok g"
  shows "h \<in> set (rt_headers g) \<Longrightarrow> request_header (request_of g) (ht_key h) = Some (ht_value h)"
    and "name \<notin> ht_key ` set (rt_headers g) \<Longrightarrow> NUL \<notin> set name \<Longrightarrow>
      request_header (request_of g) name = None"
proof -
  have ok: "headers_ok (req_headers (request_of g))"
    using parsed_request_of(1) [OF assms] by (rule parsedD)
  have set: "set (req_headers (request_of g)) = header_of ` set (rt_headers g)"
    by (simp add: request_of_def)
  show "request_header (request_of g) (ht_key h) = Some (ht_value h)" if h: "h \<in> set (rt_headers g)"
  proof -
    have "NUL \<notin> set (ht_key h)"
      using assms h by (auto simp: request_text_ok_def list_all_iff header_text_ok_def)
    then show ?thesis
      using headers_get_in [OF ok, of "header_of h"] h set
      by (simp add: request_header_def cstr_id header_of_def)
  qed
  show "request_header (request_of g) name = None"
    if "name \<notin> ht_key ` set (rt_headers g)" "NUL \<notin> set name"
    using that set by (auto simp: request_header_def cstr_id headers_get_None_iff header_of_def)
qed

text \<open>A concrete message for the examples below.\<close>

definition sample :: request_text where
  "sample = \<lparr>rt_method = ''GET'', rt_sep1 = '' '', rt_url = ''/a.txt'', rt_sep2 = '' '',
     rt_version = ''HTTP/1.1'',
     rt_headers = [\<lparr>ht_key = ''Range'', ht_lead = '' '', ht_value = ''bytes=0-9'', ht_trail = []\<rparr>,
                   \<lparr>ht_key = ''Host'', ht_lead = '' '', ht_value = ''localhost'', ht_trail = '' ''\<rparr>]\<rparr>"

lemma sample_ok: "request_text_ok sample"
  by code_simp

lemma message_sample:
  "message sample = ''GET /a.txt HTTP/1.1'' @ [CR, LF] @ ''Range: bytes=0-9'' @ [CR, LF] @
     ''Host: localhost '' @ [CR, LF, CR, LF]"
  by code_simp

section \<open>Blocks without a terminator\<close>

lemma mem_strchr_overread:
  "i \<le> length buf \<Longrightarrow> all_in (\<lambda>d. d \<noteq> c \<and> d \<noteq> NUL) buf i (length buf) \<Longrightarrow>
     mem_strchr buf i c = Fault Out_Of_Bounds"
proof (induction "length buf - i" arbitrary: i)
  case 0
  then show ?case by (subst mem_strchr.simps) simp
next
  case (Suc n)
  then have i: "i < length buf" by simp
  then have "n = length buf - Suc i" "Suc i \<le> length buf" using Suc.hyps(2) by linarith+
  from Suc.hyps(1) [OF this] have "mem_strchr buf (Suc i) c = Fault Out_Of_Bounds"
    using Suc.prems(2) by (simp add: all_in_def)
  moreover have "buf ! i \<noteq> c" "buf ! i \<noteq> NUL"
    using all_in_D [OF Suc.prems(2), of i] i by auto
  ultimately show ?case using i by (subst mem_strchr.simps) simp
qed

lemma mem_strchr_terminated:
  assumes "i \<le> length s" "all_in (\<lambda>d. d \<noteq> c \<and> d \<noteq> NUL) (s @ [NUL]) i (length s)" "c \<noteq> NUL"
  shows "mem_strchr (s @ [NUL]) i c = Ret None"
proof -
  consider "mem_strchr (s @ [NUL]) i c = Ret None"
    | j where "i \<le> j" "j < length s" "(s @ [NUL]) ! j = c"
    using mem_strchr_spec [OF assms(1) terminated_append_NUL assms(3)] by auto
  then show ?thesis using assms(2) by cases (auto simp: all_in_def)
qed

text \<open>The start line \<open>GET / HTTP/1.1\<close>, followed by anything.\<close>

definition after_start_line :: http_request where
  "after_start_line = fresh_request\<lparr>start_line := start_line_of ''/'' ''HTTP/1.1''\<rparr>"

lemmas unroll =
  range_non_blank.simps [of _ _ 0] range_non_blank.simps [of _ _ "Suc _"]
  range_non_blank.simps [of _ _ "numeral _"] skip_whitespaces.simps [of _ _ "numeral _"]

lemma overread_start_line:
  assumes "request_ok d" and "16 < len"
  shows "http_request_from_buffer d (''GET / HTTP/1.1'' @ [CR, LF] @ rest) len =
    parse_headers (''GET / HTTP/1.1'' @ [CR, LF] @ rest) len after_start_line 16"
proof -
  define b where "b = ''GET / HTTP/1.1'' @ [CR, LF] @ rest"
  have scan: "range_non_blank b len 0 = Ret 3" "skip_whitespaces b len 3 = Ret (Some 4)"
    "range_non_blank b len 4 = Ret 5" "skip_whitespaces b len 5 = Ret (Some 6)"
    "range_non_blank b len 6 = Ret 14"
    using assms(2) unfolding b_def by (simp_all add: unroll isspace_def)
  have read: "slice b 0 3 = ''GET''" "slice b 4 5 = ''/''" "slice b 6 14 = ''HTTP/1.1''"
    "rd b 14 = Ret CR" "rd b 15 = Ret LF"
    by (simp_all add: b_def slice_def)
  have "strncmp ''GET'' ''GET'' 3 = 0" by (simp add: strncmp_eq_0_iff)
  moreover have line: "(start_line fresh_request)\<lparr>sl_url_length := Suc 0, sl_url := Live ''/'',
      sl_http_version_length := 8, sl_http_version := Live ''HTTP/1.1''\<rparr> =
      start_line_of ''/'' ''HTTP/1.1''"
    by (simp add: fresh_request_def start_line_of_def)
  ultimately have "http_request_from_buffer d b len = parse_headers b len after_start_line 16"
    using assms(2)
    by (simp add: from_buffer_eq [OF assms(1)] parse_url_def parse_version_def scan read
        after_start_line_def line)
  then show ?thesis by (simp add: b_def)
qed

lemma overread_headers:
  assumes "line \<noteq> []" and l: "list_all (\<lambda>c. c \<noteq> CHR '':'' \<and> c \<noteq> NUL \<and> c \<noteq> CR) line"
  defines "m \<equiv> ''GET / HTTP/1.1'' @ [CR, LF] @ line @ [CR, LF]"
  shows "parse_headers m (length m) d 16 = Fault Out_Of_Bounds"
    and "parse_headers (m @ [NUL]) (length m) d 16 = Ret (trigger_invalid d)"
proof -
  let ?stop = "16 + length line"
  have len: "length m = ?stop + 2" by (simp add: m_def)
  have nth: "m ! (16 + i) = (line @ [CR, LF]) ! i" for i
    by (simp add: m_def)
  have no: "all_in (\<lambda>c. c \<noteq> CHR '':'' \<and> c \<noteq> NUL) m 16 (length m)"
    unfolding all_in_def
  proof (intro allI impI)
    fix k assume k: "16 \<le> k \<and> k < length m"
    then have "m ! k = (line @ [CR, LF]) ! (k - 16)" using nth [of "k - 16"] by simp
    also have "\<dots> \<in> set (line @ [CR, LF])" using k len by (intro nth_mem) auto
    finally have "m ! k \<in> set line \<or> m ! k = CR \<or> m ! k = LF" by auto
    then show "m ! k \<noteq> CHR '':'' \<and> m ! k \<noteq> NUL"
    proof (elim disjE)
      assume "m ! k \<in> set line"
      with l show ?thesis unfolding list_all_iff by blast
    qed simp_all
  qed
  have "range_line b (length m) 16 = Ret (Some ?stop)" if "b = m \<or> b = m @ [NUL]" for b
  proof (rule range_line_eqI)
    have b: "b ! (16 + i) = (line @ [CR, LF]) ! i" if "i < length line + 2" for i
      using that \<open>b = m \<or> b = m @ [NUL]\<close> nth [of i] len by (auto simp: nth_append)
    show "crlf_at b ?stop"
      using b [of "length line"] b [of "Suc (length line)"] by (simp add: nth_append)
    show "\<forall>i. 16 \<le> i \<and> i < ?stop \<longrightarrow> \<not> crlf_at b i"
    proof (intro allI impI)
      fix i assume i: "16 \<le> i \<and> i < ?stop"
      then have "b ! i = line ! (i - 16)" "line ! (i - 16) \<in> set line"
        using b [of "i - 16"] by (auto simp: nth_append)
      then show "\<not> crlf_at b i" using l by (auto simp: list_all_iff)
    qed
    show "length m \<le> length b" using that by auto
  qed (simp_all add: len)
  note r = this [of m] this [of "m @ [NUL]"]
  have "mem_strchr m 16 (CHR '':'') = Fault Out_Of_Bounds"
    using no len by (intro mem_strchr_overread) simp_all
  moreover have "mem_strchr (m @ [NUL]) 16 (CHR '':'') = Ret None"
    using no len by (intro mem_strchr_terminated) (auto simp: all_in_def nth_append)
  ultimately show "parse_headers m (length m) d 16 = Fault Out_Of_Bounds"
    and "parse_headers (m @ [NUL]) (length m) d 16 = Ret (trigger_invalid d)"
    using r assms(1)
    by (subst parse_headers.simps, simp add: parse_header_line_def trigger_invalid_def)+
qed

section \<open>Properties\<close>

text \<open>
  C1. Memory safety of the request object over its whole life. After
  \<open>http_request_initialize\<close>, any sequence of parses of NUL-terminated buffers (whatever they
  hold, whatever the object held before) and destroys runs without undefined behaviour: no
  access outside a buffer, no double free. The object stays well formed, one more parse
  returns one of five codes with the state that belongs to it, and destroying the object
  at the end releases what it owns and leaves it as initialized.
\<close>

theorem request_lifecycle_safe:
  assumes "list_all request_op_ok ops" and "terminated buf len"
  shows "\<exists>r. run_request ops (snd (http_request_initialize r0)) = Ret r \<and> request_ok r \<and>
    (\<exists>c r'. http_request_from_buffer r buf len = Ret (c, r') \<and> request_ok r' \<and>
       c \<in> set parser_codes \<and> req_state r' = state_for c) \<and>
    http_request_destroy r =
      Ret (HTTP_ERROR_CODE_SUCCEED, snd (http_request_initialize r0))"
proof -
  obtain r where r: "run_request ops (snd (http_request_initialize r0)) = Ret r" "request_ok r"
    using run_request_ok [OF http_request_initialize_ok assms(1)] by blast
  show ?thesis
    using r from_buffer_safe [OF r(2) assms(2)] http_request_destroy_fresh [OF r(2)]
    by (auto simp: http_request_initialize_fresh)
qed

lemma request_lifecycle_safe_witness:
  "\<exists>r. run_request [Op_Parse (message sample @ [NUL]) (length (message sample)), Op_Destroy,
      Op_Parse (''POST /'' @ [NUL]) 6] (snd (http_request_initialize fresh_request)) = Ret r \<and>
    request_ok r"
  using request_lifecycle_safe
    [of "[Op_Parse (message sample @ [NUL]) (length (message sample)), Op_Destroy,
          Op_Parse (''POST /'' @ [NUL]) 6]" "[NUL]" 0 fresh_request]
  by (auto simp: terminated_def)

text \<open>
  C2. What the parser accepts, and what it makes of it. On a NUL-terminated buffer
  \<open>http_request_from_buffer\<close> returns success with the object \<open>r\<close> exactly if the message is
  a text of the grammar (method, URL and version tokens separated by white space, header
  lines with distinct keys and trimmed, non-empty values, an empty line and nothing after
  it), and then \<open>r\<close> is what the text denotes: its URL, its version and its headers,
  ordered by key.
\<close>

theorem parser_accepts_exactly_the_grammar:
  assumes "request_ok d" and "terminated buf len"
  shows "http_request_from_buffer d buf len = Ret (HTTP_ERROR_CODE_SUCCEED, r) \<longleftrightarrow>
    (\<exists>g. request_text_ok g \<and> slice buf 0 len = request_text_of g \<and> r = request_of g)"
  by (rule from_buffer_accepts_iff [OF assms])

lemma parser_accepts_exactly_the_grammar_witness:
  "http_request_from_buffer fresh_request (message sample @ [NUL]) (length (message sample)) =
     Ret (HTTP_ERROR_CODE_SUCCEED, request_of sample)"
proof -
  have "request_text_ok sample \<and>
      slice (message sample @ [NUL]) 0 (length (message sample)) = request_text_of sample"
    by (simp add: sample_ok slice_prefix)
  then show ?thesis
    using parser_accepts_exactly_the_grammar
      [OF fresh_request_simps(3) terminated_append_NUL, of "message sample" "request_of sample"] by blast
qed

text \<open>
  C9. Reading a request piece by piece. Let what will be received be a well-formed message, and let
  what has arrived so far be a proper prefix of it. In a terminated buffer the parse reports an
  incomplete request, never another error and never a fault, whatever well-formed object it is
  given. In a block of exactly the bytes received, which is what \<open>handle_connection\<close> passes, the
  same holds unless the prefix ends inside the method or the URL: there the parser reads the
  byte behind the block. So a sequence of parses of growing or any other prefixes into the same
  object is undefined exactly if one of them is cut inside these tokens; otherwise parsing once
  more when everything is there succeeds, whatever follows the message in its block.
\<close>

theorem parser_incremental:
  assumes "request_ok d" and "request_text_ok g" and "\<forall>k\<in>set ks. k < length (request_text_of g)"
  shows "(\<forall>k\<in>set ks. \<exists>r. http_request_from_buffer d (take k (request_text_of g) @ [NUL]) k =
      Ret (HTTP_ERROR_CODE_INCOMPLETE_REQUEST, r)) \<and>
    (\<forall>k\<in>set ks. if inside_token g k
       then http_request_from_buffer d (take k (request_text_of g)) k = Fault Out_Of_Bounds
       else \<exists>r. http_request_from_buffer d (take k (request_text_of g)) k =
         Ret (HTTP_ERROR_CODE_INCOMPLETE_REQUEST, r)) \<and>
    (if \<exists>k\<in>set ks. inside_token g k
     then run_request (map (\<lambda>k. Op_Parse (take k (request_text_of g)) k) ks) d = Fault Out_Of_Bounds
     else \<exists>r. run_request (map (\<lambda>k. Op_Parse (take k (request_text_of g)) k) ks) d = Ret r \<and>
       http_request_from_buffer r (request_text_of g @ rest) (length (request_text_of g)) =
         Ret (HTTP_ERROR_CODE_SUCCEED, request_of g))"
proof (intro conjI ballI)
  fix k assume "k \<in> set ks"
  then have k: "k < length (request_text_of g)" using assms(3) by simp
  show "\<exists>r. http_request_from_buffer d (take k (request_text_of g) @ [NUL]) k =
      Ret (HTTP_ERROR_CODE_INCOMPLETE_REQUEST, r)"
    using from_buffer_message_prefix [OF assms(1,2) k] by blast
  show "if inside_token g k
    then http_request_from_buffer d (take k (request_text_of g)) k = Fault Out_Of_Bounds
    else \<exists>r. http_request_from_buffer d (take k (request_text_of g)) k = Ret (HTTP_ERROR_CODE_INCOMPLETE_REQUEST, r)"
    using from_buffer_exact_prefix [OF assms(1,2) k] by (auto split: if_splits)
next
  from assms show "if \<exists>k\<in>set ks. inside_token g k
     then run_request (map (\<lambda>k. Op_Parse (take k (request_text_of g)) k) ks) d = Fault Out_Of_Bounds
     else \<exists>r. run_request (map (\<lambda>k. Op_Parse (take k (request_text_of g)) k) ks) d = Ret r \<and>
       http_request_from_buffer r (request_text_of g @ rest) (length (request_text_of g)) =
         Ret (HTTP_ERROR_CODE_SUCCEED, request_of g)"
  proof (induction ks arbitrary: d)
    case Nil
    then show ?case using from_buffer_message [OF Nil(1,2)] by simp
  next
    case (Cons k ks)
    have k: "k < length (request_text_of g)" using Cons.prems(3) by simp
    show ?case
    proof (cases "inside_token g k")
      case True
      then show ?thesis using from_buffer_exact_prefix [OF Cons.prems(1,2) k] by simp
    next
      case False
      then obtain r where "http_request_from_buffer d (take k (request_text_of g)) k =
          Ret (HTTP_ERROR_CODE_INCOMPLETE_REQUEST, r)" "request_ok r"
        using from_buffer_exact_prefix [OF Cons.prems(1,2) k] by auto
      then show ?thesis using Cons.IH [of r] Cons.prems False by simp
    qed
  qed
qed

lemma parser_incremental_witness:
  "(\<exists>r. run_request [Op_Parse (take 25 (message sample)) 25, Op_Parse (take 40 (message sample)) 40] fresh_request = Ret r \<and>
     http_request_from_buffer r (message sample) (length (message sample)) =
       Ret (HTTP_ERROR_CODE_SUCCEED, request_of sample)) \<and>
   http_request_from_buffer fresh_request (take 8 (message sample)) 8 = Fault Out_Of_Bounds"
proof -
  have k: "\<forall>k\<in>set [25, 40]. k < length (message sample)" "\<forall>k\<in>set [8]. k < length (message sample)"
    by (simp_all add: message_sample)
  have t: "\<not> inside_token sample 25" "\<not> inside_token sample 40" "inside_token sample 8"
    by (simp_all add: inside_token_def sample_def)
  show ?thesis
    using parser_incremental [OF fresh_request_simps(3) sample_ok k(1), of "[]"]
      parser_incremental [OF fresh_request_simps(3) sample_ok k(2), of "[]"] t
    by (simp del: run_request.simps)
qed

text \<open>
  C10. Nothing but the message matters. Two NUL-terminated buffers with the same first \<open>len\<close>
  bytes give the same return code and the same object, whatever follows the terminator
  and whatever the two objects held before: neither old requests nor stale buffer content
  leak into a parse.
\<close>

theorem parser_sees_only_the_message:
  assumes "terminated buf len" "terminated buf' len" "slice buf 0 len = slice buf' 0 len"
    and "request_ok d" "request_ok d'"
  shows "http_request_from_buffer d' buf' len = http_request_from_buffer d buf len"
  by (rule from_buffer_same [OF assms])

lemma parser_sees_only_the_message_witness:
  "http_request_from_buffer (request_of sample) (''GET /x'' @ [NUL] @ ''y HTTP/1.1'') 6 =
   http_request_from_buffer fresh_request (''GET /x'' @ [NUL]) 6"
  using parser_sees_only_the_message
    [of "''GET /x'' @ [NUL]" 6 "''GET /x'' @ [NUL] @ ''y HTTP/1.1''" fresh_request "request_of sample"]
    parsed_request_of(1) [OF sample_ok]
  by (simp add: terminated_def slice_def parsed_def)

text \<open>
  C19. From the wire to the caller's URL. After a message of the grammar was parsed, asking
  \<open>http_request_get_url\<close> for the space, allocating that much and asking again (whatever
  the fresh block holds) gives a terminated copy of the URL of the message and its length,
  within the block.
\<close>

theorem parsed_url_query:
  assumes "request_ok d" "request_text_ok g" and "\<And>n. length (junk n) = n"
    and "http_request_from_buffer d (request_text_of g @ [NUL]) (length (request_text_of g)) = Ret (c, r)"
  shows "\<exists>b. query_then_fill junk http_request_get_url r =
      Ret ((HTTP_ERROR_CODE_SUCCEED, Some b, length (rt_url g)), r) \<and>
    length b = length (rt_url g) + 1 \<and> NUL \<in> set b \<and> cstr b = cstr (rt_url g)"
proof -
  have r: "r = request_of g"
    using from_buffer_message [OF assms(1,2)] assms(4) by simp
  obtain rest where "query_then_fill junk http_request_get_url r =
      Ret ((HTTP_ERROR_CODE_SUCCEED, Some ((cstr (rt_url g) @ [NUL]) @ rest), length (rt_url g)), r)"
      "length ((cstr (rt_url g) @ [NUL]) @ rest) = length (rt_url g) + 1"
    using url_getter.query_then_fill [OF parsed_request_of(1) [OF assms(2)] assms(3)]
      parsed_request_of(2) [OF assms(2)] r by auto
  moreover have "cstr ((cstr s @ [NUL]) @ rest) = cstr s" for s
    by (induction s) (auto simp: cstr_def)
  ultimately show ?thesis by auto
qed

lemma parsed_url_query_witness:
  "\<exists>b. query_then_fill (\<lambda>n. replicate n (CHR ''?'')) http_request_get_url (request_of sample) =
      Ret ((HTTP_ERROR_CODE_SUCCEED, Some b, 6), request_of sample) \<and> cstr b = ''/a.txt''"
  using parsed_url_query [OF fresh_request_simps(3) sample_ok _ from_buffer_message
      [OF fresh_request_simps(3) sample_ok], of "\<lambda>n. replicate n (CHR ''?'')"]
  by (auto simp: sample_def)

text \<open>
  C20. From the wire to a header value. After a message of the grammar was parsed,
  \<open>http_request_get_header\<close> answers for every header line of the message, in whatever order
  they came, with exactly its value (up to a NUL byte in it) and the terminator, in a block
  of exactly the size it asked for; and for every other name it reports that there is no such
  header and touches nothing.
\<close>

theorem parsed_header_query:
  assumes "request_ok d" "request_text_ok g" and "\<And>n. length (junk n) = n"
    and "http_request_from_buffer d (request_text_of g @ [NUL]) (length (request_text_of g)) = Ret (c, r)"
  shows "(\<forall>h \<in> set (rt_headers g). query_then_fill junk http_request_get_header (r, ht_key h) =
      Ret ((HTTP_ERROR_CODE_SUCCEED, Some (cstr (ht_value h) @ [NUL]), length (cstr (ht_value h))),
           (r, ht_key h))) \<and>
    (\<forall>name buf len. name \<notin> ht_key ` set (rt_headers g) \<and> NUL \<notin> set name \<longrightarrow>
      http_request_get_header (r, name) buf len =
        Ret ((HTTP_ERROR_CODE_NO_SUCH_HEADER, buf, len), (r, name)))"
proof (intro conjI ballI allI impI)
  have r: "r = request_of g"
    using from_buffer_message [OF assms(1,2)] assms(4) by simp
  note p = parsed_request_of(1) [OF assms(2)]
  show "query_then_fill junk http_request_get_header (r, ht_key h) =
      Ret ((HTTP_ERROR_CODE_SUCCEED, Some (cstr (ht_value h) @ [NUL]), length (cstr (ht_value h))),
           (r, ht_key h))" if "h \<in> set (rt_headers g)" for h
  proof -
    have v: "request_header r (ht_key h) = Some (ht_value h)"
      using request_header_of(1) [OF assms(2) that] r by simp
    then have "has_header (r, ht_key h)" "header_value (r, ht_key h) = ht_value h"
      using p r by (simp_all add: has_header_def header_value_def)
    then show ?thesis
      using header_getter.query_then_fill [of "(r, ht_key h)" junk, OF _ assms(3)]
      by (auto simp: strlen_cstr)
  qed
  show "http_request_get_header (r, name) buf len =
      Ret ((HTTP_ERROR_CODE_NO_SUCH_HEADER, buf, len), (r, name))"
    if "name \<notin> ht_key ` set (rt_headers g) \<and> NUL \<notin> set name" for name buf len
    using http_request_get_header_missing [OF p] request_header_of(2) [OF assms(2)] that r by simp
qed

lemma parsed_header_query_witness:
  "query_then_fill (\<lambda>n. replicate n (CHR ''?'')) http_request_get_header (request_of sample, ''Host'') =
     Ret ((HTTP_ERROR_CODE_SUCCEED, Some (''localhost'' @ [NUL]), 9), (request_of sample, ''Host''))"
  using parsed_header_query [OF fresh_request_simps(3) sample_ok _ from_buffer_message
      [OF fresh_request_simps(3) sample_ok], of "\<lambda>n. replicate n (CHR ''?'')"]
  by (simp add: sample_def)

text \<open>
  C22. The parser accepts truncated methods. The comparison runs over the length of the method
  token, so a message that is accepted is also accepted, with the same result, when its method
  is cut down to any prefix, the empty one included: \<open>GE /x HTTP/1.1\<close> is a GET request.
\<close>

theorem truncated_method_accepted:
  assumes "request_ok d" "request_text_ok g" and "g' = g\<lparr>rt_method := take n (rt_method g)\<rparr>"
  shows "http_request_from_buffer d (request_text_of g' @ [NUL]) (length (request_text_of g')) =
    Ret (HTTP_ERROR_CODE_SUCCEED, request_of g)"
proof -
  have "strncmp ''GET'' (take n m) (length (take n m)) = 0" if "strncmp ''GET'' m (length m) = 0" for m
    using that unfolding strncmp_eq_0_iff
    by (simp add: cstr_take) (metis min.commute take_take)
  then have "request_text_ok g'"
    using assms(2,3) by (auto simp: request_text_ok_def method_ok_def list_all_iff dest: in_set_takeD)
  moreover have "request_of g' = request_of g" using assms(3) by (simp add: request_of_def)
  ultimately show ?thesis using from_buffer_message [OF assms(1), of g'] by simp
qed

lemma truncated_method_accepted_witness:
  "http_request_from_buffer fresh_request (''GE'' @ drop 3 (message sample) @ [NUL])
     (length (message sample) - 1) = Ret (HTTP_ERROR_CODE_SUCCEED, request_of sample)"
proof -
  let ?g = "sample\<lparr>rt_method := take 2 (rt_method sample)\<rparr>"
  have "message ?g @ [NUL] = ''GE'' @ drop 3 (message sample) @ [NUL]"
      "length (message ?g) = length (message sample) - 1"
    by (simp_all add: sample_def request_text_of_def)
  then show ?thesis using truncated_method_accepted [OF fresh_request_simps(3) sample_ok, of ?g 2] by simp
qed

text \<open>
  The parser reads past \<open>length\<close>. It needs a NUL after the message: on a block of exactly
  \<open>length\<close> bytes it leaves the block as soon as the message ends right after the method, or
  ends with a header line that has no colon (\<open>strchr\<close> knows nothing of \<open>length\<close>), although
  with a terminator such a line is just an invalid request.
\<close>

lemma parser_overreads_exact_blocks:
  assumes "request_ok d" and "line \<noteq> []"
    and "list_all (\<lambda>c. c \<noteq> CHR '':'' \<and> c \<noteq> NUL \<and> c \<noteq> CR) line"
    and "m = ''GET / HTTP/1.1'' @ [CR, LF] @ line @ [CR, LF]"
  shows "http_request_from_buffer d ''GET'' 3 = Fault Out_Of_Bounds \<and>
    http_request_from_buffer d m (length m) = Fault Out_Of_Bounds \<and>
    (\<exists>r. http_request_from_buffer d (m @ [NUL]) (length m) =
       Ret (HTTP_ERROR_CODE_PARSE_INVALID_REQUEST_SYNTAX, r))"
proof (intro conjI)
  show "http_request_from_buffer d ''GET'' 3 = Fault Out_Of_Bounds"
  proof -
    have "range_non_blank ''GET'' 3 0 = Ret 3" by (simp add: unroll isspace_def)
    moreover have "skip_whitespaces ''GET'' 3 3 = Fault Out_Of_Bounds"
      by (subst skip_whitespaces.simps) simp
    ultimately show ?thesis
      by (simp add: from_buffer_eq [OF assms(1)] parse_url_def slice_def strncmp_eq_0_iff)
  qed
  note h = overread_headers [OF assms(2,3), folded assms(4)]
  show "http_request_from_buffer d m (length m) = Fault Out_Of_Bounds"
    using h(1) [of after_start_line] overread_start_line [OF assms(1), of "length m" "line @ [CR, LF]"]
    by (simp add: assms(4))
  show "\<exists>r. http_request_from_buffer d (m @ [NUL]) (length m) =
      Ret (HTTP_ERROR_CODE_PARSE_INVALID_REQUEST_SYNTAX, r)"
    using h(2) [of after_start_line] overread_start_line [OF assms(1), of "length m" "line @ [CR, LF, NUL]"]
    by (simp add: assms(4) trigger_invalid_def)
qed

lemma parser_overreads_exact_blocks_witness:
  "http_request_from_buffer fresh_request (''GET / HTTP/1.1'' @ [CR, LF] @ ''Host'' @ [CR, LF]) 22 =
     Fault Out_Of_Bounds"
  using parser_overreads_exact_blocks [OF fresh_request_simps(3), of "''Host''"]
  by (simp add: eval_nat_numeral)

text \<open>
  A request cut inside a token makes the parser leave the buffer. On a block of exactly the
  bytes received so far (what \<open>handle_connection\<close> passes), a proper prefix of a well-formed
  message that ends inside or right after the method or the URL makes the parser read the byte
  after the block; every other proper prefix is reported incomplete.
\<close>

theorem cut_inside_token_overreads:
  assumes "request_ok d" and "request_text_ok g" and "k < length (request_text_of g)"
  shows "if inside_token g k
    then http_request_from_buffer d (take k (request_text_of g)) k = Fault Out_Of_Bounds
    else \<exists>r. http_request_from_buffer d (take k (request_text_of g)) k =
           Ret (HTTP_ERROR_CODE_INCOMPLETE_REQUEST, r)"
  using from_buffer_exact_prefix [OF assms] by (auto split: if_splits)

lemma cut_inside_token_overreads_witness:
  "http_request_from_buffer fresh_request ''GET /a.t'' 8 = Fault Out_Of_Bounds"
proof -
  have "8 < length (message sample)" "take 8 (message sample) = ''GET /a.t''"
    by (simp_all add: message_sample)
  moreover have "inside_token sample 8" by (simp add: inside_token_def sample_def)
  ultimately show ?thesis using cut_inside_token_overreads [OF fresh_request_simps(3) sample_ok, of 8] by simp
qed

end
