(* ===== verification/Response.thy ===== *)
theory Response
  imports Header_List Buffers
begin

text \<open>
  The response object of \<open>http.c\<close>: state, the setters, \<open>http_response_render\<close> and
  \<open>http_response_destroy\<close>. The contract of the setters on the header list is the locale
  \<open>canonical_store\<close> of \<open>Header_List\<close>, the calling convention of \<open>http_response_render\<close> the
  locale \<open>sized_getter\<close> of \<open>Buffers\<close>.
\<close>

section \<open>State\<close>

record state_line =
  st_code :: http_response_code
  st_description :: "cstring ptr"
  st_description_length :: nat

record http_response =
  state_line :: state_line
  res_headers :: headers
  res_body :: body

text \<open>\<open>http_response_initialize\<close> sets every field but the code.\<close>

definition http_response_initialize :: "http_response \<Rightarrow> http_error_code \<times> http_response" where
  "http_response_initialize r =
     (HTTP_ERROR_CODE_SUCCEED,
      \<lparr>state_line = \<lparr>st_code = st_code (state_line r), st_description = Null, st_description_length = 0\<rparr>,
       res_headers = [],
       res_body = \<lparr>body_data = Null, body_length = 0\<rparr>\<rparr>)"

section \<open>Setters\<close>

definition default_descriptions :: "cstring list" where
  "default_descriptions =
     [''OK'', ''No Content'', ''Partial Content'', ''Moved Permanently'', ''Bad Request'',
      ''Forbidden'', ''Not Found'', ''Internal Server Error'', ''Not Implemented'',
      ''HTTP Version Not Supported'']"

definition get_default_description :: "http_response_code \<Rightarrow> cstring option" where
  "get_default_description code =
     (if code \<ge> HTTP_RESPONSE_CODE_MAX \<or> code < 0 then None
      else Some (default_descriptions ! nat code))"

definition state_codes :: "cstring list" where
  "state_codes = [''200'', ''204'', ''206'', ''301'', ''400'', ''403'', ''404'', ''500'', ''501'', ''505'']"

definition get_representative_state_code :: "http_response_code \<Rightarrow> cstring" where
  "get_representative_state_code code =
     (if code \<ge> HTTP_RESPONSE_CODE_MAX \<or> code < 0 then show_03d code
      else state_codes ! nat code)"

text \<open>
  An old description is freed and its length cleared, but the pointer keeps its value;
  it is overwritten only when there is a new description.
\<close>

definition http_response_set_code ::
  "http_response \<Rightarrow> http_response_code \<Rightarrow> cstring option \<Rightarrow> (http_error_code \<times> http_response) outcome" where
  "http_response_set_code r code description =
     bindO (if st_description (state_line r) \<noteq> Null
            then bindO (c_free (st_description (state_line r))) (\<lambda>p.
                   Ret ((state_line r)\<lparr>st_description := p, st_description_length := 0\<rparr>))
            else Ret (state_line r)) (\<lambda>l.
       let description' =
             (case description of None \<Rightarrow> get_default_description code | Some d \<Rightarrow> Some d);
           l' = l\<lparr>st_code := code\<rparr>
       in case description' of
            None \<Rightarrow> Ret (HTTP_ERROR_CODE_SUCCEED, r\<lparr>state_line := l'\<rparr>)
          | Some d \<Rightarrow>
              Ret (HTTP_ERROR_CODE_SUCCEED,
                   r\<lparr>state_line := l'\<lparr>st_description_length := strlen d,
                                       st_description := Live (cstr d)\<rparr>\<rparr>))"

definition http_response_set_header ::
  "http_response \<Rightarrow> cstring \<Rightarrow> cstring \<Rightarrow> http_error_code \<times> http_response" where
  "http_response_set_header r key val =
     (HTTP_ERROR_CODE_SUCCEED, r\<lparr>res_headers := set_header (res_headers r) key val\<rparr>)"

text \<open>
  \<open>body\<close> is the block the argument points into; without a length it is scanned for its
  terminator.
\<close>

definition http_response_set_body ::
  "http_response \<Rightarrow> string \<Rightarrow> nat option \<Rightarrow> (http_error_code \<times> http_response) outcome" where
  "http_response_set_body r body len =
     bindO (destroy_body (res_body r)) (\<lambda>_.
     bindO (case len of
              None \<Rightarrow> if NUL \<in> set body then Ret (strlen body) else Fault Out_Of_Bounds
            | Some n \<Rightarrow> Ret n) (\<lambda>n.
     if n \<le> length body
     then bindO (sprintf_into 64 (show_lu n)) (\<lambda>buffer.
            Ret (http_response_set_header
                   (r\<lparr>res_body := \<lparr>body_data = Live (take n body), body_length = n\<rparr>\<rparr>)
                   ''Content-Length'' buffer))
     else Fault Out_Of_Bounds))"

section \<open>Rendering\<close>

definition HTTP_VERSION :: cstring where "HTTP_VERSION = ''HTTP/1.1''"
definition http_version_length :: nat where "http_version_length = strlen HTTP_VERSION"
definition state_code_length :: nat where "state_code_length = 3"

fun measure_headers :: "headers \<Rightarrow> nat" where
  "measure_headers [] = 0"
| "measure_headers (h # hs) = strlen (hkey h) + strlen (hvalue h) + 4 + measure_headers hs"

definition measure_response_size :: "http_response \<Rightarrow> nat" where
  "measure_response_size r =
     (if st_description_length (state_line r) \<noteq> 0
      then http_version_length + state_code_length + st_description_length (state_line r) + 4
      else http_version_length + state_code_length + 3)
     + measure_headers (res_headers r) + 2 + body_length (res_body r)"

text \<open>A destination pointer is the caller's block and the offset reached in it.\<close>

definition copy_and_advance :: "string \<times> nat \<Rightarrow> string \<Rightarrow> nat \<Rightarrow> (string \<times> nat) outcome" where
  "copy_and_advance dst src n =
     bindO (memcpy (fst dst) (snd dst) src n) (\<lambda>m. Ret (m, snd dst + n))"

fun render_headers :: "string \<times> nat \<Rightarrow> headers \<Rightarrow> (string \<times> nat) outcome" where
  "render_headers dst [] = Ret dst"
| "render_headers dst (h # hs) =
     bindO (copy_and_advance dst (hkey h) (strlen (hkey h))) (\<lambda>dst.
     bindO (copy_and_advance dst '': '' 2) (\<lambda>dst.
     bindO (copy_and_advance dst (hvalue h) (strlen (hvalue h))) (\<lambda>dst.
     bindO (copy_and_advance dst [CR, LF] 2) (\<lambda>dst.
     render_headers dst hs))))"

text \<open>
  The source of the last copy. \<open>memcpy\<close> of 0 bytes is taken to read nothing, from a null pointer
  too, which C17 leaves undefined: \<open>http_response_render_strict\<close> makes this a fault.
\<close>

definition body_source :: "body \<Rightarrow> string outcome" where
  "body_source b = (if body_length b = 0 then Ret [] else deref (body_data b))"

definition render_into :: "http_response \<Rightarrow> string \<times> nat \<Rightarrow> (string \<times> nat) outcome" where
  "render_into r dst =
     bindO (copy_and_advance dst HTTP_VERSION http_version_length) (\<lambda>dst.
     bindO (copy_and_advance dst '' '' 1) (\<lambda>dst.
     bindO (copy_and_advance dst (get_representative_state_code (st_code (state_line r))) 3) (\<lambda>dst.
     bindO (if st_description_length (state_line r) \<noteq> 0
            then bindO (copy_and_advance dst '' '' 1) (\<lambda>dst.
                 bindO (deref (st_description (state_line r))) (\<lambda>d.
                   copy_and_advance dst d (st_description_length (state_line r))))
            else Ret dst) (\<lambda>dst.
     bindO (copy_and_advance dst [CR, LF] 2) (\<lambda>dst.
     bindO (render_headers dst (res_headers r)) (\<lambda>dst.
     bindO (copy_and_advance dst [CR, LF] 2) (\<lambda>dst.
     bindO (body_source (res_body r)) (\<lambda>src.
       copy_and_advance dst src (body_length (res_body r))))))))))"

text \<open>The first statement of \<open>http_response_render\<close>, with its \<open>assert\<close>.\<close>

definition update_content_length :: "bool \<Rightarrow> http_response \<Rightarrow> http_response outcome" where
  "update_content_length ndebug r =
     (if body_length (res_body r) = 0
      then bindO (c_assert ndebug (body_data (res_body r) = Null)) (\<lambda>_.
             Ret (snd (http_response_set_header r ''Content-Length'' ''0'')))
      else Ret r)"

definition http_response_render :: "bool \<Rightarrow> http_response getter" where
  "http_response_render ndebug r buf len =
     bindO (update_content_length ndebug r) (\<lambda>r.
       let n = measure_response_size r
       in case buf of
            None \<Rightarrow> Ret ((HTTP_ERROR_CODE_SUCCEED, None, n), r)
          | Some b \<Rightarrow>
              if len < n
              then Ret ((HTTP_ERROR_CODE_INSUFFICIENT_BUFFER_SIZE, Some b, n), r)
              else bindO (render_into r (b, 0)) (\<lambda>(b', _).
                     Ret ((HTTP_ERROR_CODE_SUCCEED, Some b', n), r)))"

definition http_response_destroy :: "http_response \<Rightarrow> (http_error_code \<times> http_response) outcome" where
  "http_response_destroy r =
     bindO (c_free (st_description (state_line r))) (\<lambda>_.
     bindO (destroy_body (res_body r)) (\<lambda>b.
       Ret (http_response_initialize
              (r\<lparr>res_headers := destroy_headers (res_headers r), res_body := b\<rparr>))))"

section \<open>Invariant\<close>

definition state_line_ok :: "state_line \<Rightarrow> bool" where
  "state_line_ok l \<longleftrightarrow>
     (st_description l = Null \<and> st_description_length l = 0) \<or>
     (\<exists>d. st_description l = Live d \<and> NUL \<notin> set d \<and> st_description_length l = length d)"

definition response_ok :: "http_response \<Rightarrow> bool" where
  "response_ok r \<longleftrightarrow> state_line_ok (state_line r) \<and> headers_ok (res_headers r) \<and> body_ok (res_body r)"

lemma http_response_initialize_ok: "response_ok (snd (http_response_initialize r))"
  by (simp add: http_response_initialize_def response_ok_def state_line_ok_def body_ok_def)

lemma http_response_set_header_ok:
  "response_ok r \<Longrightarrow> response_ok (snd (http_response_set_header r k v))"
  using set_header_ok_get [of "res_headers r" k v]
  by (simp add: http_response_set_header_def response_ok_def)

text \<open>A description is given, or the code is one of the enumerators.\<close>

definition describable :: "http_response_code \<Rightarrow> cstring option \<Rightarrow> bool" where
  "describable code description \<longleftrightarrow> description \<noteq> None \<or> mapped_code code"

definition description_for :: "http_response_code \<Rightarrow> cstring option \<Rightarrow> cstring" where
  "description_for code description =
     (case description of None \<Rightarrow> default_descriptions ! nat code | Some d \<Rightarrow> cstr d)"

lemma default_descriptions_cstr:
  "mapped_code code \<Longrightarrow> cstr (default_descriptions ! nat code) = default_descriptions ! nat code"
proof -
  have all: "list_all (\<lambda>d. cstr d = d) default_descriptions"
    by (simp add: default_descriptions_def)
  assume "mapped_code code"
  then have "nat code < length default_descriptions"
    by (simp add: default_descriptions_def HTTP_RESPONSE_CODE_MAX_def nat_less_iff)
  with all show ?thesis by (simp add: list_all_length)
qed

lemma http_response_set_code_eq:
  assumes "response_ok r" "describable code description"
  shows "http_response_set_code r code description =
    Ret (HTTP_ERROR_CODE_SUCCEED,
         r\<lparr>state_line := \<lparr>st_code = code, st_description = Live (description_for code description),
             st_description_length = length (description_for code description)\<rparr>\<rparr>)"
proof -
  have "\<exists>l. (if st_description (state_line r) \<noteq> Null
      then bindO (c_free (st_description (state_line r))) (\<lambda>p.
             Ret ((state_line r)\<lparr>st_description := p, st_description_length := 0\<rparr>))
      else Ret (state_line r)) = Ret l"
    using assms(1) by (auto simp: response_ok_def state_line_ok_def)
  moreover have "l\<lparr>st_code := code, st_description_length := n, st_description := d\<rparr> =
      \<lparr>st_code = code, st_description = d, st_description_length = n\<rparr>" for l :: state_line and n d
    by simp
  ultimately show ?thesis
    using assms(2) default_descriptions_cstr [of code]
    by (auto simp: http_response_set_code_def describable_def description_for_def Let_def
        get_default_description_def strlen_cstr not_less split: option.splits)
qed

lemma http_response_set_code_ok:
  assumes "response_ok r" "describable code description"
  shows "\<exists>r'. http_response_set_code r code description = Ret (HTTP_ERROR_CODE_SUCCEED, r') \<and> response_ok r'"
proof -
  have "NUL \<notin> set (description_for code description)"
    using assms(2) default_descriptions_cstr [of code] NUL_notin_cstr
    by (auto simp: describable_def description_for_def split: option.splits)
      (metis NUL_notin_cstr)+
  then show ?thesis
    using http_response_set_code_eq [OF assms] assms(1)
    by (simp add: response_ok_def state_line_ok_def)
qed

text \<open>A body argument the caller may pass: a readable block of the length claimed.\<close>

definition body_argument_ok :: "string \<Rightarrow> nat option \<Rightarrow> bool" where
  "body_argument_ok body len \<longleftrightarrow>
     (case len of None \<Rightarrow> NUL \<in> set body | Some n \<Rightarrow> n \<le> length body) \<and> length body < 2 ^ 64"

definition body_content :: "string \<Rightarrow> nat option \<Rightarrow> string" where
  "body_content body len = (case len of None \<Rightarrow> cstr body | Some n \<Rightarrow> take n body)"

lemma take_length_cstr: "take (length (cstr s)) s = cstr s"
  unfolding cstr_def by (metis append_eq_conv_conj takeWhile_dropWhile_id)

lemma http_response_set_body_eq:
  assumes "response_ok r" "body_argument_ok body len"
  defines "c \<equiv> body_content body len"
  shows "http_response_set_body r body len =
    Ret (http_response_set_header (r\<lparr>res_body := \<lparr>body_data = Live c, body_length = length c\<rparr>\<rparr>)
           ''Content-Length'' (show_lu (length c)))"
proof -
  define n where "n = (case len of None \<Rightarrow> strlen body | Some n \<Rightarrow> n)"
  have n: "n \<le> length body" "take n body = c" "length c = n"
    using assms(2) strlen_le [of body]
    by (auto simp: body_argument_ok_def c_def body_content_def n_def take_length_cstr strlen_cstr
        split: option.splits)
  have "n < 2 ^ 64" using n(1) assms(2) by (simp add: body_argument_ok_def)
  then have fits: "length (show_lu n) < 64" using length_show_lu_64 [of n] by simp
  have len: "(case len of None \<Rightarrow> if NUL \<in> set body then Ret (strlen body) else Fault Out_Of_Bounds
      | Some n \<Rightarrow> Ret n) = Ret n"
    using assms(2) by (auto simp: body_argument_ok_def n_def split: option.splits)
  have "destroy_body (res_body r) = Ret empty_body"
    using assms(1) by (simp add: response_ok_def destroy_body_ok)
  then show ?thesis
    using n fits unfolding http_response_set_body_def len by (simp add: sprintf_into_def)
qed

lemma http_response_set_body_ok:
  assumes "response_ok r" "body_argument_ok body len"
  shows "\<exists>r'. http_response_set_body r body len = Ret (HTTP_ERROR_CODE_SUCCEED, r') \<and> response_ok r'"
proof -
  let ?c = "body_content body len"
  have "response_ok (r\<lparr>res_body := \<lparr>body_data = Live ?c, body_length = length ?c\<rparr>\<rparr>)"
    using assms(1) by (simp add: response_ok_def body_ok_def)
  from http_response_set_header_ok [OF this] show ?thesis
    using http_response_set_body_eq [OF assms] by (simp add: http_response_set_header_def)
qed

lemma http_response_destroy_eq:
  "response_ok r \<Longrightarrow> http_response_destroy r = Ret (http_response_initialize r)"
  by (auto simp: response_ok_def state_line_ok_def http_response_destroy_def destroy_body_ok
      http_response_initialize_def)

section \<open>What rendering writes\<close>

fun headers_bytes :: "headers \<Rightarrow> string" where
  "headers_bytes [] = []"
| "headers_bytes (h # hs) = cstr (hkey h) @ '': '' @ cstr (hvalue h) @ [CR, LF] @ headers_bytes hs"

definition body_bytes :: "body \<Rightarrow> string" where
  "body_bytes b = (case body_data b of Live d \<Rightarrow> d | _ \<Rightarrow> [])"

definition description_bytes :: "state_line \<Rightarrow> string" where
  "description_bytes l = (case st_description l of Live d \<Rightarrow> (if d = [] then [] else CHR '' '' # d) | _ \<Rightarrow> [])"

definition response_bytes :: "http_response \<Rightarrow> string" where
  "response_bytes r =
     HTTP_VERSION @ '' '' @ take 3 (get_representative_state_code (st_code (state_line r))) @
     description_bytes (state_line r) @ [CR, LF] @ headers_bytes (res_headers r) @ [CR, LF] @
     body_bytes (res_body r)"

lemma length_state_code: "3 \<le> length (get_representative_state_code code)"
proof (cases "mapped_code code")
  case True
  then have "nat code < length state_codes"
    by (simp add: state_codes_def HTTP_RESPONSE_CODE_MAX_def nat_less_iff)
  moreover have "list_all (\<lambda>s. length s = 3) state_codes" by (simp add: state_codes_def)
  ultimately show ?thesis
    using True by (auto simp: get_representative_state_code_def list_all_length)
qed (auto simp: get_representative_state_code_def length_show_03d)

lemma length_headers_bytes: "length (headers_bytes hs) = measure_headers hs"
  by (induction hs) (simp_all add: strlen_cstr)

lemma length_response_bytes:
  assumes "response_ok r"
  shows "length (response_bytes r) = measure_response_size r"
  using assms length_state_code [of "st_code (state_line r)"]
  by (auto simp: response_bytes_def measure_response_size_def length_headers_bytes response_ok_def
      state_line_ok_def body_ok_def description_bytes_def body_bytes_def http_version_length_def
      HTTP_VERSION_def state_code_length_def)

text \<open>
  \<open>f\<close> appends the bytes \<open>s\<close> to what has been written so far, whatever that is, if there
  is room.
\<close>

definition writes :: "(string \<times> nat \<Rightarrow> (string \<times> nat) outcome) \<Rightarrow> string \<Rightarrow> bool" where
  "writes f s \<longleftrightarrow> (\<forall>w rest. length s \<le> length rest \<longrightarrow>
     f (w @ rest, length w) = Ret ((w @ s) @ drop (length s) rest, length (w @ s)))"

lemma writes_bind:
  assumes f: "writes f s" and g: "writes g t"
  shows "writes (\<lambda>dst. bindO (f dst) g) (s @ t)"
  unfolding writes_def
proof (intro allI impI)
  fix w rest :: string assume len: "length (s @ t) \<le> length rest"
  have "f (w @ rest, length w) = Ret ((w @ s) @ drop (length s) rest, length (w @ s))"
    using f len unfolding writes_def by simp
  moreover have "g ((w @ s) @ drop (length s) rest, length (w @ s)) =
      Ret (((w @ s) @ t) @ drop (length t) (drop (length s) rest), length ((w @ s) @ t))"
    using g len unfolding writes_def by (metis add_le_imp_le_diff add.commute length_append length_drop)
  ultimately show "bindO (f (w @ rest, length w)) g =
      Ret ((w @ s @ t) @ drop (length (s @ t)) rest, length (w @ s @ t))"
    by (simp add: add.commute)
qed

lemma writes_copy:
  assumes "n \<le> length src" "s = take n src"
  shows "writes (\<lambda>dst. copy_and_advance dst src n) s"
  using assms by (simp add: writes_def copy_and_advance_def memcpy_def)

lemma writes_Ret: "writes Ret []"
  by (simp add: writes_def)

lemma writes_cstr: "writes (\<lambda>dst. copy_and_advance dst s (strlen s)) (cstr s)"
  using strlen_le [of s] by (intro writes_copy) (simp_all add: take_length_cstr strlen_cstr)

lemma writes_headers: "writes (\<lambda>dst. render_headers dst hs) (headers_bytes hs)"
proof (induction hs)
  case (Cons h hs)
  show ?case
    unfolding render_headers.simps headers_bytes.simps
    by (intro writes_bind writes_cstr Cons.IH) (simp_all add: writes_copy)
qed (simp add: writes_Ret)

lemma writes_description:
  assumes "state_line_ok l"
  shows "writes (\<lambda>dst. if st_description_length l \<noteq> 0
      then bindO (copy_and_advance dst '' '' 1) (\<lambda>dst.
           bindO (deref (st_description l)) (\<lambda>d. copy_and_advance dst d (st_description_length l)))
      else Ret dst) (description_bytes l)"
proof (cases "st_description_length l = 0")
  case True
  with assms have "description_bytes l = []" by (auto simp: state_line_ok_def description_bytes_def)
  with True show ?thesis by (simp add: writes_Ret)
next
  case False
  with assms obtain d where d: "st_description l = Live d" "st_description_length l = length d" "d \<noteq> []"
    by (auto simp: state_line_ok_def)
  have "writes (\<lambda>dst. bindO (copy_and_advance dst '' '' 1) (\<lambda>dst. copy_and_advance dst d (length d)))
      ('' '' @ d)"
    by (intro writes_bind writes_copy) simp_all
  with d show ?thesis by (simp add: description_bytes_def)
qed

lemma writes_body:
  assumes "body_ok b"
  shows "writes (\<lambda>dst. bindO (body_source b) (\<lambda>src. copy_and_advance dst src (body_length b))) (body_bytes b)"
  using assms by (auto simp: body_ok_def body_source_def body_bytes_def intro!: writes_copy)

lemma writes_response:
  assumes "response_ok r"
  shows "writes (render_into r) (response_bytes r)"
proof -
  have ok: "state_line_ok (state_line r)" "body_ok (res_body r)"
    using assms by (simp_all add: response_ok_def)
  show ?thesis
    unfolding render_into_def [abs_def] response_bytes_def http_version_length_def
    by (intro writes_bind writes_description writes_headers writes_body ok)
      (simp_all add: writes_copy length_state_code HTTP_VERSION_def)
qed

lemma render_into_eq:
  assumes "response_ok r" "measure_response_size r \<le> length b"
  shows "render_into r (b, 0) =
    Ret (response_bytes r @ drop (measure_response_size r) b, measure_response_size r)"
  using writes_response [OF assms(1), unfolded writes_def, rule_format, of b "[]"]
    assms length_response_bytes [OF assms(1)] by simp

section \<open>\<open>http_response_render\<close> keeps the calling convention\<close>

text \<open>
  In a build with assertions a body of length 0 must be an absent body.
\<close>

definition render_ok :: "bool \<Rightarrow> http_response \<Rightarrow> bool" where
  "render_ok ndebug r \<longleftrightarrow> response_ok r \<and>
     (ndebug \<or> body_length (res_body r) \<noteq> 0 \<or> body_data (res_body r) = Null)"

definition with_content_length :: "http_response \<Rightarrow> http_response" where
  "with_content_length r =
     (if body_length (res_body r) = 0
      then snd (http_response_set_header r ''Content-Length'' ''0'') else r)"

lemma update_content_length_eq:
  "render_ok ndebug r \<Longrightarrow> update_content_length ndebug r = Ret (with_content_length r)"
  by (auto simp: render_ok_def update_content_length_def with_content_length_def)

lemma with_content_length_ok: "response_ok r \<Longrightarrow> response_ok (with_content_length r)"
  by (simp add: with_content_length_def http_response_set_header_ok)

lemma with_content_length_same [simp]:
  "res_body (with_content_length r) = res_body r"
  "state_line (with_content_length r) = state_line r"
  by (simp_all add: with_content_length_def http_response_set_header_def)

lemma with_content_length_idem:
  assumes "response_ok r"
  shows "with_content_length (with_content_length r) = with_content_length r"
proof -
  have ok: "headers_ok (res_headers r)" using assms by (simp add: response_ok_def)
  have v: "valid_binding ''Content-Length'' ''0''" by (simp add: valid_binding_def)
  show ?thesis
    using header_store.put_overwrite [OF ok v v]
    by (simp add: with_content_length_def http_response_set_header_def)
qed

interpretation render_getter: sized_getter
  "render_ok ndebug" "http_response_render ndebug"
  "\<lambda>r. measure_response_size (with_content_length r)"
  "\<lambda>r. response_bytes (with_content_length r)"
  "\<lambda>r. measure_response_size (with_content_length r)"
  with_content_length
  for ndebug :: bool
proof
  fix r :: http_response and l :: nat and b :: string
  assume ok: "render_ok ndebug r"
  let ?r = "with_content_length r"
  have ok': "response_ok r" "response_ok ?r"
    using ok with_content_length_ok by (auto simp: render_ok_def)
  note render = http_response_render_def update_content_length_eq [OF ok] Let_def
  show "http_response_render ndebug r None l =
      Ret ((HTTP_ERROR_CODE_SUCCEED, None, measure_response_size ?r), ?r)"
    by (simp add: render)
  show "http_response_render ndebug r (Some b) l =
      Ret ((HTTP_ERROR_CODE_INSUFFICIENT_BUFFER_SIZE, Some b, measure_response_size ?r), ?r)"
    if "l < measure_response_size ?r"
    using that by (simp add: render)
  show "http_response_render ndebug r (Some b) l =
      Ret ((HTTP_ERROR_CODE_SUCCEED, Some (response_bytes ?r @ drop (length (response_bytes ?r)) b),
            measure_response_size ?r), ?r)"
    if "measure_response_size ?r \<le> l" "l \<le> length b"
    using that render_into_eq [OF ok'(2), of b] length_response_bytes [OF ok'(2)]
    by (simp add: render)
  show "length (response_bytes ?r) \<le> measure_response_size ?r"
    using length_response_bytes [OF ok'(2)] by simp
  show "render_ok ndebug ?r" using ok ok'(2) by (simp add: render_ok_def)
  show "measure_response_size (with_content_length ?r) = measure_response_size ?r \<and>
      response_bytes (with_content_length ?r) = response_bytes ?r \<and>
      measure_response_size (with_content_length ?r) = measure_response_size ?r \<and>
      with_content_length ?r = ?r"
    by (simp add: with_content_length_idem [OF ok'(1)])
qed

end
