(* ===== verification/Response_Properties.thy ===== *)
theory Response_Properties
  imports Response
begin

text \<open>
  What the response component promises its callers: any sequence of the setters, of
  \<open>http_response_render\<close> and of \<open>http_response_destroy\<close> is safe under the stated
  conditions, what is rendered is exactly the response the setters described, and the
  calls for which this fails.
\<close>

section \<open>Sequences of calls\<close>

datatype response_op =
    Op_Set_Code http_response_code "cstring option"
  | Op_Set_Header cstring cstring
  | Op_Set_Body string "nat option"
  | Op_Render "string option" nat
  | Op_Reset

fun response_op_ok :: "bool \<Rightarrow> response_op \<Rightarrow> bool" where
  "response_op_ok ndebug (Op_Set_Code code description) = describable code description"
| "response_op_ok ndebug (Op_Set_Header k v) = True"
| "response_op_ok ndebug (Op_Set_Body body len) =
     (body_argument_ok body len \<and> (ndebug \<or> body_content body len \<noteq> []))"
| "response_op_ok ndebug (Op_Render buf len) = (case buf of None \<Rightarrow> True | Some b \<Rightarrow> len \<le> length b)"
| "response_op_ok ndebug Op_Reset = True"

fun response_step :: "bool \<Rightarrow> response_op \<Rightarrow> http_response \<Rightarrow> http_response outcome" where
  "response_step ndebug (Op_Set_Code code description) r =
     bindO (http_response_set_code r code description) (\<lambda>(_, r'). Ret r')"
| "response_step ndebug (Op_Set_Header k v) r = Ret (snd (http_response_set_header r k v))"
| "response_step ndebug (Op_Set_Body body len) r =
     bindO (http_response_set_body r body len) (\<lambda>(_, r'). Ret r')"
| "response_step ndebug (Op_Render buf len) r =
     bindO (http_response_render ndebug r buf len) (\<lambda>(_, r'). Ret r')"
| "response_step ndebug Op_Reset r = bindO (http_response_destroy r) (\<lambda>(_, r'). Ret r')"

fun run_response :: "bool \<Rightarrow> response_op list \<Rightarrow> http_response \<Rightarrow> http_response outcome" where
  "run_response ndebug [] r = Ret r"
| "run_response ndebug (x # ops) r = bindO (response_step ndebug x r) (run_response ndebug ops)"


text \<open>The caller leaves the header \<open>Content-Length\<close> to the library.\<close>

fun leaves_content_length :: "response_op \<Rightarrow> bool" where
  "leaves_content_length (Op_Set_Header k v) = (cstr k \<noteq> ''Content-Length'')"
| "leaves_content_length _ = True"

definition framing_inv :: "http_response \<Rightarrow> bool" where
  "framing_inv r \<longleftrightarrow> body_length (res_body r) \<noteq> 0 \<longrightarrow>
     headers_get (res_headers r) ''Content-Length'' = Some (show_lu (length (body_bytes (res_body r))))"

section \<open>One call\<close>

lemma set_header_get:
  "response_ok r \<Longrightarrow> headers_get (res_headers (snd (http_response_set_header r k v))) =
     (headers_get (res_headers r))(cstr k \<mapsto> cstr v)"
  using set_header_ok_get [of "res_headers r" k v]
  by (simp add: response_ok_def http_response_set_header_def)

lemma set_header_body [simp]:
  "res_body (snd (http_response_set_header r k v)) = res_body r"
  by (simp add: http_response_set_header_def)

lemma content_length_name: "cstr ''Content-Length'' = ''Content-Length''"
  by (simp add: cstr_id)

lemma response_step_ok:
  assumes "render_ok ndebug r" "response_op_ok ndebug x"
  shows "\<exists>r'. response_step ndebug x r = Ret r' \<and> render_ok ndebug r' \<and>
    (framing_inv r \<and> leaves_content_length x \<longrightarrow> framing_inv r')"
proof -
  have ok: "response_ok r" and empty: "ndebug \<or> body_length (res_body r) \<noteq> 0 \<or> body_data (res_body r) = Null"
    using assms(1) by (auto simp: render_ok_def)
  show ?thesis
  proof (cases x)
    case (Op_Set_Code code description)
    then show ?thesis
      using assms(2) empty http_response_set_code_ok [OF ok, of code description]
        http_response_set_code_eq [OF ok, of code description]
      by (auto simp: render_ok_def framing_inv_def)
  next
    case (Op_Set_Header k v)
    then show ?thesis
      using empty http_response_set_header_ok [OF ok] set_header_get [OF ok]
      by (auto simp: render_ok_def framing_inv_def)
  next
    case (Op_Set_Body body len)
    let ?c = "body_content body len"
    have arg: "body_argument_ok body len" using assms(2) Op_Set_Body by simp
    let ?r = "r\<lparr>res_body := \<lparr>body_data = Live ?c, body_length = length ?c\<rparr>\<rparr>"
    have ok': "response_ok ?r" using ok by (simp add: response_ok_def body_ok_def)
    have "cstr (show_lu n) = show_lu n" for n by (simp add: cstr_id NUL_notin_show_lu)
    then show ?thesis
      using assms(2) Op_Set_Body http_response_set_body_eq [OF ok arg] set_header_get [OF ok']
        http_response_set_header_ok [OF ok'] content_length_name
      by (auto simp: render_ok_def framing_inv_def body_bytes_def http_response_set_header_def)
  next
    case (Op_Render buf len)
    have "\<exists>res. http_response_render ndebug r buf len = Ret (res, with_content_length r)"
    proof (cases buf)
      case None
      then show ?thesis using render_getter.query [OF assms(1)] by simp
    next
      case (Some b)
      then show ?thesis
        using assms(2) Op_Render render_getter.short [OF assms(1), of len b]
          render_getter.fill [OF assms(1), of len b]
        by (cases "len < measure_response_size (with_content_length r)") auto
    qed
    then show ?thesis
      using Op_Render render_getter.after_ok [OF assms(1)]
      by (auto simp: framing_inv_def with_content_length_def)
  next
    case Op_Reset
    then show ?thesis
      using http_response_destroy_eq [OF ok] http_response_initialize_ok [of r]
      by (auto simp: render_ok_def framing_inv_def http_response_initialize_def)
  qed
qed

lemma run_response_ok:
  "render_ok ndebug r \<Longrightarrow> list_all (response_op_ok ndebug) ops \<Longrightarrow>
     \<exists>r'. run_response ndebug ops r = Ret r' \<and> render_ok ndebug r' \<and>
       (framing_inv r \<and> list_all leaves_content_length ops \<longrightarrow> framing_inv r')"
proof (induction ops arbitrary: r)
  case (Cons x ops)
  then obtain r1 where r1: "response_step ndebug x r = Ret r1" "render_ok ndebug r1"
      "framing_inv r \<and> leaves_content_length x \<longrightarrow> framing_inv r1"
    using response_step_ok [of ndebug r x] by auto
  with Cons.IH [of r1] Cons.prems show ?case by auto
qed simp

lemma render_ok_initialize:
  "render_ok ndebug (snd (http_response_initialize r0))"
  "framing_inv (snd (http_response_initialize r0))"
  using http_response_initialize_ok [of r0]
  by (simp_all add: render_ok_def framing_inv_def http_response_initialize_def)


section \<open>The last copy, to the letter of C17\<close>

text \<open>
  A response without a body ends with \<open>memcpy(destination, NULL, 0)\<close>. The model of rendering lets
  this copy nothing, as the C library does and as later drafts of the standard say; C17 leaves it
  undefined, whatever the length. \<open>http_response_render_strict\<close> is the same function under C17:
  the copy is the last one, so a call that gets through with a buffer and no body has reached it.
\<close>

definition http_response_render_strict ::
  "bool \<Rightarrow> http_response \<Rightarrow> string option \<Rightarrow> nat \<Rightarrow> (getter_result \<times> http_response) outcome" where
  "http_response_render_strict ndebug r buf len =
     bindO (http_response_render ndebug r buf len) (\<lambda>((code, buf', size), r').
       if code = HTTP_ERROR_CODE_SUCCEED \<and> buf \<noteq> None \<and> body_data (res_body r') = Null
       then Fault Null_Dereference else Ret ((code, buf', size), r'))"

fun response_step_strict :: "bool \<Rightarrow> response_op \<Rightarrow> http_response \<Rightarrow> http_response outcome" where
  "response_step_strict ndebug (Op_Render buf len) r =
     bindO (http_response_render_strict ndebug r buf len) (\<lambda>(_, r'). Ret r')"
| "response_step_strict ndebug x r = response_step ndebug x r"

fun run_response_strict :: "bool \<Rightarrow> response_op list \<Rightarrow> http_response \<Rightarrow> http_response outcome" where
  "run_response_strict ndebug [] r = Ret r"
| "run_response_strict ndebug (x # ops) r =
     bindO (response_step_strict ndebug x r) (run_response_strict ndebug ops)"

text \<open>A call that writes a response without a body into a buffer; and a sequence with such a call.\<close>

fun renders_bodyless :: "response_op \<Rightarrow> http_response \<Rightarrow> bool" where
  "renders_bodyless (Op_Render (Some b) len) r \<longleftrightarrow>
     body_data (res_body r) = Null \<and> measure_response_size (with_content_length r) \<le> len"
| "renders_bodyless x r \<longleftrightarrow> False"

fun run_renders_bodyless :: "bool \<Rightarrow> response_op list \<Rightarrow> http_response \<Rightarrow> bool" where
  "run_renders_bodyless ndebug [] r \<longleftrightarrow> False"
| "run_renders_bodyless ndebug (x # ops) r \<longleftrightarrow> renders_bodyless x r \<or>
     (case response_step ndebug x r of Fault f \<Rightarrow> False | Ret r' \<Rightarrow> run_renders_bodyless ndebug ops r')"

lemma response_step_strict_eq:
  assumes "render_ok ndebug r" "response_op_ok ndebug x"
  shows "response_step_strict ndebug x r =
    (if renders_bodyless x r then Fault Null_Dereference else response_step ndebug x r)"
proof (cases x)
  case (Op_Render buf len)
  show ?thesis
  proof (cases buf)
    case None
    then show ?thesis
      using Op_Render render_getter.query [OF assms(1), of len] by (simp add: http_response_render_strict_def)
  next
    case (Some b)
    then show ?thesis
      using Op_Render assms(2) render_getter.short [OF assms(1), of len b] render_getter.fill [OF assms(1), of len b]
      by (cases "len < measure_response_size (with_content_length r)")
        (simp_all add: http_response_render_strict_def)
  qed
qed simp_all

lemma run_response_strict_eq:
  "render_ok ndebug r \<Longrightarrow> list_all (response_op_ok ndebug) ops \<Longrightarrow>
     run_response_strict ndebug ops r =
       (if run_renders_bodyless ndebug ops r then Fault Null_Dereference else run_response ndebug ops r)"
proof (induction ops arbitrary: r)
  case (Cons x ops)
  then obtain r1 where r1: "response_step ndebug x r = Ret r1" "render_ok ndebug r1"
    using response_step_ok [of ndebug r x] by auto
  with Cons.IH [of r1] Cons.prems response_step_strict_eq [of ndebug r x] show ?case by simp
qed simp

section \<open>The order of headers\<close>

lemma set_headers_fold:
  "res_headers (fold (\<lambda>(k, v) r. snd (http_response_set_header r k v)) kvs r) =
     header_store.put_all kvs (res_headers r)"
  by (induction kvs arbitrary: r) (auto simp: header_store.put_all_def http_response_set_header_def)

lemma set_headers_rest:
  "fold (\<lambda>(k, v) r. snd (http_response_set_header r k v)) kvs r =
     r\<lparr>res_headers := header_store.put_all kvs (res_headers r)\<rparr>"
  by (induction kvs arbitrary: r) (auto simp: header_store.put_all_def http_response_set_header_def)

section \<open>A response for the examples\<close>

definition sample_ops :: "response_op list" where
  "sample_ops =
     [Op_Set_Code HTTP_RESPONSE_CODE_PARTIAL_CONTENT None, Op_Set_Header ''Accept-Ranges'' ''bytes'',
      Op_Set_Body (''hello'' @ [NUL]) None, Op_Render None 0]"

lemma sample_ops_ok: "list_all (response_op_ok ndebug) sample_ops" "list_all leaves_content_length sample_ops"
  by (simp_all add: sample_ops_def describable_def response_code_defs body_argument_ok_def
      body_content_def)

definition blank_response :: http_response where
  "blank_response =
     \<lparr>state_line = \<lparr>st_code = 0, st_description = Null, st_description_length = 0\<rparr>,
      res_headers = [], res_body = \<lparr>body_data = Null, body_length = 0\<rparr>\<rparr>"

section \<open>Properties\<close>

text \<open>
  C7. Memory safety of the response object over its whole life. After
  \<open>http_response_initialize\<close>, any sequence of \<open>http_response_set_code\<close> (with a description,
  or a code that has a default one: the others are the subject of C23), \<open>http_response_set_header\<close>,
  \<open>http_response_set_body\<close> (on a readable block, not empty in a build with assertions),
  \<open>http_response_render\<close> (into no larger a space than the buffer has) and \<open>http_response_destroy\<close>
  runs without an access outside a buffer, a double free or a failed assertion, and destroying
  the object at the end succeeds. To the letter of C17 one thing is left: the run is undefined,
  by \<open>memcpy\<close> of 0 bytes from a null pointer, exactly if one of the calls writes a response
  without a body into a buffer.
\<close>

theorem response_lifecycle_safe:
  assumes "list_all (response_op_ok ndebug) ops"
  shows "\<exists>r. run_response ndebug ops (snd (http_response_initialize r0)) = Ret r \<and> response_ok r \<and>
    http_response_destroy r = Ret (http_response_initialize r) \<and>
    run_response_strict ndebug ops (snd (http_response_initialize r0)) =
      (if run_renders_bodyless ndebug ops (snd (http_response_initialize r0)) then Fault Null_Dereference else Ret r)"
proof -
  obtain r where "run_response ndebug ops (snd (http_response_initialize r0)) = Ret r" "render_ok ndebug r"
    using run_response_ok [OF render_ok_initialize(1) assms] by blast
  then show ?thesis
    using http_response_destroy_eq [of r] run_response_strict_eq [OF render_ok_initialize(1) assms, of r0]
    by (auto simp: render_ok_def)
qed

lemma response_lifecycle_safe_witness:
  "(\<exists>r. run_response_strict False sample_ops (snd (http_response_initialize blank_response)) = Ret r \<and> response_ok r) \<and>
   run_response_strict False [Op_Render (Some (replicate 40 (CHR ''?''))) 40] (snd (http_response_initialize blank_response)) =
     Fault Null_Dereference"
proof -
  let ?r = "snd (http_response_initialize blank_response)"
  define ops where "ops = [Op_Render (Some (replicate 40 (CHR ''?''))) 40]"
  have "\<not> run_renders_bodyless False sample_ops ?r" by code_simp
  moreover have "run_renders_bodyless False ops ?r" unfolding ops_def by code_simp
  moreover have "list_all (response_op_ok False) ops" by (simp add: ops_def)
  ultimately show ?thesis
    using response_lifecycle_safe [OF sample_ops_ok(1), of False blank_response]
      response_lifecycle_safe [of False ops blank_response]
    unfolding ops_def [symmetric] by auto
qed



text \<open>
  C15. Rendering is exact. Called with no buffer, \<open>http_response_render\<close> reports the number of
  bytes the response takes; a buffer of that size, whatever it holds, is then filled with
  exactly the status line, the headers in the order of their keys, the empty line and the
  body, and not a byte more.
\<close>

theorem render_exact:
  assumes "render_ok ndebug r" and "\<And>n. length (junk n) = n"
  shows "query_then_fill junk (http_response_render ndebug) r =
    Ret ((HTTP_ERROR_CODE_SUCCEED, Some (response_bytes (with_content_length r)),
          length (response_bytes (with_content_length r))), with_content_length r)"
proof -
  have len: "length (response_bytes (with_content_length r)) = measure_response_size (with_content_length r)"
    using assms(1) by (intro length_response_bytes with_content_length_ok) (simp add: render_ok_def)
  then show ?thesis
    using render_getter.query_then_fill [OF assms] by (auto simp: len)
qed

lemma render_exact_witness:
  "query_then_fill (\<lambda>n. replicate n (CHR ''?'')) (http_response_render False) blank_response =
     Ret ((HTTP_ERROR_CODE_SUCCEED,
           Some (''HTTP/1.1 200'' @ [CR, LF] @ ''Content-Length: 0'' @ [CR, LF, CR, LF]), 35),
          with_content_length blank_response)"
proof -
  have "render_ok False blank_response"
    by (simp add: blank_response_def render_ok_def response_ok_def state_line_ok_def body_ok_def)
  moreover have "response_bytes (with_content_length blank_response) =
      ''HTTP/1.1 200'' @ [CR, LF] @ ''Content-Length: 0'' @ [CR, LF, CR, LF]"
    by code_simp
  ultimately show ?thesis
    using render_exact [of False blank_response "\<lambda>n. replicate n (CHR ''?'')"] by simp
qed

text \<open>
  The order of the setters does not matter. Setting two lists of headers with the same
  bindings, each with distinct names, in any order gives the same response object, so the
  bytes rendered are the same.
\<close>

theorem header_order_irrelevant:
  assumes "response_ok r" "\<forall>(k, v) \<in> set kvs. valid_binding k v"
    and "distinct (map fst kvs)" "distinct (map fst kvs')" "set kvs = set kvs'"
  shows "fold (\<lambda>(k, v) r. snd (http_response_set_header r k v)) kvs r =
    fold (\<lambda>(k, v) r. snd (http_response_set_header r k v)) kvs' r"
proof -
  have ok: "headers_ok (res_headers r)" using assms(1) by (simp add: response_ok_def)
  have v: "\<forall>(k, v) \<in> set kvs'. valid_binding k v" using assms(2,5) by simp
  have "map_of (rev kvs) = map_of (rev kvs')"
    using assms(3-5) by (intro map_of_eqI) (auto simp: rev_map [symmetric] map_of_eq_Some_iff)
  then have "header_store.put_all kvs (res_headers r) = header_store.put_all kvs' (res_headers r)"
    using header_store.put_all_inv_get [OF ok assms(2)] header_store.put_all_inv_get [OF ok v]
    by (intro headers_ext) auto
  then show ?thesis by (simp add: set_headers_rest)
qed

lemma header_order_irrelevant_witness:
  "snd (http_response_set_header (snd (http_response_set_header blank_response ''A'' ''1'')) ''B'' ''2'') =
   snd (http_response_set_header (snd (http_response_set_header blank_response ''B'' ''2'')) ''A'' ''1'')"
  using header_order_irrelevant
    [of blank_response "[(''A'', ''1''), (''B'', ''2'')]" "[(''B'', ''2''), (''A'', ''1'')]"]
  by (auto simp: blank_response_def response_ok_def state_line_ok_def body_ok_def valid_binding_def)

text \<open>
  C23. A code without a default description leaves a dangling pointer. When a response that has a
  description is given a code outside the enumeration and no description,
  \<open>http_response_set_code\<close> reports success, but the freed description is still there: the
  next \<open>http_response_set_code\<close> and \<open>http_response_destroy\<close> free it a second time.
\<close>

theorem unmapped_code_double_free:
  assumes "response_ok r" "st_description (state_line r) \<noteq> Null" "\<not> mapped_code code"
  shows "\<exists>r'. http_response_set_code r code None = Ret (HTTP_ERROR_CODE_SUCCEED, r') \<and>
    http_response_destroy r' = Fault Bad_Free \<and>
    http_response_set_code r' code' description = Fault Bad_Free"
  using assms
  by (auto simp: response_ok_def state_line_ok_def http_response_set_code_def get_default_description_def
      http_response_destroy_def not_le not_less)

lemma unmapped_code_double_free_witness:
  "\<exists>r r'. http_response_set_code blank_response 0 None = Ret (HTTP_ERROR_CODE_SUCCEED, r) \<and>
     http_response_set_code r 418 None = Ret (HTTP_ERROR_CODE_SUCCEED, r') \<and>
     http_response_destroy r' = Fault Bad_Free"
proof -
  have ok: "response_ok blank_response" "describable 0 None"
    by (simp_all add: blank_response_def response_ok_def state_line_ok_def body_ok_def
        describable_def HTTP_RESPONSE_CODE_MAX_def)
  show ?thesis
    using http_response_set_code_eq [OF ok] http_response_set_code_ok [OF ok]
      unmapped_code_double_free [of _ 418 0 None]
    by (fastforce simp: HTTP_RESPONSE_CODE_MAX_def)
qed

text \<open>
  An empty body stops a build with assertions. After \<open>http_response_set_body\<close> with length 0
  (what the server does for an empty file) every \<open>http_response_render\<close> fails its
  \<open>assert\<close>, though without assertions it renders a response with \<open>Content-Length: 0\<close>.
\<close>

lemma empty_body_assertion:
  assumes "response_ok r" "length body < 2 ^ 64"
  shows "\<exists>r'. http_response_set_body r body (Some 0) = Ret (HTTP_ERROR_CODE_SUCCEED, r') \<and>
    http_response_render False r' buf len = Fault Assertion_Failed \<and>
    http_response_render True r' None len =
      Ret ((HTTP_ERROR_CODE_SUCCEED, None, length (response_bytes (with_content_length r'))),
           with_content_length r')"
proof -
  have arg: "body_argument_ok body (Some 0)" using assms(2) by (simp add: body_argument_ok_def)
  obtain r' where r': "http_response_set_body r body (Some 0) = Ret (HTTP_ERROR_CODE_SUCCEED, r')" "response_ok r'"
    using http_response_set_body_ok [OF assms(1) arg] by blast
  then have b: "res_body r' = \<lparr>body_data = Live [], body_length = 0\<rparr>"
    using http_response_set_body_eq [OF assms(1) arg]
    by (auto simp: body_content_def http_response_set_header_def)
  have "http_response_render False r' buf len = Fault Assertion_Failed"
    by (simp add: http_response_render_def update_content_length_def b)
  moreover have "render_ok True r'" using r'(2) by (simp add: render_ok_def)
  ultimately show ?thesis
    using r' render_getter.query [of True r' len]
    by (simp add: length_response_bytes with_content_length_ok)
qed

lemma empty_body_assertion_witness:
  "\<exists>r'. http_response_set_body blank_response [] (Some 0) = Ret (HTTP_ERROR_CODE_SUCCEED, r') \<and>
    http_response_render False r' None 0 = Fault Assertion_Failed"
  using empty_body_assertion [of blank_response "[]" None 0]
  by (auto simp: blank_response_def response_ok_def state_line_ok_def body_ok_def)

end
