(* ===== verification/Range_Header.thy ===== *)
theory Range_Header
  imports C_Strings "HOL-Library.Word" "HOL-Library.Multiset"
begin

text \<open>
  The \<open>Range\<close> header (\<open>http_hl.c\<close>, \<open>http_hl.h\<close>): \<open>struct range\<close>, \<open>parse_single_range\<close>,
  \<open>compare_range\<close> and \<open>parse_range\<close>. A range is half-open; \<open>0, 0\<close> stands for the whole
  file and for "ignore the header". \<open>size_t\<close> is a 64-bit word, so the subtraction in a
  suffix range wraps as in C; an overflow of \<open>long long\<close> is a \<open>Fault\<close>.

  The string is the block the pointer points into, with its terminating NUL: advancing
  the pointer drops bytes, and reading an empty block is out of bounds.
\<close>

section \<open>\<open>struct range\<close> and its order\<close>

type_synonym size_t = "64 word"

datatype range = Rng (range_start: size_t) (range_end: size_t)

definition full_range :: range where "full_range = Rng 0 0"

fun compare_range :: "range \<Rightarrow> range \<Rightarrow> int" where
  "compare_range (Rng s e) (Rng s' e') =
     (if s \<noteq> s' then (if s < s' then - 1 else 1)
      else if e \<noteq> e' then (if e < e' then - 1 else 1)
      else 0)"

text \<open>\<open>compare_range\<close> is a linear order, which is what \<open>qsort\<close> needs of it.\<close>

instantiation range :: linorder
begin

definition less_eq_range :: "range \<Rightarrow> range \<Rightarrow> bool" where
  "r \<le> r' \<longleftrightarrow> compare_range r r' \<le> 0"

definition less_range :: "range \<Rightarrow> range \<Rightarrow> bool" where
  "r < r' \<longleftrightarrow> compare_range r r' < 0"

instance
proof
  fix x y z :: range
  show "x < y \<longleftrightarrow> x \<le> y \<and> \<not> y \<le> x"
    by (cases x; cases y) (auto simp: less_eq_range_def less_range_def)
  show "x \<le> x"
    by (cases x) (simp add: less_eq_range_def)
  show "x \<le> z" if "x \<le> y" "y \<le> z"
    using that by (cases x; cases y; cases z) (auto simp: less_eq_range_def split: if_splits)
  show "x = y" if "x \<le> y" "y \<le> x"
    using that by (cases x; cases y) (auto simp: less_eq_range_def split: if_splits)
  show "x \<le> y \<or> y \<le> x"
    by (cases x; cases y) (auto simp: less_eq_range_def)
qed

end

text \<open>
  \<open>qsort(ranges, n, sizeof(ranges[0]), compare_range)\<close>. The standard fixes the result
  up to the order of elements that compare equal, and those are equal here.
\<close>

definition qsort_ranges :: "range list \<Rightarrow> range list" where
  "qsort_ranges rs = sort rs"

lemma qsort_ranges_unique:
  "mset ys = mset xs \<Longrightarrow> sorted_wrt (\<lambda>a b. compare_range a b \<le> 0) ys \<Longrightarrow> ys = qsort_ranges xs"
  by (simp add: qsort_ranges_def properties_for_sort flip: less_eq_range_def)

section \<open>Parsing\<close>

definition head :: "string \<Rightarrow> char outcome" where
  "head p = rd p 0"

fun skip_space :: "string \<Rightarrow> string outcome" where
  "skip_space [] = Fault Out_Of_Bounds"
| "skip_space (c # cs) = (if isspace c then skip_space cs else Ret (c # cs))"

definition parse_single_range :: "bool \<Rightarrow> string \<Rightarrow> size_t \<Rightarrow> range outcome" where
  "parse_single_range ndebug representation sz =
     bindO (head representation) (\<lambda>c.
     bindO (if c = CHR ''-''
            then Ret (Rng (sz - word_of_int (fst (strtoll (tl representation)))) sz)
            else
              let (v, mid) = strtoll representation;
                  start = word_of_int v :: size_t
              in bindO (head mid) (\<lambda>m.
                 bindO (c_assert ndebug (m = CHR ''-'')) (\<lambda>_.
                 bindO (rd mid 1) (\<lambda>d.
                   if isdigit d
                   then let last = fst (strtoll (tl mid))
                        in if last = LLONG_MAX then Fault Signed_Overflow
                           else Ret (Rng start (word_of_int (last + 1)))
                   else Ret (Rng start sz))))) (\<lambda>r.
       Ret (if range_start r \<ge> range_end r then full_range else r)))"

text \<open>The \<open>do ... while\<close> loop: move past the next comma or terminator.\<close>

fun skip_spec :: "string \<Rightarrow> string outcome" where
  "skip_spec [] = Fault Out_Of_Bounds"
| "skip_spec (c # cs) = (if c \<noteq> CHR '','' \<and> c \<noteq> NUL then skip_spec cs else Ret cs)"

text \<open>The loop that fills \<open>ranges[0..n_ranges)\<close>.\<close>

fun parse_ranges :: "bool \<Rightarrow> size_t \<Rightarrow> nat \<Rightarrow> string \<Rightarrow> range list outcome" where
  "parse_ranges ndebug sz 0 representation = Ret []"
| "parse_ranges ndebug sz (Suc n) representation =
     bindO (skip_space representation) (\<lambda>p.
     bindO (parse_single_range ndebug p sz) (\<lambda>r.
     bindO (skip_spec p) (\<lambda>q.
     bindO (parse_ranges ndebug sz n q) (\<lambda>rs.
       Ret (r # rs)))))"

text \<open>The loop over the sorted ranges; \<open>prev\<close> is \<open>ranges[i-1]\<close>, absent for \<open>i = 0\<close>.\<close>

fun merge_ranges :: "range option \<Rightarrow> range list \<Rightarrow> range \<Rightarrow> range" where
  "merge_ranges prev [] partial = partial"
| "merge_ranges prev (r # rs) partial =
     (if range_start r = 0 \<and> range_end r = 0 then full_range
      else if (case prev of None \<Rightarrow> False | Some q \<Rightarrow> range_start r < range_end q) then full_range
      else merge_ranges (Some r) rs
             (if range_end r = range_start partial then Rng (range_start r) (range_end partial)
              else if range_start r = range_end partial then Rng (range_start partial) (range_end r)
              else partial))"

text \<open>
  \<open>parse_range\<close>. The argument is the content of the header value, \<open>None\<close> for NULL; its
  block ends with the terminator.
\<close>

definition parse_range :: "bool \<Rightarrow> cstring option \<Rightarrow> size_t \<Rightarrow> range outcome" where
  "parse_range ndebug representation sz =
     (case representation of
        None \<Rightarrow> Ret full_range
      | Some s \<Rightarrow>
          bindO (skip_space (s @ [NUL])) (\<lambda>p.
            if strncmp p ''bytes='' 6 \<noteq> 0 then Ret full_range
            else
              let p = drop 6 p;
                  n_ranges = Suc (length (filter (\<lambda>c. c = CHR '','') (cstr p)))
              in bindO (parse_ranges ndebug sz n_ranges p) (\<lambda>ranges.
                   Ret (merge_ranges None (qsort_ranges ranges) (hd ranges)))))"

section \<open>The ranges a header requests\<close>

definition in_range :: "size_t \<Rightarrow> range \<Rightarrow> bool" where
  "in_range x r \<longleftrightarrow> range_start r \<le> x \<and> x < range_end r"

definition range_ok :: "range \<Rightarrow> bool" where
  "range_ok r \<longleftrightarrow> r = full_range \<or> range_start r < range_end r"

lemma full_range_iff: "range_start r = 0 \<and> range_end r = 0 \<longleftrightarrow> r = full_range"
  by (cases r) (simp add: full_range_def)

lemma range_ok_full [simp]: "range_ok full_range"
  by (simp add: range_ok_def)

lemma range_ok_nonempty: "range_ok r \<Longrightarrow> r \<noteq> full_range \<Longrightarrow> range_start r < range_end r"
  by (simp add: range_ok_def)

text \<open>The list \<open>parse_range\<close> builds from a header with the right unit.\<close>

definition requested_ranges :: "bool \<Rightarrow> cstring \<Rightarrow> size_t \<Rightarrow> range list outcome" where
  "requested_ranges ndebug s sz =
     bindO (skip_space (s @ [NUL])) (\<lambda>p.
       parse_ranges ndebug sz (Suc (length (filter (\<lambda>c. c = CHR '','') (cstr (drop 6 p))))) (drop 6 p))"

definition bytes_unit :: "cstring \<Rightarrow> bool" where
  "bytes_unit s \<longleftrightarrow> (case skip_space (s @ [NUL]) of Ret p \<Rightarrow> strncmp p ''bytes='' 6 = 0 | _ \<Rightarrow> False)"

lemma skip_space_terminated:
  "\<exists>p. skip_space (s @ [NUL]) = Ret p \<and> p = dropWhile isspace (s @ [NUL])"
  by (induction s) auto

lemma parse_range_requested:
  "parse_range ndebug (Some s) sz =
     (if bytes_unit s
      then bindO (requested_ranges ndebug s sz) (\<lambda>ranges.
             Ret (merge_ranges None (qsort_ranges ranges) (hd ranges)))
      else Ret full_range)"
  using skip_space_terminated [of s]
  by (auto simp: parse_range_def bytes_unit_def requested_ranges_def Let_def)

lemma parse_single_range_ok:
  "parse_single_range ndebug p sz = Ret r \<Longrightarrow> range_ok r"
  unfolding parse_single_range_def bindO_Ret_iff by (auto simp: range_ok_def)

lemma parse_ranges_ok:
  "parse_ranges ndebug sz n p = Ret rs \<Longrightarrow> length rs = n \<and> list_all range_ok rs"
  by (induction n arbitrary: p rs) (auto simp: outcome_simps parse_single_range_ok)

lemma requested_ranges_ok:
  "requested_ranges ndebug s sz = Ret rs \<Longrightarrow> rs \<noteq> [] \<and> list_all range_ok rs"
  unfolding requested_ranges_def bindO_Ret_iff by (auto dest!: parse_ranges_ok simp del: parse_ranges.simps)

section \<open>Merging\<close>

definition merge_step :: "range \<Rightarrow> range \<Rightarrow> range" where
  "merge_step partial r =
     (if range_end r = range_start partial then Rng (range_start r) (range_end partial)
      else if range_start r = range_end partial then Rng (range_start partial) (range_end r)
      else partial)"

text \<open>No range is full and none starts before its predecessor ends.\<close>

fun chain :: "range option \<Rightarrow> range list \<Rightarrow> bool" where
  "chain prev [] = True"
| "chain prev (r # rs) \<longleftrightarrow> r \<noteq> full_range \<and>
     (case prev of None \<Rightarrow> True | Some q \<Rightarrow> range_end q \<le> range_start r) \<and> chain (Some r) rs"

lemma merge_ranges_eq:
  "merge_ranges prev rs partial =
     (if chain prev rs then foldl merge_step partial rs else full_range)"
  by (induction rs arbitrary: prev partial)
    (auto simp: full_range_iff merge_step_def full_range_def not_less split: option.splits)

lemma chain_Some:
  assumes "list_all range_ok rs"
  shows "chain (Some q) rs \<longleftrightarrow> chain None rs \<and> (\<forall>r \<in> set rs. range_end q \<le> range_start r)"
  using assms
proof (induction rs arbitrary: q)
  case (Cons r rs)
  have "range_end q \<le> range_start x"
    if "range_end q \<le> range_start r" "r \<noteq> full_range" "range_end r \<le> range_start x" for x
    using that Cons.prems range_ok_nonempty [of r] by auto
  with Cons show ?case by auto
qed simp

text \<open>On ordered ranges a chain means that no byte is requested twice.\<close>

definition requests :: "size_t \<Rightarrow> range list \<Rightarrow> nat" where
  "requests x rs = length (filter (in_range x) rs)"

lemma requests_Cons: "requests x (r # rs) = (if in_range x r then Suc (requests x rs) else requests x rs)"
  by (simp add: requests_def)

lemma requests_mset: "mset rs = mset rs' \<Longrightarrow> requests x rs = requests x rs'"
  unfolding requests_def by (metis mset_filter size_mset)

lemma requests_pos: "0 < requests x rs \<longleftrightarrow> (\<exists>r \<in> set rs. in_range x r)"
  by (auto simp: requests_def filter_empty_conv)

lemma range_le_start: "r \<le> r' \<Longrightarrow> range_start r \<le> range_start r'"
  by (cases r; cases r') (auto simp: less_eq_range_def split: if_splits)

lemma chain_iff:
  assumes "list_all range_ok rs" "sorted rs"
  shows "chain None rs \<longleftrightarrow> full_range \<notin> set rs \<and> (\<forall>x. requests x rs \<le> 1)"
  using assms
proof (induction rs)
  case (Cons r rs)
  then have IH: "chain None rs \<longleftrightarrow> full_range \<notin> set rs \<and> (\<forall>x. requests x rs \<le> 1)" by simp
  have rs: "list_all range_ok rs" using Cons.prems by simp
  have apart: "(\<forall>q \<in> set rs. range_end r \<le> range_start q) \<longleftrightarrow>
      (\<forall>x. in_range x r \<longrightarrow> requests x rs = 0)" if "full_range \<notin> set rs" "r \<noteq> full_range"
  proof
    assume *: "\<forall>q \<in> set rs. range_end r \<le> range_start q"
    show "\<forall>x. in_range x r \<longrightarrow> requests x rs = 0"
    proof (intro allI impI)
      fix x assume "in_range x r"
      with * have "\<not> (\<exists>q \<in> set rs. in_range x q)" by (fastforce simp: in_range_def)
      then show "requests x rs = 0" using requests_pos [of x rs] by simp
    qed
  next
    assume *: "\<forall>x. in_range x r \<longrightarrow> requests x rs = 0"
    show "\<forall>q \<in> set rs. range_end r \<le> range_start q"
    proof (rule ballI, rule ccontr)
      fix q assume q: "q \<in> set rs" "\<not> range_end r \<le> range_start q"
      have "range_start r \<le> range_start q" using Cons.prems q(1) by (auto intro: range_le_start)
      then have "in_range (range_start q) r" using q(2) by (simp add: in_range_def)
      moreover have "range_start q < range_end q"
        using rs q(1) that(1) by (auto simp: list_all_iff intro: range_ok_nonempty)
      then have "0 < requests (range_start q) rs"
        unfolding requests_pos using q(1) by (auto simp: in_range_def)
      ultimately show False using * by simp
    qed
  qed
  show ?case
  proof (cases "r = full_range \<or> full_range \<in> set rs")
    case True
    with IH show ?thesis by (auto simp: chain_Some [OF rs])
  next
    case False
    with IH apart show ?thesis
      by (auto simp: chain_Some [OF rs] requests_Cons le_Suc_eq)
  qed
qed (simp add: requests_def)

text \<open>The loop invariant of the merge.\<close>

definition merge_inv :: "range list \<Rightarrow> range \<Rightarrow> range \<Rightarrow> bool" where
  "merge_inv rs first p \<longleftrightarrow> range_start p < range_end p \<and>
     (\<forall>x. in_range x p \<longrightarrow> (\<exists>r \<in> set rs. in_range x r)) \<and>
     (\<forall>x. in_range x first \<longrightarrow> in_range x p)"

lemma merge_step_inv:
  assumes "merge_inv rs first p" "r \<in> set rs" "range_start r < range_end r"
  shows "merge_inv rs first (merge_step p r)"
proof -
  consider (before) "range_end r = range_start p" | (behind) "range_end r \<noteq> range_start p" "range_start r = range_end p"
    | (apart) "range_end r \<noteq> range_start p" "range_start r \<noteq> range_end p" by blast
  then show ?thesis
  proof cases
    case before
    then have "in_range x (merge_step p r) \<longleftrightarrow> in_range x p \<or> in_range x r" for x
      using assms by (auto simp: merge_step_def in_range_def merge_inv_def)
    with before assms show ?thesis by (auto simp: merge_inv_def merge_step_def)
  next
    case behind
    then have "in_range x (merge_step p r) \<longleftrightarrow> in_range x p \<or> in_range x r" for x
      using assms by (auto simp: merge_step_def in_range_def merge_inv_def)
    with behind assms show ?thesis by (auto simp: merge_inv_def merge_step_def)
  qed (use assms in \<open>simp add: merge_step_def\<close>)
qed

lemma foldl_merge_inv:
  "merge_inv rs first p \<Longrightarrow> set qs \<subseteq> set rs \<Longrightarrow> (\<forall>r \<in> set qs. range_start r < range_end r) \<Longrightarrow>
     merge_inv rs first (foldl merge_step p qs)"
  by (induction qs arbitrary: p) (auto intro: merge_step_inv)

lemma merge_requested:
  assumes rs: "rs \<noteq> []" "list_all range_ok rs"
  defines "m \<equiv> merge_ranges None (qsort_ranges rs) (hd rs)"
  shows "(m = full_range \<longleftrightarrow> full_range \<in> set rs \<or> (\<exists>x. 1 < requests x rs)) \<and>
         (m \<noteq> full_range \<longrightarrow> merge_inv rs (hd rs) m)"
proof -
  let ?s = "qsort_ranges rs"
  have s: "list_all range_ok ?s" "sorted ?s" "set ?s = set rs" "requests x ?s = requests x rs" for x
    using rs(2) requests_mset [of ?s rs x] by (simp_all add: qsort_ranges_def list_all_iff)
  have iff: "chain None ?s \<longleftrightarrow> full_range \<notin> set rs \<and> (\<forall>x. requests x rs \<le> 1)"
    using chain_iff [OF s(1,2)] s(3,4) by simp
  have hd: "hd rs \<in> set rs" using rs(1) by simp
  have "merge_inv rs (hd rs) (foldl merge_step (hd rs) ?s)" if c: "chain None ?s"
  proof (rule foldl_merge_inv)
    have ne: "range_start r < range_end r" if "r \<in> set rs" for r
      using that c iff rs(2) by (auto simp: list_all_iff intro: range_ok_nonempty)
    show "\<forall>r \<in> set ?s. range_start r < range_end r" using ne s(3) by simp
    show "merge_inv rs (hd rs) (hd rs)" using ne hd by (auto simp: merge_inv_def)
  qed (simp add: s(3))
  moreover have "\<not> merge_inv rs (hd rs) full_range" by (simp add: merge_inv_def full_range_def)
  ultimately show ?thesis
    using iff unfolding m_def merge_ranges_eq not_le [symmetric] by (cases "chain None ?s") auto
qed

lemma parse_range_range_ok:
  assumes "parse_range ndebug rep sz = Ret m"
  shows "range_ok m"
proof (cases rep)
  case None
  with assms show ?thesis by (simp add: parse_range_def)
next
  case (Some s)
  obtain p where p: "skip_space (s @ [NUL]) = Ret p" using skip_space_terminated by blast
  show ?thesis
  proof (cases "bytes_unit s")
    case True
    then obtain rs where rs: "requested_ranges ndebug s sz = Ret rs"
        "m = merge_ranges None (qsort_ranges rs) (hd rs)"
      using assms Some by (auto simp: parse_range_requested bindO_Ret_iff)
    from merge_requested [of rs] requested_ranges_ok [OF rs(1)] rs(2)
    show ?thesis by (auto simp: merge_inv_def range_ok_def)
  next
    case False
    with p assms Some show ?thesis by (simp add: parse_range_def bytes_unit_def)
  qed
qed

end
