(* ===== verification/Range_Format.thy ===== *)
theory Range_Format
  imports Range_Header
begin

text \<open>
  Round trip for the \<open>Range\<close> header: the byte-range specifiers of RFC 7233 as data, their
  text, and the proof that \<open>parse_range\<close> reads every such text without a fault, in both
  build modes, as the ranges the specifiers denote.
\<close>

section \<open>Specifiers and their text\<close>

datatype byte_spec =
    From_To nat nat    \<comment> \<open>\<open>first-last\<close>\<close>
  | From nat           \<comment> \<open>\<open>first-\<close>\<close>
  | Last_Bytes nat     \<comment> \<open>\<open>-count\<close>\<close>

fun show_spec :: "byte_spec \<Rightarrow> string" where
  "show_spec (From_To a b) = show_lu a @ CHR ''-'' # show_lu b"
| "show_spec (From a) = show_lu a @ ''-''"
| "show_spec (Last_Bytes n) = CHR ''-'' # show_lu n"

fun show_specs :: "byte_spec list \<Rightarrow> string" where
  "show_specs [] = []"
| "show_specs [c] = show_spec c"
| "show_specs (c # cs) = show_spec c @ CHR '','' # show_specs cs"

definition range_header_text :: "byte_spec list \<Rightarrow> cstring" where
  "range_header_text cs = ''bytes='' @ show_specs cs"

text \<open>The numbers fit \<open>long long\<close>, the last position with room for the increment.\<close>

fun spec_bounded :: "byte_spec \<Rightarrow> bool" where
  "spec_bounded (From_To a b) \<longleftrightarrow> int a \<le> LLONG_MAX \<and> int b < LLONG_MAX"
| "spec_bounded (From a) \<longleftrightarrow> int a \<le> LLONG_MAX"
| "spec_bounded (Last_Bytes n) \<longleftrightarrow> int n \<le> LLONG_MAX"

definition normalise :: "range \<Rightarrow> range" where
  "normalise r = (if range_start r \<ge> range_end r then full_range else r)"

fun spec_range :: "size_t \<Rightarrow> byte_spec \<Rightarrow> range" where
  "spec_range sz (From_To a b) = normalise (Rng (of_nat a) (of_nat b + 1))"
| "spec_range sz (From a) = normalise (Rng (of_nat a) sz)"
| "spec_range sz (Last_Bytes n) = normalise (Rng (sz - of_nat n) sz)"

section \<open>One specifier\<close>

definition delimited :: "string \<Rightarrow> bool" where
  "delimited rest \<longleftrightarrow> (\<exists>c cs. rest = c # cs \<and> (c = CHR '','' \<or> c = NUL))"

lemma delimitedD:
  assumes "delimited rest"
  shows "rest \<noteq> []" "\<not> isdigit (hd rest)"
  using assms by (auto simp: delimited_def isdigit_def)

lemma show_lu_Cons: "\<exists>c cs. show_lu n = c # cs \<and> isdigit c"
  using show_lu_nonempty [of n] show_lu_hd [of n] by (cases "show_lu n") auto

lemma digit_not_special:
  "isdigit c \<Longrightarrow> c \<noteq> CHR ''-'' \<and> c \<noteq> CHR '','' \<and> c \<noteq> NUL \<and> \<not> isspace c"
  using isspace_not_digit by (auto simp: isdigit_def)

lemma head_show_lu:
  "\<exists>c. head (show_lu n @ rest) = Ret c \<and> isdigit c"
  using show_lu_Cons [of n] by (auto simp: head_def)

lemma parse_single_range_show:
  assumes b: "spec_bounded c" and d: "delimited rest"
  shows "parse_single_range ndebug (show_spec c @ rest) sz = Ret (spec_range sz c)"
proof (cases c)
  case (Last_Bytes n)
  have "strtoll (show_lu n @ rest) = (int n, rest)"
    using b d Last_Bytes by (intro strtoll_show_lu) (auto dest: delimitedD)
  then show ?thesis
    using Last_Bytes by (simp add: parse_single_range_def head_def normalise_def)
next
  case (From a)
  have s: "strtoll (show_lu a @ CHR ''-'' # rest) = (int a, CHR ''-'' # rest)"
    using b From by (intro strtoll_show_lu) (auto simp: isdigit_def)
  obtain x where x: "head (show_lu a @ CHR ''-'' # rest) = Ret x" "isdigit x"
    using head_show_lu by blast
  have "\<not> isdigit ((CHR ''-'' # rest) ! 1)" "1 < length (CHR ''-'' # rest)"
    using delimitedD [OF d] by (auto simp: hd_conv_nth)
  moreover have "head (CHR ''-'' # rest) = Ret (CHR ''-'')" by (simp add: head_def)
  ultimately show ?thesis
    using From s x digit_not_special [OF x(2)]
    by (simp add: parse_single_range_def normalise_def)
next
  case (From_To a l)
  let ?mid = "CHR ''-'' # show_lu l @ rest"
  have s: "strtoll (show_lu a @ ?mid) = (int a, ?mid)"
    using b From_To by (intro strtoll_show_lu) (auto simp: isdigit_def)
  have s2: "strtoll (show_lu l @ rest) = (int l, rest)"
    using b d From_To by (intro strtoll_show_lu) (auto dest: delimitedD)
  obtain x where x: "head (show_lu a @ ?mid) = Ret x" "isdigit x"
    using head_show_lu by blast
  obtain y ys where y: "show_lu l = y # ys" "isdigit y" using show_lu_Cons by blast
  have "int l < LLONG_MAX" using b From_To by simp
  then have "int l \<noteq> LLONG_MAX" by simp
  moreover have "(word_of_int (int l + 1) :: size_t) = of_nat l + 1" by simp
  moreover have "head ?mid = Ret (CHR ''-'')" "rd ?mid 1 = Ret y"
    using y by (simp_all add: head_def)
  ultimately show ?thesis
    using From_To s s2 x y(2) digit_not_special [OF x(2)]
    by (simp add: parse_single_range_def normalise_def)
qed

lemma show_spec_chars:
  "x \<in> set (show_spec c) \<Longrightarrow> x \<noteq> CHR '','' \<and> x \<noteq> NUL \<and> \<not> isspace x"
  using digit_not_special show_lu_isdigit by (cases c) (auto simp: isspace_def)

lemma show_spec_nonempty: "show_spec c \<noteq> []"
  by (cases c) auto

lemma skip_space_show: "skip_space (show_spec c @ rest) = Ret (show_spec c @ rest)"
  using show_spec_chars [of "hd (show_spec c)" c] show_spec_nonempty [of c]
  by (cases "show_spec c") auto

lemma skip_spec_append:
  "(\<forall>x \<in> set xs. x \<noteq> CHR '','' \<and> x \<noteq> NUL) \<Longrightarrow> d = CHR '','' \<or> d = NUL \<Longrightarrow>
     skip_spec (xs @ d # rest) = Ret rest"
  by (induction xs) auto

section \<open>All specifiers\<close>

lemma parse_ranges_show:
  "cs \<noteq> [] \<Longrightarrow> list_all spec_bounded cs \<Longrightarrow>
     parse_ranges ndebug sz (length cs) (show_specs cs @ [NUL]) = Ret (map (spec_range sz) cs)"
proof (induction cs rule: show_specs.induct)
  case (2 c)
  then show ?case
    using skip_spec_append [of "show_spec c" NUL "[]"] show_spec_chars
    by (simp add: skip_space_show parse_single_range_show delimited_def)
next
  case (3 c c' cs)
  let ?rest = "show_specs (c' # cs) @ [NUL]"
  have "skip_spec (show_spec c @ CHR '','' # ?rest) = Ret ?rest"
    using show_spec_chars by (intro skip_spec_append) auto
  moreover have "parse_single_range ndebug (show_spec c @ CHR '','' # ?rest) sz = Ret (spec_range sz c)"
    using 3 by (intro parse_single_range_show) (auto simp: delimited_def)
  ultimately show ?case
    using 3 skip_space_show [of c "CHR '','' # ?rest"] by simp
qed simp

lemma no_comma_spec: "filter (\<lambda>x. x = CHR '','') (show_spec c) = []"
  using show_spec_chars by (fastforce simp: filter_empty_conv)

lemma commas_show_specs:
  "cs \<noteq> [] \<Longrightarrow> Suc (length (filter (\<lambda>x. x = CHR '','') (show_specs cs))) = length cs"
  by (induction cs rule: show_specs.induct) (simp_all add: no_comma_spec)

lemma NUL_notin_show_specs: "NUL \<notin> set (show_specs cs)"
  using show_spec_chars by (induction cs rule: show_specs.induct) fastforce+

lemma bytes_unit_text: "bytes_unit (range_header_text cs)"
  by (simp add: bytes_unit_def range_header_text_def isspace_def eval_nat_numeral)

lemma requested_ranges_text:
  assumes "cs \<noteq> []" "list_all spec_bounded cs"
  shows "requested_ranges ndebug (range_header_text cs) sz = Ret (map (spec_range sz) cs)"
proof -
  have "skip_space (range_header_text cs @ [NUL]) = Ret (''bytes='' @ show_specs cs @ [NUL])"
    by (simp add: range_header_text_def isspace_def)
  moreover have "drop 6 (''bytes='' @ show_specs cs @ [NUL]) = show_specs cs @ [NUL]" by simp
  moreover have "cstr (show_specs cs @ [NUL]) = show_specs cs"
    using NUL_notin_show_specs by (rule cstr_append_NUL)
  ultimately show ?thesis
    using parse_ranges_show [OF assms] commas_show_specs [OF assms(1)]
    unfolding requested_ranges_def by (simp del: parse_ranges.simps append_Cons)
qed

lemma parse_range_text:
  assumes "cs \<noteq> []" "list_all spec_bounded cs"
  shows "parse_range ndebug (Some (range_header_text cs)) sz =
    Ret (merge_ranges None (qsort_ranges (map (spec_range sz) cs)) (spec_range sz (hd cs)))"
  using requested_ranges_text [OF assms] assms(1)
  by (simp add: parse_range_requested bytes_unit_text hd_map)

lemma parse_range_single:
  assumes "spec_bounded c"
  shows "parse_range ndebug (Some (range_header_text [c])) sz = Ret (spec_range sz c)"
proof -
  have "merge_ranges None [r] r = r" if "range_ok r" for r
    using range_ok_nonempty [OF that] by (cases "r = full_range") (auto simp: full_range_iff)
  moreover have "range_ok (spec_range sz c)"
    by (cases c) (auto simp: normalise_def range_ok_def)
  ultimately show ?thesis
    using parse_range_text [of "[c]"] assms by (simp add: qsort_ranges_def)
qed

end
