(* ===== verification/Range_Properties.thy ===== *)
theory Range_Properties
  imports Range_Format
begin

text \<open>
  What \<open>parse_range\<close> promises the file handler, on every header, on well-formed headers and
  on the malformed ones on which it leaves the string.
\<close>

section \<open>Adjacent ranges\<close>

text \<open>Each range starts where its predecessor ends.\<close>

fun adjacent :: "size_t \<Rightarrow> range list \<Rightarrow> bool" where
  "adjacent e [] = True"
| "adjacent e (r # rs) \<longleftrightarrow> range_start r = e \<and> range_start r < range_end r \<and> adjacent (range_end r) rs"

fun last_end :: "size_t \<Rightarrow> range list \<Rightarrow> size_t" where
  "last_end e [] = e"
| "last_end e (r # rs) = last_end (range_end r) rs"

lemma adjacent_ge: "adjacent e rs \<Longrightarrow> r \<in> set rs \<Longrightarrow> e \<le> range_start r \<and> range_start r < range_end r"
proof (induction rs arbitrary: e)
  case (Cons x xs)
  show ?case
  proof (cases "r = x")
    case False
    with Cons have "range_end x \<le> range_start r \<and> range_start r < range_end r" by auto
    then show ?thesis using Cons.prems(1) by auto
  qed (use Cons.prems in auto)
qed simp

lemma adjacent_sorted: "adjacent e rs \<Longrightarrow> sorted rs"
proof (induction rs arbitrary: e)
  case (Cons r rs)
  have "r \<le> x" if "x \<in> set rs" for x
  proof -
    have "range_start r < range_start x"
      using adjacent_ge [of "range_end r" rs x] that Cons.prems by auto
    then show ?thesis by (cases r; cases x) (auto simp: less_eq_range_def)
  qed
  with Cons show ?case by auto
qed simp

lemma adjacent_chain: "adjacent e rs \<Longrightarrow> e \<noteq> 0 \<or> rs \<noteq> [] \<Longrightarrow> chain None rs"
proof (induction rs arbitrary: e)
  case (Cons r rs)
  have ok: "list_all range_ok rs"
    using adjacent_ge Cons.prems(1) by (fastforce simp: list_all_iff range_ok_def)
  have "r \<noteq> full_range" using Cons.prems by (auto simp: full_range_def)
  moreover have "chain None rs"
    using Cons by (cases rs) auto
  moreover have "\<forall>x \<in> set rs. range_end r \<le> range_start x"
    using adjacent_ge Cons.prems by auto
  ultimately show ?case by (simp add: chain_Some [OF ok])
qed simp

lemma adjacent_merge:
  "range_start p < range_end p \<Longrightarrow> adjacent (range_end p) rs \<Longrightarrow>
     foldl merge_step p rs = Rng (range_start p) (last_end (range_end p) rs)"
proof (induction rs arbitrary: p)
  case (Cons r rs)
  have "merge_step p r = Rng (range_start p) (range_end r)"
    using Cons.prems by (auto simp: merge_step_def)
  then show ?case
    using Cons.prems Cons.IH [of "Rng (range_start p) (range_end r)"] by auto
qed simp

lemma merge_adjacent:
  assumes "adjacent a (r # rs)"
  shows "merge_ranges None (qsort_ranges (r # rs)) r = Rng a (last_end a (r # rs))"
proof -
  have "qsort_ranges (r # rs) = r # rs"
    unfolding qsort_ranges_def by (rule sorted_sort_id [OF adjacent_sorted [OF assms]])
  moreover have "chain None (r # rs)" using adjacent_chain [OF assms] by blast
  moreover have "merge_step r r = r" using assms by (auto simp: merge_step_def)
  moreover have "foldl merge_step r rs = Rng a (last_end a (r # rs))"
    using adjacent_merge [of r rs] assms by auto
  ultimately show ?thesis by (simp only: merge_ranges_eq if_True foldl.simps)
qed

section \<open>Headers that are no byte ranges\<close>

lemma parse_ranges_fault:
  assumes "skip_space p = Ret q" "parse_single_range ndebug q sz = Fault f"
  shows "parse_ranges ndebug sz (Suc n) p = Fault f"
  using assms by simp

lemma parse_range_first_fault:
  assumes "NUL \<notin> set s" "s \<noteq> []" "\<not> isspace (hd s)" "CHR '','' \<notin> set s"
    and f: "parse_single_range ndebug (s @ [NUL]) sz = Fault f"
  shows "parse_range ndebug (Some (''bytes='' @ s)) sz = Fault f"
proof -
  have p: "skip_space ((''bytes='' @ s) @ [NUL]) = Ret (''bytes='' @ s @ [NUL])"
    by (simp add: isspace_def)
  have u: "strncmp (''bytes='' @ s @ [NUL]) ''bytes='' 6 = 0" by (simp add: eval_nat_numeral)
  have d: "drop 6 (''bytes='' @ s @ [NUL]) = s @ [NUL]" by simp
  have q: "skip_space (s @ [NUL]) = Ret (s @ [NUL])" using assms(2,3) by (cases s) auto
  show ?thesis
    unfolding parse_range_def option.case p bindO.simps u d Let_def
    using parse_ranges_fault [OF q f] by simp
qed

section \<open>Properties\<close>

text \<open>
  C17. The range that is served was asked for. When \<open>parse_range\<close> returns, the header was read
  as a list of ranges \<open>rs\<close> (or has another unit, and everything is served). The result is
  \<open>full_range\<close>, that is the whole file, exactly if some specifier is empty or two
  specifiers overlap; otherwise it is a non-empty range of positions each of which some
  specifier requests, and it holds all of the first one.
\<close>

theorem parse_range_sound:
  assumes "parse_range ndebug (Some s) sz = Ret m" and "bytes_unit s"
  shows "\<exists>rs. requested_ranges ndebug s sz = Ret rs \<and> rs \<noteq> [] \<and>
    (m = full_range \<longleftrightarrow> full_range \<in> set rs \<or> (\<exists>x. 1 < requests x rs)) \<and>
    (m \<noteq> full_range \<longrightarrow> range_start m < range_end m \<and>
       (\<forall>x. in_range x m \<longrightarrow> 0 < requests x rs) \<and> (\<forall>x. in_range x (hd rs) \<longrightarrow> in_range x m))"
proof -
  obtain rs where rs: "requested_ranges ndebug s sz = Ret rs"
      "m = merge_ranges None (qsort_ranges rs) (hd rs)"
    using assms by (auto simp: parse_range_requested bindO_Ret_iff)
  then show ?thesis
    using merge_requested [of rs] requested_ranges_ok [OF rs(1)]
    by (auto simp: merge_inv_def requests_pos)
qed

lemma parse_range_sound_witness:
  "\<exists>rs. requested_ranges False ''bytes=0-4,5-9'' 100 = Ret rs \<and>
     (\<forall>x. in_range x (Rng 0 10) \<longrightarrow> 0 < requests x rs)"
proof -
  have "parse_range False (Some ''bytes=0-4,5-9'') 100 = Ret (Rng 0 10)" by code_simp
  moreover have "bytes_unit ''bytes=0-4,5-9''" by code_simp
  ultimately show ?thesis
    using parse_range_sound [of False "''bytes=0-4,5-9''" 100 "Rng 0 10"] by (auto simp: full_range_def)
qed

text \<open>
  C18. Well-formed range headers are read exactly. For the text of any list of specifiers
  (\<open>a-b\<close>, \<open>a-\<close>, \<open>-n\<close>) whose numbers fit \<open>long long\<close>, a last position being less than its
  maximum (C24), every specifier is read as the
  half-open range of its positions, an empty one as the whole file; a single specifier is
  the result.
\<close>

theorem range_header_roundtrip:
  assumes "list_all spec_bounded cs" and "cs \<noteq> []"
  shows "requested_ranges ndebug (range_header_text cs) sz = Ret (map (spec_range sz) cs) \<and>
    (\<exists>m. parse_range ndebug (Some (range_header_text cs)) sz = Ret m \<and>
      (length cs = 1 \<longrightarrow> m = spec_range sz (hd cs)))"
proof -
  have "spec_range sz (hd cs) = m"
    if "length cs = 1" "parse_range ndebug (Some (range_header_text cs)) sz = Ret m" for m
  proof -
    obtain c where c: "cs = [c]" using \<open>length cs = 1\<close> by (auto simp: length_Suc_conv)
    with that(2) parse_range_single [of c ndebug sz] assms(1) show ?thesis by simp
  qed
  then show ?thesis
    using requested_ranges_text [OF assms(2,1), of ndebug sz] parse_range_text [OF assms(2,1), of ndebug sz]
    by auto
qed

lemma range_header_roundtrip_witness:
  "parse_range False (Some ''bytes=-5'') 100 = Ret (Rng 95 100)"
proof -
  have "range_header_text [Last_Bytes 5] = ''bytes=-5''" by code_simp
  then show ?thesis
    using range_header_roundtrip [of "[Last_Bytes 5]" False 100]
    by (simp add: LLONG_MAX_def normalise_def)
qed

text \<open>
  Adjacent ranges in ascending order are merged. If the ranges read from a header follow each
  other without a gap, the result is the one range from the start of the first to the end of
  the last.
\<close>

theorem ascending_ranges_merge:
  assumes "requested_ranges ndebug s sz = Ret (r # rs)" and "bytes_unit s"
    and "adjacent (range_start r) (r # rs)"
  shows "parse_range ndebug (Some s) sz = Ret (Rng (range_start r) (last_end (range_start r) (r # rs)))"
  using assms merge_adjacent [OF assms(3)] by (simp add: parse_range_requested del: merge_ranges.simps)

lemma ascending_ranges_merge_witness:
  "parse_range True (Some ''bytes=0-4,5-9,10-11'') 100 = Ret (Rng 0 12)"
proof -
  have "requested_ranges True ''bytes=0-4,5-9,10-11'' 100 = Ret [Rng 0 5, Rng 5 10, Rng 10 12]"
    "bytes_unit ''bytes=0-4,5-9,10-11''" by code_simp+
  from ascending_ranges_merge [OF this] show ?thesis by simp
qed

text \<open>
  C25. Adjacent ranges are not merged in every order. Three adjacent ranges given from the last to
  the first are read as the last two only, although nothing overlaps: the first of them is
  dropped from the response.
\<close>

theorem descending_ranges_lost:
  assumes "requested_ranges ndebug s sz = Ret [Rng c d, Rng b c, Rng a b]" and "bytes_unit s"
    and "a < b" "b < c" "c < d"
  shows "parse_range ndebug (Some s) sz = Ret (Rng b d)"
proof -
  have "qsort_ranges [Rng c d, Rng b c, Rng a b] = [Rng a b, Rng b c, Rng c d]"
    using assms(3-5)
    by (intro qsort_ranges_unique [symmetric]) (auto simp: add_mset_commute)
  then show ?thesis
    using assms by (auto simp: parse_range_requested)
qed

lemma descending_ranges_lost_witness:
  "parse_range False (Some ''bytes=6-8,3-5,0-2'') 9 = Ret (Rng 3 9)"
proof -
  have "requested_ranges False ''bytes=6-8,3-5,0-2'' 9 = Ret [Rng 6 9, Rng 3 6, Rng 0 3]"
    "bytes_unit ''bytes=6-8,3-5,0-2''" by code_simp+
  from descending_ranges_lost [OF this] show ?thesis by simp
qed

text \<open>
  The end of a range is not limited to the size of the file. A single specifier \<open>a-b\<close> with
  \<open>b\<close> at or after the end of the file is returned as it is, so the range goes past the
  \<open>sz\<close> bytes there are.
\<close>

theorem range_end_unbounded:
  assumes "a \<le> b" "int b < LLONG_MAX" "sz \<le> b"
  shows "\<exists>m. parse_range ndebug (Some (range_header_text [From_To a b])) (of_nat sz) = Ret m \<and>
    range_end m = of_nat (b + 1) \<and> of_nat sz < range_end m"
proof -
  have b: "b + 1 < 2 ^ 64" using assms(2) by (simp add: LLONG_MAX_def)
  have n: "(of_nat x :: size_t) < of_nat (b + 1)" if "x \<le> b" for x
  proof -
    have "unat (of_nat y :: size_t) = y" if "y < 2 ^ 64" for y
      using that by (simp add: unat_of_nat)
    from this [of x] this [of "b + 1"] that b show ?thesis
      by (simp only: word_less_nat_alt)
  qed
  have "spec_range (of_nat sz) (From_To a b) = Rng (of_nat a) (of_nat (b + 1))"
    using n [OF assms(1)] by (auto simp: normalise_def add.commute dest: leD)
  then show ?thesis
    using parse_range_single [of "From_To a b" ndebug "of_nat sz"] assms n [OF assms(3)] by simp
qed

lemma range_end_unbounded_witness:
  "\<exists>m. parse_range True (Some (range_header_text [From_To 0 999])) (of_nat 10) = Ret m \<and>
     of_nat 10 < range_end m"
  using range_end_unbounded [of 0 999 10 True] by (auto simp: LLONG_MAX_def)

text \<open>
  C24. Two range headers that are undefined behaviour. For a header that holds one number without a
  dash (\<open>bytes=5\<close>) a build with assertions aborts, and a release build steps over the terminator
  and reads the byte behind the string. For a header with one range whose last position is
  \<open>LLONG_MAX\<close>, the increment overflows a signed integer. Other specifiers without a dash may do
  no harm in a release build: \<open>bytes=abc\<close> is then read as the whole file.
\<close>

theorem malformed_range_faults:
  assumes "int n \<le> LLONG_MAX"
  shows "parse_range ndebug (Some (''bytes='' @ show_lu n)) sz =
      Fault (if ndebug then Out_Of_Bounds else Assertion_Failed) \<and>
    parse_range ndebug (Some (''bytes='' @ show_lu n @ ''-'' @ show_lu (nat LLONG_MAX))) sz =
      Fault Signed_Overflow \<and>
    parse_range ndebug (Some ''bytes=abc'') 100 =
      (if ndebug then Ret (Rng 0 100) else Fault Assertion_Failed)"
proof (intro conjI)
  have chars: "NUL \<notin> set (show_lu m) \<and> CHR '','' \<notin> set (show_lu m)" for m
    using show_lu_isdigit digit_not_special by blast
  obtain c cs where c: "show_lu n = c # cs" "isdigit c" using show_lu_Cons by blast
  note hd = digit_not_special [OF c(2)]
  have h: "head (show_lu n @ rest) = Ret c" for rest by (simp add: c(1) head_def)
  have "strtoll (show_lu n @ [NUL]) = (int n, [NUL])"
    using assms by (intro strtoll_show_lu) simp_all
  then have "parse_single_range ndebug (show_lu n @ [NUL]) sz =
      Fault (if ndebug then Out_Of_Bounds else Assertion_Failed)"
    using hd h [of "[NUL]"] by (cases ndebug) (simp_all add: parse_single_range_def head_def)
  then show "parse_range ndebug (Some (''bytes='' @ show_lu n)) sz =
      Fault (if ndebug then Out_Of_Bounds else Assertion_Failed)"
    using chars [of n] c hd by (intro parse_range_first_fault) auto
  let ?max = "show_lu (nat LLONG_MAX)"
  obtain d ds where d: "?max = d # ds" "isdigit d" using show_lu_Cons by blast
  have s: "strtoll (show_lu n @ CHR ''-'' # ?max @ [NUL]) = (int n, CHR ''-'' # ?max @ [NUL])"
    using assms by (intro strtoll_show_lu) (simp_all add: isdigit_def)
  have "strtoll (?max @ [NUL]) = (int (nat LLONG_MAX), [NUL])"
    by (intro strtoll_show_lu) (simp_all add: LLONG_MAX_def)
  then have m: "strtoll (?max @ [NUL]) = (LLONG_MAX, [NUL])" by (simp add: LLONG_MAX_def)
  have "parse_single_range ndebug ((show_lu n @ ''-'' @ ?max) @ [NUL]) sz = Fault Signed_Overflow"
    using hd h [of "CHR ''-'' # ?max @ [NUL]"] s m d by (simp add: parse_single_range_def head_def)
  then show "parse_range ndebug (Some (''bytes='' @ show_lu n @ ''-'' @ ?max)) sz = Fault Signed_Overflow"
    using chars [of n] chars [of "nat LLONG_MAX"] c hd
    by (intro parse_range_first_fault) (simp_all del: show_lu_small)
  show "parse_range ndebug (Some ''bytes=abc'') 100 = (if ndebug then Ret (Rng 0 100) else Fault Assertion_Failed)"
  proof -
    have "parse_range True (Some ''bytes=abc'') 100 = Ret (Rng 0 100)"
      "parse_range False (Some ''bytes=abc'') 100 = Fault Assertion_Failed" by code_simp+
    then show ?thesis by (cases ndebug) simp_all
  qed
qed

lemma malformed_range_faults_witness:
  "parse_range True (Some ''bytes=5'') 100 = Fault Out_Of_Bounds"
proof -
  have "show_lu 5 = ''5''" by code_simp
  then show ?thesis using malformed_range_faults [of 5 True 100] by (simp add: LLONG_MAX_def)
qed

end
