(* ===== verification/Auth_Code.thy ===== *)
theory Auth_Code
  imports C_Strings "HOL-Library.Word"
begin

text \<open>
  The authorization code of \<open>server.c\<close> (\<open>get_authorization_code\<close>): 192 random bits become
  32 characters of a 64-letter alphabet. The bytes \<open>getrandom\<close> delivers are a parameter,
  as the list of the three \<open>uint64_t\<close> they fill.
\<close>

unbundle bit_operations_syntax

section \<open>Model\<close>

type_synonym uint64 = "64 word"

definition AuthorizationCodeLength :: nat where "AuthorizationCodeLength = 32"

definition code_map :: "string" where
  "code_map = ''0123456789ABCDEF'' @ ''WXYZabcdefghijkl'' @ ''GHIJKLMNOPQRSTUV'' @ ''mnopqrstuvwxyz~@''"

definition map_at :: "uint64 \<Rightarrow> char outcome" where
  "map_at i = rd code_map (unat i)"

text \<open>The inner loop: the low six bits, then shift; returns what is left of the word.\<close>

fun emit_digits :: "nat \<Rightarrow> uint64 \<Rightarrow> (string \<times> uint64) outcome" where
  "emit_digits 0 w = Ret ([], w)"
| "emit_digits (Suc j) w =
     bindO (map_at (w AND 0x3f)) (\<lambda>c.
     bindO (emit_digits j (drop_bit 6 w)) (\<lambda>(cs, w').
       Ret (c # cs, w')))"

fun emit_words :: "uint64 list \<Rightarrow> (string \<times> uint64 list) outcome" where
  "emit_words [] = Ret ([], [])"
| "emit_words (w # ws) =
     bindO (emit_digits 10 w) (\<lambda>(cs, w').
     bindO (emit_words ws) (\<lambda>(ds, ws').
       Ret (cs @ ds, w' # ws')))"

text \<open>The second loop combines the four bits left of each of three words.\<close>

fun emit_rest :: "uint64 list \<Rightarrow> string outcome" where
  "emit_rest [] = Ret []"
| "emit_rest (a # b # c # ws) =
     bindO (map_at (a OR push_bit 2 (b AND 0xc))) (\<lambda>x.
     bindO (map_at (c OR push_bit 4 (b AND 0x3))) (\<lambda>y.
     bindO (emit_rest ws) (\<lambda>zs. Ret (x # y # zs))))"
| "emit_rest _ = Fault Out_Of_Bounds"

definition generate_code :: "bool \<Rightarrow> uint64 list \<Rightarrow> string outcome" where
  "generate_code ndebug random =
     bindO (emit_words random) (\<lambda>(cs, rest).
     bindO (emit_rest rest) (\<lambda>ds.
     bindO (c_assert ndebug (length (cs @ ds) = AuthorizationCodeLength)) (\<lambda>_.
       Ret (cs @ ds))))"

text \<open>
  The \<open>static\<close> variables \<open>initialize\<close> and \<open>code\<close>: \<open>None\<close> before the first call. The
  result is the code and the new state.
\<close>

definition get_authorization_code ::
  "bool \<Rightarrow> uint64 list \<Rightarrow> string option \<Rightarrow> (string \<times> string option) outcome" where
  "get_authorization_code ndebug random st =
     (case st of
        Some code \<Rightarrow> Ret (code, st)
      | None \<Rightarrow> bindO (generate_code ndebug random) (\<lambda>code. Ret (code, Some code)))"

section \<open>Every index is in the table\<close>

lemma length_code_map [simp]: "length code_map = 64"
  by (simp add: code_map_def)

lemma distinct_code_map: "distinct code_map"
  by (simp add: code_map_def)

lemma NUL_notin_code_map: "NUL \<notin> set code_map"
  by (simp add: code_map_def)

lemma unat_less_64:
  assumes "\<And>n. bit (x :: uint64) n \<Longrightarrow> n < 6"
  shows "unat x < 64"
proof -
  have "x = take_bit 6 x" using assms by (auto intro!: bit_eqI simp: bit_take_bit_iff)
  then have "unat x = take_bit 6 (unat x)" by (metis unsigned_take_bit_eq)
  also have "\<dots> < 2 ^ 6" by (rule take_bit_nat_less_exp)
  finally show ?thesis by simp
qed

lemma mask_6: "(0x3f :: uint64) = mask 6"
  by (simp add: mask_eq_exp_minus_1)

lemma low_bits: "w AND 0x3f = take_bit 6 (w :: uint64)"
  by (simp add: mask_6 take_bit_eq_mask)

lemma map_at_low: "\<exists>c. map_at (w AND 0x3f) = Ret c \<and> c \<in> set code_map"
proof -
  have "unat (w AND 0x3f) < 64"
    unfolding low_bits by (rule unat_less_64) (simp add: bit_take_bit_iff)
  then show ?thesis by (simp add: map_at_def)
qed

lemma map_at_inj:
  assumes "map_at x = Ret c" "map_at y = Ret c"
  shows "x = y"
proof -
  have "unat x = unat y"
    using assms distinct_code_map unfolding map_at_def rd_Ret_iff
    by (metis nth_eq_iff_index_eq)
  then show ?thesis by (rule unsigned_word_eqI)
qed

lemma emit_digits_total:
  "\<exists>cs. emit_digits j w = Ret (cs, drop_bit (6 * j) w) \<and> length cs = j \<and> set cs \<subseteq> set code_map"
proof (induction j arbitrary: w)
  case (Suc j)
  obtain c where "map_at (w AND 0x3f) = Ret c" "c \<in> set code_map" using map_at_low by blast
  moreover obtain cs where "emit_digits j (drop_bit 6 w) = Ret (cs, drop_bit (6 * j) (drop_bit 6 w))"
      "length cs = j" "set cs \<subseteq> set code_map"
    using Suc.IH by blast
  ultimately show ?case by (simp add: drop_bit_drop_bit add.commute)
qed simp

text \<open>A word is determined by the digits and the bits left.\<close>

lemma word_split_eq:
  assumes "take_bit 6 w = take_bit 6 w'" "drop_bit 6 w = drop_bit 6 (w' :: uint64)"
  shows "w = w'"
  using assms by (metis bits_ident)

lemma emit_digits_inj:
  "emit_digits j w = Ret (cs, r) \<Longrightarrow> emit_digits j w' = Ret (cs, r) \<Longrightarrow> w = w'"
proof (induction j arbitrary: w w' cs)
  case (Suc j)
  obtain c ds where cs: "cs = c # ds" and w: "map_at (w AND 0x3f) = Ret c"
      "emit_digits j (drop_bit 6 w) = Ret (ds, r)"
    using Suc.prems(1) unfolding emit_digits.simps bindO_Ret_iff by auto
  have w': "map_at (w' AND 0x3f) = Ret c" "emit_digits j (drop_bit 6 w') = Ret (ds, r)"
    using Suc.prems(2) cs unfolding emit_digits.simps bindO_Ret_iff by auto
  have "drop_bit 6 w = drop_bit 6 w'" using Suc.IH w(2) w'(2) by blast
  moreover have "w AND 0x3f = w' AND 0x3f" using map_at_inj w(1) w'(1) by blast
  ultimately show ?case by (metis low_bits word_split_eq)
qed simp

section \<open>The bits left over\<close>

text \<open>The two indices made of the four bits each that remain of three words.\<close>

definition mix_high :: "uint64 \<Rightarrow> uint64 \<Rightarrow> uint64" where
  "mix_high a b = a OR push_bit 2 (b AND 0xc)"

definition mix_low :: "uint64 \<Rightarrow> uint64 \<Rightarrow> uint64" where
  "mix_low c b = c OR push_bit 4 (b AND 0x3)"

definition nibble :: "uint64 \<Rightarrow> bool" where
  "nibble w \<longleftrightarrow> (\<forall>n. bit w n \<longrightarrow> n < 4)"

lemma nibble_rest: "nibble (drop_bit 60 w)"
  by (auto simp: nibble_def bit_drop_bit_eq dest!: bit_imp_le_length)

lemma bit_12: "bit (0xc :: uint64) n \<longleftrightarrow> n = 2 \<or> n = 3"
proof -
  have "(0xc :: uint64) = push_bit 2 (mask 2)" by (simp add: mask_eq_exp_minus_1)
  then show ?thesis by (simp only: bit_push_bit_iff bit_mask_iff) auto
qed

lemma bit_3: "bit (0x3 :: uint64) n \<longleftrightarrow> n = 0 \<or> n = 1"
proof -
  have "(0x3 :: uint64) = mask 2" by (simp add: mask_eq_exp_minus_1)
  then show ?thesis by (simp only: bit_mask_iff) auto
qed

lemma bit_mix_high: "bit (mix_high a b) n \<longleftrightarrow> bit a n \<or> (n = 4 \<and> bit b 2) \<or> (n = 5 \<and> bit b 3)"
  unfolding mix_high_def bit_or_iff bit_push_bit_iff bit_and_iff bit_12 by auto

lemma bit_mix_low: "bit (mix_low c b) n \<longleftrightarrow> bit c n \<or> (n = 4 \<and> bit b 0) \<or> (n = 5 \<and> bit b 1)"
  unfolding mix_low_def bit_or_iff bit_push_bit_iff bit_and_iff bit_3 by auto

lemma mix_bound: "nibble a \<Longrightarrow> unat (mix_high a b) < 64" "nibble a \<Longrightarrow> unat (mix_low a b) < 64"
  by (rule unat_less_64; force simp: bit_mix_high bit_mix_low nibble_def)+

lemma mix_inj:
  assumes "nibble a" "nibble b" "nibble c" "nibble a'" "nibble b'" "nibble c'"
    and h: "mix_high a b = mix_high a' b'" and l: "mix_low c b = mix_low c' b'"
  shows "a = a' \<and> b = b' \<and> c = c'"
proof -
  have h': "bit (mix_high a b) n = bit (mix_high a' b') n" for n using h by simp
  have l': "bit (mix_low c b) n = bit (mix_low c' b') n" for n using l by simp
  have hi: "\<not> bit x n" if "nibble x" "4 \<le> n" for x n using that by (auto simp: nibble_def)
  have "a = a'"
  proof (rule bit_eqI)
    fix n show "bit a n \<longleftrightarrow> bit a' n"
      using h' [of n] hi [OF assms(1), of n] hi [OF assms(4), of n]
      by (cases "4 \<le> n") (auto simp: bit_mix_high)
  qed
  moreover have "c = c'"
  proof (rule bit_eqI)
    fix n show "bit c n \<longleftrightarrow> bit c' n"
      using l' [of n] hi [OF assms(3), of n] hi [OF assms(6), of n]
      by (cases "4 \<le> n") (auto simp: bit_mix_low)
  qed
  moreover have "b = b'"
  proof (rule bit_eqI)
    fix n
    have "n = 0 \<or> n = 1 \<or> n = 2 \<or> n = 3" if "n < (4 :: nat)" for n :: nat using that by linarith
    moreover have "bit b 2 = bit b' 2" "bit b 3 = bit b' 3"
      using h' [of 4] h' [of 5] hi [OF assms(1)] hi [OF assms(4)] unfolding bit_mix_high by auto
    moreover have "bit b 0 = bit b' 0" "bit b 1 = bit b' 1"
      using l' [of 4] l' [of 5] hi [OF assms(3)] hi [OF assms(6)] unfolding bit_mix_low by auto
    ultimately show "bit b n \<longleftrightarrow> bit b' n"
      using hi assms(2,5) by (metis not_less)
  qed
  ultimately show ?thesis by simp
qed

section \<open>The whole code\<close>

lemma emit_words_3:
  "\<exists>s0 s1 s2. emit_words [b0, b1, b2] =
       Ret (s0 @ s1 @ s2, [drop_bit 60 b0, drop_bit 60 b1, drop_bit 60 b2]) \<and>
     length s0 = 10 \<and> length s1 = 10 \<and> length s2 = 10 \<and> set (s0 @ s1 @ s2) \<subseteq> set code_map \<and>
     emit_digits 10 b0 = Ret (s0, drop_bit 60 b0) \<and> emit_digits 10 b1 = Ret (s1, drop_bit 60 b1) \<and>
     emit_digits 10 b2 = Ret (s2, drop_bit 60 b2)"
  using emit_digits_total [of 10 b0] emit_digits_total [of 10 b1] emit_digits_total [of 10 b2]
  by (auto simp del: emit_digits.simps)

lemma generate_code_run:
  "\<exists>s0 s1 s2 x y. generate_code ndebug [b0, b1, b2] = Ret (s0 @ s1 @ s2 @ [x, y]) \<and>
     length s0 = 10 \<and> length s1 = 10 \<and> length s2 = 10 \<and>
     set (s0 @ s1 @ s2 @ [x, y]) \<subseteq> set code_map \<and>
     emit_digits 10 b0 = Ret (s0, drop_bit 60 b0) \<and> emit_digits 10 b1 = Ret (s1, drop_bit 60 b1) \<and>
     emit_digits 10 b2 = Ret (s2, drop_bit 60 b2) \<and>
     map_at (mix_high (drop_bit 60 b0) (drop_bit 60 b1)) = Ret x \<and>
     map_at (mix_low (drop_bit 60 b2) (drop_bit 60 b1)) = Ret y"
proof -
  have in_map: "\<exists>x. map_at i = Ret x \<and> x \<in> set code_map" if "unat i < 64" for i
    using that by (simp add: map_at_def)
  obtain x where x: "map_at (mix_high (drop_bit 60 b0) (drop_bit 60 b1)) = Ret x" "x \<in> set code_map"
    using in_map [OF mix_bound(1) [OF nibble_rest]] by blast
  obtain y where y: "map_at (mix_low (drop_bit 60 b2) (drop_bit 60 b1)) = Ret y" "y \<in> set code_map"
    using in_map [OF mix_bound(2) [OF nibble_rest]] by blast
  obtain s0 s1 s2 where s: "emit_words [b0, b1, b2] =
      Ret (s0 @ s1 @ s2, [drop_bit 60 b0, drop_bit 60 b1, drop_bit 60 b2])"
    "length s0 = 10" "length s1 = 10" "length s2 = 10" "set (s0 @ s1 @ s2) \<subseteq> set code_map"
    "emit_digits 10 b0 = Ret (s0, drop_bit 60 b0)" "emit_digits 10 b1 = Ret (s1, drop_bit 60 b1)"
    "emit_digits 10 b2 = Ret (s2, drop_bit 60 b2)"
    using emit_words_3 by blast
  have "generate_code ndebug [b0, b1, b2] = Ret (s0 @ s1 @ s2 @ [x, y])"
    using s x y unfolding generate_code_def
    by (simp add: mix_high_def mix_low_def AuthorizationCodeLength_def del: emit_words.simps)
  then show ?thesis using s x y by fastforce
qed

lemma generate_code_inj:
  assumes "generate_code ndebug [a0, a1, a2] = generate_code ndebug [b0, b1, b2]"
  shows "[a0, a1, a2] = [b0, b1, b2]"
proof -
  obtain s0 s1 s2 x y where a: "generate_code ndebug [a0, a1, a2] = Ret (s0 @ s1 @ s2 @ [x, y])"
      "length s0 = 10" "length s1 = 10" "length s2 = 10"
      "emit_digits 10 a0 = Ret (s0, drop_bit 60 a0)" "emit_digits 10 a1 = Ret (s1, drop_bit 60 a1)"
      "emit_digits 10 a2 = Ret (s2, drop_bit 60 a2)"
      "map_at (mix_high (drop_bit 60 a0) (drop_bit 60 a1)) = Ret x"
      "map_at (mix_low (drop_bit 60 a2) (drop_bit 60 a1)) = Ret y"
    using generate_code_run by blast
  obtain t0 t1 t2 u v where b: "generate_code ndebug [b0, b1, b2] = Ret (t0 @ t1 @ t2 @ [u, v])"
      "length t0 = 10" "length t1 = 10" "length t2 = 10"
      "emit_digits 10 b0 = Ret (t0, drop_bit 60 b0)" "emit_digits 10 b1 = Ret (t1, drop_bit 60 b1)"
      "emit_digits 10 b2 = Ret (t2, drop_bit 60 b2)"
      "map_at (mix_high (drop_bit 60 b0) (drop_bit 60 b1)) = Ret u"
      "map_at (mix_low (drop_bit 60 b2) (drop_bit 60 b1)) = Ret v"
    using generate_code_run by blast
  have eq: "s0 = t0" "s1 = t1" "s2 = t2" "x = u" "y = v" using assms a(1-4) b(1-4) by auto
  have "drop_bit 60 a0 = drop_bit 60 b0 \<and> drop_bit 60 a1 = drop_bit 60 b1 \<and>
      drop_bit 60 a2 = drop_bit 60 b2"
    using a(8,9) b(8,9) eq by (intro mix_inj nibble_rest) (auto intro: map_at_inj)
  with a(5-7) b(5-7) eq show ?thesis by (metis emit_digits_inj)
qed

section \<open>Properties\<close>

text \<open>
  C21. The authorization code is generated safely, once, and keeps all the randomness. From the
  three words \<open>getrandom\<close> fills, \<open>get_authorization_code\<close> computes 32 characters of the
  64-letter alphabet, none of them a NUL, without reading outside the alphabet and with its
  closing assertion true; every later call returns the same code whatever is random then;
  and different random words give different codes, so the code has the full 192 bits.
\<close>

theorem authorization_code_correct:
  "\<exists>code. get_authorization_code ndebug [w0, w1, w2] None = Ret (code, Some code) \<and>
     length code = AuthorizationCodeLength \<and> set code \<subseteq> set code_map \<and> NUL \<notin> set code \<and>
     get_authorization_code ndebug random (Some code) = Ret (code, Some code) \<and>
     (get_authorization_code ndebug [v0, v1, v2] None = Ret (code, Some code) \<longleftrightarrow>
        [v0, v1, v2] = [w0, w1, w2])"
proof -
  obtain code where code: "generate_code ndebug [w0, w1, w2] = Ret code"
      "length code = 32" "set code \<subseteq> set code_map"
    using generate_code_run [of ndebug w0 w1 w2] by fastforce
  have "get_authorization_code ndebug [v0, v1, v2] None = Ret (code, Some code) \<longleftrightarrow>
      generate_code ndebug [v0, v1, v2] = generate_code ndebug [w0, w1, w2]"
    by (auto simp: get_authorization_code_def bindO_Ret_iff code(1))
  moreover have "\<dots> \<longleftrightarrow> [v0, v1, v2] = [w0, w1, w2]"
    using generate_code_inj by auto
  ultimately show ?thesis
    using code NUL_notin_code_map
    by (intro exI [of _ code]) (auto simp: get_authorization_code_def AuthorizationCodeLength_def)
qed

end
