(* ===== verification/Common.thy ===== *)
theory Common
  imports C_Strings "HOL-Library.Word"
begin

text \<open>
  \<open>common.c\<close>: the level filter of the log and the address helpers.

  A log level is an \<open>enum\<close> without negative enumerators, an unsigned 32-bit integer; the
  current level is the state \<open>log_level()\<close> points to. \<open>vfprintf\<close> has already formatted the
  message, and \<open>stamp\<close> is the time \<open>clock()\<close> gives, formatted. \<open>inet_ntop\<close> is a parameter.
\<close>

section \<open>Log levels\<close>

type_synonym log_level = "32 word"

definition LOGGING_LOG_LEVEL_FULL :: log_level where "LOGGING_LOG_LEVEL_FULL = 0"
definition LOGGING_LOG_LEVEL_TRACE :: log_level where "LOGGING_LOG_LEVEL_TRACE = 1"
definition LOGGING_LOG_LEVEL_DEBUG :: log_level where "LOGGING_LOG_LEVEL_DEBUG = 2"
definition LOGGING_LOG_LEVEL_INFORMATION :: log_level where "LOGGING_LOG_LEVEL_INFORMATION = 3"
definition LOGGING_LOG_LEVEL_WARNING :: log_level where "LOGGING_LOG_LEVEL_WARNING = 4"
definition LOGGING_LOG_LEVEL_ERROR :: log_level where "LOGGING_LOG_LEVEL_ERROR = 5"
definition LOGGING_LOG_LEVEL_FATAL :: log_level where "LOGGING_LOG_LEVEL_FATAL = 6"
definition LOGGING_LOG_LEVEL_OFF :: log_level where "LOGGING_LOG_LEVEL_OFF = 7"

lemmas log_level_defs =
  LOGGING_LOG_LEVEL_FULL_def LOGGING_LOG_LEVEL_TRACE_def LOGGING_LOG_LEVEL_DEBUG_def
  LOGGING_LOG_LEVEL_INFORMATION_def LOGGING_LOG_LEVEL_WARNING_def LOGGING_LOG_LEVEL_ERROR_def
  LOGGING_LOG_LEVEL_FATAL_def LOGGING_LOG_LEVEL_OFF_def

text \<open>The level before the first \<open>logging_set_level\<close>; \<open>configured\<close> is \<open>LOGGING_LOG_LEVEL\<close>.\<close>

definition initial_log_level :: "log_level option \<Rightarrow> log_level" where
  "initial_log_level configured =
     (case configured of Some l \<Rightarrow> l | None \<Rightarrow> LOGGING_LOG_LEVEL_INFORMATION)"

definition ESC :: char where "ESC = CHR 0x1B"

definition level_names :: "cstring list" where
  "level_names = [''PLACEHOLDER'', ''TRACE'', ''DEBUG'', ''INFOR'', ''WARNI'', ''ERROR'', ''FATAL'']"

definition before_output :: "cstring list" where
  "before_output =
     [''PLACEHOLDER'', ESC # ''[2m'', '''', ESC # ''[36m'', ESC # ''[33m'', ESC # ''[35m'', ESC # ''[1;4;31m'']"

definition after_output :: "cstring list" where
  "after_output =
     [''PLACEHOLDER'', ESC # ''[0m'', ESC # ''[0m'', ESC # ''[0m'', ESC # ''[0m'', ESC # ''[0m'', ESC # ''[0m'']"

text \<open>What is written to \<open>stderr\<close>; the assertions compare the three table sizes with the enum.\<close>

definition logging_implementation ::
  "bool \<Rightarrow> string \<Rightarrow> log_level \<Rightarrow> log_level \<Rightarrow> string \<Rightarrow> string outcome" where
  "logging_implementation ndebug stamp current level msg =
     (if current > level then Ret []
      else
        bindO (c_assert ndebug (length level_names = unat LOGGING_LOG_LEVEL_OFF)) (\<lambda>_.
        bindO (c_assert ndebug (length before_output = unat LOGGING_LOG_LEVEL_OFF)) (\<lambda>_.
        bindO (c_assert ndebug (length after_output = unat LOGGING_LOG_LEVEL_OFF)) (\<lambda>_.
        bindO (rd before_output (unat level)) (\<lambda>b.
        bindO (rd level_names (unat level)) (\<lambda>name.
        bindO (rd after_output (unat level)) (\<lambda>a.
          Ret (b @ ''['' @ stamp @ '']['' @ name @ ''] '' @ msg @ a))))))))"

definition logging_trace :: "bool \<Rightarrow> string \<Rightarrow> log_level \<Rightarrow> string \<Rightarrow> string outcome" where
  "logging_trace ndebug stamp current = logging_implementation ndebug stamp current LOGGING_LOG_LEVEL_TRACE"
definition logging_debug :: "bool \<Rightarrow> string \<Rightarrow> log_level \<Rightarrow> string \<Rightarrow> string outcome" where
  "logging_debug ndebug stamp current = logging_implementation ndebug stamp current LOGGING_LOG_LEVEL_DEBUG"
definition logging_information :: "bool \<Rightarrow> string \<Rightarrow> log_level \<Rightarrow> string \<Rightarrow> string outcome" where
  "logging_information ndebug stamp current =
     logging_implementation ndebug stamp current LOGGING_LOG_LEVEL_INFORMATION"
definition logging_warning :: "bool \<Rightarrow> string \<Rightarrow> log_level \<Rightarrow> string \<Rightarrow> string outcome" where
  "logging_warning ndebug stamp current = logging_implementation ndebug stamp current LOGGING_LOG_LEVEL_WARNING"
definition logging_error :: "bool \<Rightarrow> string \<Rightarrow> log_level \<Rightarrow> string \<Rightarrow> string outcome" where
  "logging_error ndebug stamp current = logging_implementation ndebug stamp current LOGGING_LOG_LEVEL_ERROR"
definition logging_fatal :: "bool \<Rightarrow> string \<Rightarrow> log_level \<Rightarrow> string \<Rightarrow> string outcome" where
  "logging_fatal ndebug stamp current = logging_implementation ndebug stamp current LOGGING_LOG_LEVEL_FATAL"

text \<open>The first comparison is of an unsigned number with 0.\<close>

definition logging_set_level :: "log_level \<Rightarrow> log_level \<Rightarrow> log_level" where
  "logging_set_level level current =
     (if level < LOGGING_LOG_LEVEL_FULL \<or> level > LOGGING_LOG_LEVEL_OFF then current else level)"

text \<open>The level a \<open>long\<close> is converted to, as in \<open>logging_set_level(strtol(...))\<close>.\<close>

definition level_of_long :: "int \<Rightarrow> log_level" where
  "level_of_long v = word_of_int v"

section \<open>Lemmas\<close>

lemma logging_implementation_level:
  assumes "level < LOGGING_LOG_LEVEL_OFF"
  shows "\<exists>out. logging_implementation ndebug stamp current level msg = Ret out \<and>
    (out = [] \<longleftrightarrow> level < current) \<and>
    (current \<le> level \<longrightarrow> (\<exists>b a. out = b @ ''['' @ stamp @ '']['' @ level_names ! unat level @ ''] '' @ msg @ a))"
proof -
  have "unat level < 7"
    using assms by (simp add: LOGGING_LOG_LEVEL_OFF_def word_less_nat_alt)
  then have "unat level < length level_names" "unat level < length before_output"
      "unat level < length after_output"
    by (simp_all add: level_names_def before_output_def after_output_def)
  moreover have "length level_names = unat LOGGING_LOG_LEVEL_OFF"
      "length before_output = unat LOGGING_LOG_LEVEL_OFF" "length after_output = unat LOGGING_LOG_LEVEL_OFF"
    by (simp_all add: level_names_def before_output_def after_output_def LOGGING_LOG_LEVEL_OFF_def)
  ultimately show ?thesis
    by (cases "level < current") (auto simp: logging_implementation_def not_less)
qed

lemma logging_set_level_bound:
  "current \<le> LOGGING_LOG_LEVEL_OFF \<Longrightarrow> logging_set_level level current \<le> LOGGING_LOG_LEVEL_OFF"
  by (auto simp: logging_set_level_def not_less)

section \<open>Addresses\<close>

datatype address_family = AF_INET | AF_INET6 | AF_OTHER nat

text \<open>
  A socket address: its family, the two bytes after it (the port in network order, for both
  families), and the address bytes that \<open>inet_ntop\<close> prints.
\<close>

record socket_address =
  ss_family :: address_family
  port_high :: nat
  port_low :: nat
  host_bytes :: "nat list"

text \<open>
  The \<open>uint16_t\<close> read at the port on a little-endian machine, and \<open>ntohs\<close>.
\<close>

definition load_port :: "socket_address \<Rightarrow> 16 word" where
  "load_port a = of_nat (port_high a mod 256) + 256 * of_nat (port_low a mod 256)"

definition ntohs :: "16 word \<Rightarrow> 16 word" where
  "ntohs w = push_bit 8 w + drop_bit 8 w"

definition get_port :: "socket_address \<Rightarrow> 16 word" where
  "get_port a = ntohs (load_port a)"

text \<open>\<open>inet_ntop\<close> as the code relies on it: at most 45 characters, none of them a NUL.\<close>

definition INET6_ADDRSTRLEN :: nat where "INET6_ADDRSTRLEN = 46"

definition inet_ntop_ok :: "(address_family \<Rightarrow> nat list \<Rightarrow> cstring) \<Rightarrow> bool" where
  "inet_ntop_ok ntop \<longleftrightarrow> (\<forall>f bs. length (ntop f bs) < INET6_ADDRSTRLEN \<and> NUL \<notin> set (ntop f bs))"

definition get_address ::
  "(address_family \<Rightarrow> nat list \<Rightarrow> cstring) \<Rightarrow> socket_address \<Rightarrow> cstring" where
  "get_address ntop a = ntop (ss_family a) (host_bytes a)"

lemma get_port_value:
  assumes "port_high a < 256" "port_low a < 256"
  shows "get_port a = of_nat (port_high a * 256 + port_low a)"
proof -
  have w: "load_port a = of_nat (port_high a + 256 * port_low a)"
    using assms by (simp add: load_port_def)
  have "port_high a + 256 * port_low a < 2 ^ 16" using assms by simp
  then have u: "unat (load_port a) = port_high a + 256 * port_low a"
    unfolding w unat_of_nat by simp
  have "drop_bit 8 (load_port a) = of_nat (port_low a)"
  proof (rule unsigned_word_eqI)
    show "unat (drop_bit 8 (load_port a)) = unat (of_nat (port_low a) :: 16 word)"
      unfolding unat_drop_bit_eq u unat_of_nat using assms by (simp add: drop_bit_eq_div)
  qed
  moreover have "push_bit 8 (load_port a) = of_nat (port_high a * 256)"
  proof -
    have z: "(65536 :: 16 word) = 0" by simp
    show ?thesis unfolding w by (simp add: push_bit_eq_mult algebra_simps z)
  qed
  ultimately show ?thesis by (simp add: get_port_def ntohs_def)
qed

section \<open>Properties\<close>

text \<open>
  C28. The log filter. Start from a valid level and let any sequence of numbers be requested through
  \<open>logging_set_level(strtol(...))\<close>: the current level is always a valid one; a message of any
  level below \<open>OFF\<close> is then logged without reading outside the three tables and without a
  failing assertion, it is dropped exactly if its level is below the current one, and
  otherwise the output is the message after the stamp and the name of its level.
\<close>

theorem log_level_filter:
  fixes requests :: "int list" and start level :: log_level
  assumes "start \<le> LOGGING_LOG_LEVEL_OFF" "level < LOGGING_LOG_LEVEL_OFF"
  defines "current \<equiv> fold (\<lambda>v. logging_set_level (level_of_long v)) requests start"
  shows "current \<le> LOGGING_LOG_LEVEL_OFF \<and>
    (\<exists>out. logging_implementation ndebug stamp current level msg = Ret out \<and>
       (out = [] \<longleftrightarrow> level < current) \<and>
       (current \<le> level \<longrightarrow>
          (\<exists>b a. out = b @ ''['' @ stamp @ '']['' @ level_names ! unat level @ ''] '' @ msg @ a)))"
proof -
  have bound: "fold (\<lambda>v. logging_set_level (level_of_long v)) vs l \<le> LOGGING_LOG_LEVEL_OFF"
    if "l \<le> LOGGING_LOG_LEVEL_OFF" for vs and l :: log_level
    using that by (induction vs arbitrary: l) (simp_all add: logging_set_level_bound)
  have "current \<le> LOGGING_LOG_LEVEL_OFF"
    unfolding current_def by (rule bound [OF assms(1)])
  then show ?thesis
    by (rule conjI [OF _ logging_implementation_level [OF assms(2)]])
qed

lemma log_level_filter_witness:
  "logging_implementation False ''t'' (fold (\<lambda>v. logging_set_level (level_of_long v)) [4, - 1, 99] 3) 3 ''m'' =
     Ret [] \<and>
   fold (\<lambda>v. logging_set_level (level_of_long v)) [4, - 1, 99] 3 \<le> LOGGING_LOG_LEVEL_OFF"
  using log_level_filter [of 3 3 "[4, - 1, 99]" False "''t''" "''m''"]
  by (simp add: log_level_defs logging_set_level_def level_of_long_def)

end
