(* ===== verification/Transport.thy ===== *)
theory Transport
  imports Common
begin

text \<open>
  The two transports of a connection (\<open>tcp_connection.c\<close>, \<open>tls_connection.c\<close>): plain sockets,
  and TLS sessions with their state machine. The socket calls of the kernel and the GnuTLS
  library are parameters (the record \<open>net\<close>); \<open>'w\<close> is the state of the outside world. A session
  is named by the socket it is bound to.

  The contract between a transport and the connection handler is given by the locales
  \<open>byte_sink\<close> and \<open>byte_source\<close>.
\<close>

section \<open>The outside world\<close>

text \<open>\<open>EWOULDBLOCK\<close> is the same number as \<open>EAGAIN\<close>; \<open>E_None\<close> is \<open>errno == 0\<close>.\<close>

datatype errno = EAGAIN | EINTR | EBADF | E_None | E_Other int

text \<open>The return codes the code distinguishes; all but the first are negative.\<close>

datatype gnutls_code =
    GNUTLS_E_SUCCESS
  | GNUTLS_E_AGAIN
  | GNUTLS_E_INTERRUPTED
  | GNUTLS_E_WARNING_ALERT_RECEIVED
  | GNUTLS_E_FATAL_ALERT_RECEIVED
  | GNUTLS_E_OTHER int

text \<open>A call that transfers bytes: a size (with the bytes, on input) or an error.\<close>

type_synonym ('e, 'a) transfer = "'e + 'a"

text \<open>\<open>net_close\<close> is the effect of \<open>close\<close> on the world; the code ignores its result.\<close>

record 'w net =
  net_recv :: "int \<Rightarrow> nat \<Rightarrow> 'w \<Rightarrow> (errno, string) transfer \<times> 'w"
  net_send :: "int \<Rightarrow> string \<Rightarrow> 'w \<Rightarrow> (errno, nat) transfer \<times> 'w"
  gnutls_handshake :: "int \<Rightarrow> 'w \<Rightarrow> gnutls_code \<times> 'w"
  gnutls_record_recv :: "int \<Rightarrow> nat \<Rightarrow> 'w \<Rightarrow> (gnutls_code, string) transfer \<times> 'w"
  gnutls_record_send :: "int \<Rightarrow> string \<Rightarrow> 'w \<Rightarrow> (gnutls_code, nat) transfer \<times> 'w"
  gnutls_bye :: "int \<Rightarrow> 'w \<Rightarrow> gnutls_code \<times> 'w"
  net_close :: "int \<Rightarrow> 'w \<Rightarrow> 'w"

section \<open>TLS\<close>

datatype tls_state =
    TLS_STATE_Initialized
  | TLS_STATE_Handshaking
  | TLS_STATE_Established
  | TLS_STATE_Failed

definition do_handshake :: "'w net \<Rightarrow> int \<Rightarrow> tls_state \<times> 'w \<Rightarrow> gnutls_code \<times> tls_state \<times> 'w" where
  "do_handshake net fd s =
     (case s of (st, w) \<Rightarrow>
        let (result, w') = gnutls_handshake net fd w
        in (result,
            (if result = GNUTLS_E_SUCCESS then TLS_STATE_Established
             else if result = GNUTLS_E_FATAL_ALERT_RECEIVED then TLS_STATE_Failed
             else st),
            w'))"

fun set_errno :: "gnutls_code \<Rightarrow> errno" where
  "set_errno GNUTLS_E_AGAIN = EAGAIN"
| "set_errno GNUTLS_E_WARNING_ALERT_RECEIVED = EAGAIN"
| "set_errno GNUTLS_E_INTERRUPTED = EINTR"
| "set_errno GNUTLS_E_FATAL_ALERT_RECEIVED = EBADF"
| "set_errno _ = E_None"

definition tls_recv_send ::
  "'w net \<Rightarrow> int \<Rightarrow> ('w \<Rightarrow> (gnutls_code, 'a) transfer \<times> 'w) \<Rightarrow> tls_state \<times> 'w \<Rightarrow>
     (errno, 'a) transfer \<times> tls_state \<times> 'w" where
  "tls_recv_send net fd operation s =
     (if fst s = TLS_STATE_Failed then (Inl EBADF, s)
      else
        let (result, s1) =
              (if fst s = TLS_STATE_Initialized \<or> fst s = TLS_STATE_Handshaking
               then do_handshake net fd s else (GNUTLS_E_SUCCESS, s))
        in if result \<noteq> GNUTLS_E_SUCCESS then (Inl (set_errno result), s1)
           else if fst s1 = TLS_STATE_Established
           then (let (size, w') = operation (snd s1)
                 in case size of
                      Inl e \<Rightarrow> (Inl (set_errno e), fst s1, w')
                    | Inr x \<Rightarrow> (Inr x, fst s1, w'))
           else (Inl EBADF, s1))"

definition tls_recv ::
  "'w net \<Rightarrow> int \<Rightarrow> nat \<Rightarrow> tls_state \<times> 'w \<Rightarrow> (errno, string) transfer \<times> tls_state \<times> 'w" where
  "tls_recv net fd n = tls_recv_send net fd (gnutls_record_recv net fd n)"

definition tls_send ::
  "'w net \<Rightarrow> int \<Rightarrow> string \<Rightarrow> tls_state \<times> 'w \<Rightarrow> (errno, nat) transfer \<times> tls_state \<times> 'w" where
  "tls_send net fd buf = tls_recv_send net fd (gnutls_record_send net fd buf)"

text \<open>
  The loop of \<open>tls_destroy_underlying\<close>; \<open>None\<close> if it does not end.
\<close>

partial_function (option) bye_loop :: "'w net \<Rightarrow> int \<Rightarrow> 'w \<Rightarrow> (gnutls_code \<times> 'w) option" where
  "bye_loop net fd w =
     (case gnutls_bye net fd w of (result, w') \<Rightarrow>
        if result = GNUTLS_E_AGAIN then bye_loop net fd w' else Some (result, w'))"

definition tls_destroy_underlying :: "'w net \<Rightarrow> int \<Rightarrow> 'w \<Rightarrow> 'w option" where
  "tls_destroy_underlying net fd w = map_option snd (bye_loop net fd w)"

section \<open>The server credential\<close>

text \<open>
  The \<open>static\<close> variables of \<open>get_credential\<close> (the credential is a handle), with counts of the
  loads of the key files, the \<open>atexit\<close> registrations and the credentials freed.
\<close>

record credential_state =
  cr_initialize :: bool
  cr_credential :: "nat option"
  cr_loads :: nat
  cr_registered :: nat
  cr_freed :: nat

definition credential_start :: credential_state where
  "credential_start =
     \<lparr>cr_initialize = True, cr_credential = None, cr_loads = 0, cr_registered = 0, cr_freed = 0\<rparr>"

definition get_credential ::
  "gnutls_code \<Rightarrow> gnutls_code \<Rightarrow> nat \<Rightarrow> bool \<Rightarrow> credential_state \<Rightarrow>
     (nat option \<times> credential_state) outcome" where
  "get_credential allocated loaded fresh destroy s =
     (if destroy \<and> cr_initialize s then Ret (None, s)
      else
        let s1 = (if destroy then s\<lparr>cr_freed := cr_freed s + 1\<rparr> else s)
        in if cr_initialize s1
           then if allocated \<noteq> GNUTLS_E_SUCCESS then Fault Exit_Failure
                else if loaded \<noteq> GNUTLS_E_SUCCESS then Fault Exit_Failure
                else let s2 = s1\<lparr>cr_credential := Some fresh, cr_loads := cr_loads s1 + 1,
                                 cr_registered := cr_registered s1 + 1, cr_initialize := True\<rparr>
                     in Ret (cr_credential s2, s2)
           else Ret (cr_credential s1, s1))"

text \<open>The destructor ignores the result; the arguments of the load do not matter to it.\<close>

definition destroy_credential :: "credential_state \<Rightarrow> credential_state outcome" where
  "destroy_credential s =
     bindO (get_credential GNUTLS_E_SUCCESS GNUTLS_E_SUCCESS 0 True s) (\<lambda>(_, s'). Ret s')"

section \<open>The function pointers of a connection\<close>

text \<open>
  \<open>recv\<close>, \<open>send\<close> and \<open>destroy_underlying\<close> are set together. \<open>No_Transport\<close>: they hold what
  \<open>malloc\<close> left there, because \<open>tls_initialize_underlying\<close> returned early.
\<close>

datatype transport = No_Transport | Tcp_Transport | Tls_Transport tls_state

definition tcp_initialize_underlying :: transport where
  "tcp_initialize_underlying = Tcp_Transport"

text \<open>
  The results of the GnuTLS calls that may fail, in their order: the session, its priority,
  the allocation and the load of the credential, and its use; \<open>ts_fresh\<close> is the handle a
  newly allocated credential gets.
\<close>

record tls_setup =
  ts_init :: gnutls_code
  ts_priority :: gnutls_code
  ts_allocated :: gnutls_code
  ts_loaded :: gnutls_code
  ts_fresh :: nat
  ts_set :: gnutls_code

definition tls_initialize_underlying ::
  "tls_setup \<Rightarrow> credential_state \<Rightarrow> (transport \<times> credential_state) outcome" where
  "tls_initialize_underlying setup cr =
     (if ts_init setup \<noteq> GNUTLS_E_SUCCESS then Ret (No_Transport, cr)
      else if ts_priority setup \<noteq> GNUTLS_E_SUCCESS then Ret (No_Transport, cr)
      else bindO (get_credential (ts_allocated setup) (ts_loaded setup) (ts_fresh setup) False cr) (\<lambda>(_, cr').
        if ts_set setup \<noteq> GNUTLS_E_SUCCESS then Ret (No_Transport, cr')
        else Ret (Tls_Transport TLS_STATE_Initialized, cr')))"

definition tcp_recv :: "'w net \<Rightarrow> int \<Rightarrow> nat \<Rightarrow> 'w \<Rightarrow> (errno, string) transfer \<times> 'w" where
  "tcp_recv net fd n w = net_recv net fd n w"

definition tcp_send :: "'w net \<Rightarrow> int \<Rightarrow> string \<Rightarrow> 'w \<Rightarrow> (errno, nat) transfer \<times> 'w" where
  "tcp_send net fd buf w = net_send net fd buf w"

text \<open>Calls through the pointers.\<close>

fun conn_recv ::
  "'w net \<Rightarrow> int \<Rightarrow> transport \<times> 'w \<Rightarrow> nat \<Rightarrow> ((errno, string) transfer \<times> transport \<times> 'w) outcome" where
  "conn_recv net fd (No_Transport, w) n = Fault Uninitialised"
| "conn_recv net fd (Tcp_Transport, w) n =
     (let (r, w') = tcp_recv net fd n w in Ret (r, Tcp_Transport, w'))"
| "conn_recv net fd (Tls_Transport st, w) n =
     (let (r, st', w') = tls_recv net fd n (st, w) in Ret (r, Tls_Transport st', w'))"

fun conn_send ::
  "'w net \<Rightarrow> int \<Rightarrow> transport \<times> 'w \<Rightarrow> string \<Rightarrow> ((errno, nat) transfer \<times> transport \<times> 'w) outcome" where
  "conn_send net fd (No_Transport, w) buf = Fault Uninitialised"
| "conn_send net fd (Tcp_Transport, w) buf =
     (let (r, w') = tcp_send net fd buf w in Ret (r, Tcp_Transport, w'))"
| "conn_send net fd (Tls_Transport st, w) buf =
     (let (r, st', w') = tls_send net fd buf (st, w) in Ret (r, Tls_Transport st', w'))"

text \<open>\<open>None\<close>: the destructor does not return.\<close>

fun conn_destroy :: "'w net \<Rightarrow> int \<Rightarrow> transport \<times> 'w \<Rightarrow> 'w run" where
  "conn_destroy net fd (No_Transport, w) = Some (Fault Uninitialised)"
| "conn_destroy net fd (Tcp_Transport, w) = Some (Ret w)"
| "conn_destroy net fd (Tls_Transport st, w) = map_option Ret (tls_destroy_underlying net fd w)"

section \<open>What the connection handler relies on\<close>

text \<open>
  A sink takes a prefix of the bytes it is offered and delivers it in order, or refuses with an
  error and delivers nothing. \<open>kept\<close> is something that writing does not change.
\<close>

locale byte_sink =
  fixes ok :: "'s \<Rightarrow> bool"
    and send :: "'s \<Rightarrow> string \<Rightarrow> ((errno, nat) transfer \<times> 's) outcome"
    and delivered :: "'s \<Rightarrow> string"
    and kept :: "'s \<Rightarrow> 'k"
  assumes send_step: "ok s \<Longrightarrow> \<exists>r s'. send s b = Ret (r, s') \<and> ok s' \<and> kept s' = kept s \<and>
    (case r of Inl e \<Rightarrow> delivered s' = delivered s
     | Inr n \<Rightarrow> n \<le> length b \<and> delivered s' = delivered s @ take n b)"
begin

lemma send_cases:
  assumes "ok s"
  obtains (refused) e s' where "send s b = Ret (Inl e, s')" "ok s'" "delivered s' = delivered s" "kept s' = kept s"
  | (sent) n s' where "send s b = Ret (Inr n, s')" "ok s'" "n \<le> length b"
      "delivered s' = delivered s @ take n b" "kept s' = kept s"
proof -
  obtain r s' where "send s b = Ret (r, s')" "ok s'" "kept s' = kept s"
      "case r of Inl e \<Rightarrow> delivered s' = delivered s
       | Inr n \<Rightarrow> n \<le> length b \<and> delivered s' = delivered s @ take n b"
    using send_step [OF assms] by blast
  then show thesis using that by (cases r) simp_all
qed

end

text \<open>
  A source hands out at most as many bytes as asked for, in order. \<open>taken\<close> is what has been
  handed out so far, \<open>kept\<close> something that reading does not change.
\<close>

locale byte_source =
  fixes ok :: "'s \<Rightarrow> bool"
    and recv :: "'s \<Rightarrow> nat \<Rightarrow> ((errno, string) transfer \<times> 's) outcome"
    and taken :: "'s \<Rightarrow> string"
    and kept :: "'s \<Rightarrow> 'k"
  assumes recv_step: "ok s \<Longrightarrow> \<exists>r s'. recv s n = Ret (r, s') \<and> ok s' \<and> kept s' = kept s \<and>
    (case r of Inl e \<Rightarrow> taken s' = taken s
     | Inr d \<Rightarrow> length d \<le> n \<and> taken s' = taken s @ d)"
begin

lemma recv_cases:
  assumes "ok s"
  obtains (failed) e s' where "recv s n = Ret (Inl e, s')" "ok s'" "taken s' = taken s" "kept s' = kept s"
  | (data) d s' where "recv s n = Ret (Inr d, s')" "ok s'" "length d \<le> n" "taken s' = taken s @ d"
      "kept s' = kept s"
proof -
  obtain r s' where "recv s n = Ret (r, s')" "ok s'" "kept s' = kept s"
      "case r of Inl e \<Rightarrow> taken s' = taken s | Inr d \<Rightarrow> length d \<le> n \<and> taken s' = taken s @ d"
    using recv_step [OF assms] by blast
  then show thesis using that by (cases r) simp_all
qed

end

text \<open>
  What is assumed of the kernel and of GnuTLS: \<open>rx fd w\<close> and \<open>tx fd w\<close> are the application
  bytes that have passed in and out on \<open>fd\<close>.
\<close>

definition transfers_in :: "('w \<Rightarrow> string) \<Rightarrow> ('w \<Rightarrow> string) \<Rightarrow> nat \<Rightarrow> 'w \<Rightarrow> ('e, string) transfer \<times> 'w \<Rightarrow> bool" where
  "transfers_in rx tx n w res \<longleftrightarrow> tx (snd res) = tx w \<and>
     (case fst res of Inl e \<Rightarrow> rx (snd res) = rx w
      | Inr d \<Rightarrow> length d \<le> n \<and> rx (snd res) = rx w @ d)"

definition transfers_out :: "('w \<Rightarrow> string) \<Rightarrow> ('w \<Rightarrow> string) \<Rightarrow> string \<Rightarrow> 'w \<Rightarrow> ('e, nat) transfer \<times> 'w \<Rightarrow> bool" where
  "transfers_out rx tx b w res \<longleftrightarrow> rx (snd res) = rx w \<and>
     (case fst res of Inl e \<Rightarrow> tx (snd res) = tx w
      | Inr n \<Rightarrow> n \<le> length b \<and> tx (snd res) = tx w @ take n b)"

definition net_ok :: "'w net \<Rightarrow> (int \<Rightarrow> 'w \<Rightarrow> string) \<Rightarrow> (int \<Rightarrow> 'w \<Rightarrow> string) \<Rightarrow> bool" where
  "net_ok net rx tx \<longleftrightarrow> (\<forall>fd w.
     (\<forall>n. transfers_in (rx fd) (tx fd) n w (net_recv net fd n w)) \<and>
     (\<forall>b. transfers_out (rx fd) (tx fd) b w (net_send net fd b w)) \<and>
     (\<forall>n. transfers_in (rx fd) (tx fd) n w (gnutls_record_recv net fd n w)) \<and>
     (\<forall>b. transfers_out (rx fd) (tx fd) b w (gnutls_record_send net fd b w)) \<and>
     rx fd (snd (gnutls_handshake net fd w)) = rx fd w \<and> tx fd (snd (gnutls_handshake net fd w)) = tx fd w)"

lemma net_okD:
  assumes "net_ok net rx tx"
  shows "transfers_in (rx fd) (tx fd) n w (net_recv net fd n w)"
    "transfers_out (rx fd) (tx fd) b w (net_send net fd b w)"
    "transfers_in (rx fd) (tx fd) n w (gnutls_record_recv net fd n w)"
    "transfers_out (rx fd) (tx fd) b w (gnutls_record_send net fd b w)"
    "rx fd (snd (gnutls_handshake net fd w)) = rx fd w" "tx fd (snd (gnutls_handshake net fd w)) = tx fd w"
  using assms by (auto simp: net_ok_def)

text \<open>Before the handshake is done a TLS connection transfers nothing.\<close>

lemma tls_recv_send_cases:
  assumes "net_ok net rx tx"
  obtains (refused) e st' w' where "tls_recv_send net fd operation (st, w) = (Inl e, st', w')"
      "rx fd w' = rx fd w" "tx fd w' = tx fd w"
  | (called) w1 where "rx fd w1 = rx fd w" "tx fd w1 = tx fd w"
      "tls_recv_send net fd operation (st, w) =
         (case operation w1 of (Inl e, w') \<Rightarrow> (Inl (set_errno e), TLS_STATE_Established, w')
          | (Inr x, w') \<Rightarrow> (Inr x, TLS_STATE_Established, w'))"
proof (cases "st = TLS_STATE_Failed")
  case True
  then show ?thesis using refused by (simp add: tls_recv_send_def)
next
  case nf: False
  obtain c w1 where h: "gnutls_handshake net fd w = (c, w1)" by fastforce
  have w1: "rx fd w1 = rx fd w" "tx fd w1 = tx fd w" using net_okD(5,6) [OF assms, of fd w] h by auto
  show ?thesis
  proof (cases "st = TLS_STATE_Established")
    case True
    then show ?thesis using called [of w]
      by (simp add: tls_recv_send_def split: prod.splits sum.splits)
  next
    case False
    with nf have st: "st = TLS_STATE_Initialized \<or> st = TLS_STATE_Handshaking" by (cases st) auto
    show ?thesis
    proof (cases "c = GNUTLS_E_SUCCESS")
      case True
      then show ?thesis using called [of w1] w1 nf st h
        by (simp add: tls_recv_send_def do_handshake_def split: prod.splits sum.splits)
    next
      case False
      then show ?thesis using refused w1 nf st h
        by (simp add: tls_recv_send_def do_handshake_def split: if_splits)
    qed
  qed
qed

interpretation conn_sink: byte_sink
  "\<lambda>s. net_ok net rx tx \<and> fst s \<noteq> No_Transport" "conn_send net fd" "\<lambda>s. tx fd (snd s)"
    "\<lambda>s. (rx fd (snd s), fst s = Tcp_Transport)"
  for net :: "'w net" and rx tx :: "int \<Rightarrow> 'w \<Rightarrow> string" and fd :: int
proof
  fix s :: "transport \<times> 'w" and b
  assume ok: "net_ok net rx tx \<and> fst s \<noteq> No_Transport"
  obtain tr w where s: "s = (tr, w)" by fastforce
  show "\<exists>r s'. conn_send net fd s b = Ret (r, s') \<and> (net_ok net rx tx \<and> fst s' \<noteq> No_Transport) \<and>
    (rx fd (snd s'), fst s' = Tcp_Transport) = (rx fd (snd s), fst s = Tcp_Transport) \<and>
    (case r of Inl e \<Rightarrow> tx fd (snd s') = tx fd (snd s)
     | Inr n \<Rightarrow> n \<le> length b \<and> tx fd (snd s') = tx fd (snd s) @ take n b)"
  proof (cases tr)
    case No_Transport
    with ok s show ?thesis by simp
  next
    case Tcp_Transport
    with ok s show ?thesis
      using net_okD(2) [of net rx tx fd b w]
      by (auto simp: tcp_send_def transfers_out_def split: prod.splits sum.splits)
  next
    case (Tls_Transport st)
    show ?thesis
    proof (cases rule: tls_recv_send_cases [OF conjunct1 [OF ok], of fd "gnutls_record_send net fd b" st w, case_names refused called])
      case (refused e st' w')
      with ok s Tls_Transport show ?thesis by (simp add: tls_send_def)
    next
      case (called w1)
      with ok s Tls_Transport show ?thesis
        using net_okD(4) [of net rx tx fd b w1]
        by (auto simp: tls_send_def transfers_out_def split: prod.splits sum.splits)
    qed
  qed
qed

interpretation conn_source: byte_source
  "\<lambda>s. net_ok net rx tx \<and> fst s \<noteq> No_Transport" "conn_recv net fd" "\<lambda>s. rx fd (snd s)"
    "\<lambda>s. (tx fd (snd s), fst s = Tcp_Transport)"
  for net :: "'w net" and rx tx :: "int \<Rightarrow> 'w \<Rightarrow> string" and fd :: int
proof
  fix s :: "transport \<times> 'w" and n
  assume ok: "net_ok net rx tx \<and> fst s \<noteq> No_Transport"
  obtain tr w where s: "s = (tr, w)" by fastforce
  show "\<exists>r s'. conn_recv net fd s n = Ret (r, s') \<and> (net_ok net rx tx \<and> fst s' \<noteq> No_Transport) \<and>
    (tx fd (snd s'), fst s' = Tcp_Transport) = (tx fd (snd s), fst s = Tcp_Transport) \<and>
    (case r of Inl e \<Rightarrow> rx fd (snd s') = rx fd (snd s)
     | Inr d \<Rightarrow> length d \<le> n \<and> rx fd (snd s') = rx fd (snd s) @ d)"
  proof (cases tr)
    case No_Transport
    with ok s show ?thesis by simp
  next
    case Tcp_Transport
    with ok s show ?thesis
      using net_okD(1) [of net rx tx fd n w]
      by (auto simp: tcp_recv_def transfers_in_def split: prod.splits sum.splits)
  next
    case (Tls_Transport st)
    show ?thesis
    proof (cases rule: tls_recv_send_cases [OF conjunct1 [OF ok], of fd "gnutls_record_recv net fd n" st w, case_names refused called])
      case (refused e st' w')
      with ok s Tls_Transport show ?thesis by (simp add: tls_recv_def)
    next
      case (called w1)
      with ok s Tls_Transport show ?thesis
        using net_okD(3) [of net rx tx fd n w1]
        by (auto simp: tls_recv_def transfers_in_def split: prod.splits sum.splits)
    qed
  qed
qed

end
