(* ===== verification/Transport_Properties.thy ===== *)
theory Transport_Properties
  imports Transport
begin

text \<open>
  The TLS state machine as a step relation over the calls the connection handler makes, with
  the GnuTLS calls recorded; the end of a TLS session; the server credential.
\<close>

section \<open>Recording the GnuTLS calls\<close>

text \<open>
  A handshake with its return code, a call of a record function with the error it gave; \<open>None\<close> if
  it transferred bytes.
\<close>

datatype gnutls_call = Handshake_Call gnutls_code | Record_Call "gnutls_code option"

fun transfer_error :: "('e, 'a) transfer \<Rightarrow> 'e option" where
  "transfer_error (Inl e) = Some e"
| "transfer_error (Inr x) = None"

type_synonym 'w traced = "'w \<times> gnutls_call list"

definition traced_net :: "'w net \<Rightarrow> 'w traced net" where
  "traced_net net =
     \<lparr>net_recv = (\<lambda>fd n (w, l). let (r, w') = net_recv net fd n w in (r, w', l)),
      net_send = (\<lambda>fd b (w, l). let (r, w') = net_send net fd b w in (r, w', l)),
      gnutls_handshake =
        (\<lambda>fd (w, l). let (r, w') = gnutls_handshake net fd w in (r, w', l @ [Handshake_Call r])),
      gnutls_record_recv =
        (\<lambda>fd n (w, l). let (r, w') = gnutls_record_recv net fd n w in (r, w', l @ [Record_Call (transfer_error r)])),
      gnutls_record_send =
        (\<lambda>fd b (w, l). let (r, w') = gnutls_record_send net fd b w in (r, w', l @ [Record_Call (transfer_error r)])),
      gnutls_bye = (\<lambda>fd (w, l). let (r, w') = gnutls_bye net fd w in (r, w', l)),
      net_close = (\<lambda>fd (w, l). (net_close net fd w, l))\<rparr>"

lemma traced_net_simps:
  "gnutls_handshake (traced_net net) fd (w, l) =
     (fst (gnutls_handshake net fd w), snd (gnutls_handshake net fd w),
      l @ [Handshake_Call (fst (gnutls_handshake net fd w))])"
  "gnutls_record_recv (traced_net net) fd n (w, l) =
     (fst (gnutls_record_recv net fd n w), snd (gnutls_record_recv net fd n w),
      l @ [Record_Call (transfer_error (fst (gnutls_record_recv net fd n w)))])"
  "gnutls_record_send (traced_net net) fd b (w, l) =
     (fst (gnutls_record_send net fd b w), snd (gnutls_record_send net fd b w),
      l @ [Record_Call (transfer_error (fst (gnutls_record_send net fd b w)))])"
  by (simp_all add: traced_net_def split: prod.split)

text \<open>A world in which every handshake succeeds at once and there is never any data.\<close>

definition ready_net :: "unit net" where
  "ready_net =
     \<lparr>net_recv = (\<lambda>fd n w. (Inl EAGAIN, w)), net_send = (\<lambda>fd b w. (Inl EAGAIN, w)),
      gnutls_handshake = (\<lambda>fd w. (GNUTLS_E_SUCCESS, w)),
      gnutls_record_recv = (\<lambda>fd n w. (Inl GNUTLS_E_AGAIN, w)),
      gnutls_record_send = (\<lambda>fd b w. (Inl GNUTLS_E_AGAIN, w)),
      gnutls_bye = (\<lambda>fd w. (GNUTLS_E_SUCCESS, w)), net_close = (\<lambda>fd w. w)\<rparr>"

inductive tls_step :: "'w net \<Rightarrow> int \<Rightarrow> tls_state \<times> 'w traced \<Rightarrow> tls_state \<times> 'w traced \<Rightarrow> bool"
  for net :: "'w net" and fd :: int where
  Recv: "tls_recv (traced_net net) fd n s = (r, s') \<Longrightarrow> tls_step net fd s s'"
| Send: "tls_send (traced_net net) fd b s = (r, s') \<Longrightarrow> tls_step net fd s s'"

inductive tls_reachable :: "'w net \<Rightarrow> int \<Rightarrow> tls_state \<times> 'w traced \<Rightarrow> bool"
  for net :: "'w net" and fd :: int where
  Start: "tls_reachable net fd (TLS_STATE_Initialized, w, [])"
| Step: "tls_reachable net fd s \<Longrightarrow> tls_step net fd s s' \<Longrightarrow> tls_reachable net fd s'"

inductive_cases tls_stepE: "tls_step net fd s s'"

section \<open>The invariant\<close>

definition pending :: "gnutls_call \<Rightarrow> bool" where
  "pending c \<longleftrightarrow> (\<exists>r. c = Handshake_Call r \<and> r \<noteq> GNUTLS_E_SUCCESS \<and> r \<noteq> GNUTLS_E_FATAL_ALERT_RECEIVED)"

definition is_record :: "gnutls_call \<Rightarrow> bool" where
  "is_record c \<longleftrightarrow> (\<exists>e. c = Record_Call e)"

text \<open>The calls made so far determine the state.\<close>

fun tls_inv :: "tls_state \<Rightarrow> gnutls_call list \<Rightarrow> bool" where
  "tls_inv TLS_STATE_Initialized l \<longleftrightarrow> list_all pending l"
| "tls_inv TLS_STATE_Handshaking l \<longleftrightarrow> False"
| "tls_inv TLS_STATE_Established l \<longleftrightarrow>
     (\<exists>a b. l = a @ Handshake_Call GNUTLS_E_SUCCESS # b \<and> list_all pending a \<and> list_all is_record b)"
| "tls_inv TLS_STATE_Failed l \<longleftrightarrow>
     (\<exists>a. l = a @ [Handshake_Call GNUTLS_E_FATAL_ALERT_RECEIVED] \<and> list_all pending a)"

lemma tls_inv_established:
  "tls_inv TLS_STATE_Established l \<Longrightarrow> tls_inv TLS_STATE_Established (l @ [Record_Call e])"
proof -
  assume "tls_inv TLS_STATE_Established l"
  then obtain a b where "l = a @ Handshake_Call GNUTLS_E_SUCCESS # b" "list_all pending a" "list_all is_record b"
    by auto
  then show "tls_inv TLS_STATE_Established (l @ [Record_Call e])"
    by (simp, intro exI [of _ a] exI [of _ "b @ [Record_Call e]"]) (simp add: is_record_def)
qed

lemma tls_inv_handshake:
  assumes "tls_inv TLS_STATE_Initialized l"
  shows "tls_inv (if r = GNUTLS_E_SUCCESS then TLS_STATE_Established
    else if r = GNUTLS_E_FATAL_ALERT_RECEIVED then TLS_STATE_Failed else TLS_STATE_Initialized)
    (l @ [Handshake_Call r])"
proof -
  have "tls_inv TLS_STATE_Established (l @ [Handshake_Call GNUTLS_E_SUCCESS])"
    using assms by (simp, intro exI [of _ l] exI [of _ "[]"]) simp
  then show ?thesis using assms by (auto simp: pending_def)
qed

lemma tls_recv_send_inv:
  assumes inv: "tls_inv st l"
    and op: "\<And>w l. \<exists>r w' e. operation (w, l) = (r, w', l @ [Record_Call e])"
    and run: "tls_recv_send (traced_net net) fd operation (st, w, l) = (res, st', w', l')"
  shows "tls_inv st' l'"
proof (cases st)
  case TLS_STATE_Failed
  then show ?thesis using inv run by (simp add: tls_recv_send_def)
next
  case TLS_STATE_Handshaking
  then show ?thesis using inv by simp
next
  case TLS_STATE_Established
  obtain r w1 e where "operation (w, l) = (r, w1, l @ [Record_Call e])" using op by blast
  then have "st' = TLS_STATE_Established" "l' = l @ [Record_Call e]"
    using run TLS_STATE_Established by (auto simp: tls_recv_send_def split: sum.splits)
  then show ?thesis using inv TLS_STATE_Established tls_inv_established by simp
next
  case TLS_STATE_Initialized
  obtain r w1 where h: "gnutls_handshake net fd w = (r, w1)" by fastforce
  obtain x w2 e where o: "operation (w1, l @ [Handshake_Call r]) = (x, w2, l @ [Handshake_Call r, Record_Call e])"
    using op [of w1 "l @ [Handshake_Call r]"] by auto
  have after: "tls_inv (if r = GNUTLS_E_SUCCESS then TLS_STATE_Established
      else if r = GNUTLS_E_FATAL_ALERT_RECEIVED then TLS_STATE_Failed else TLS_STATE_Initialized)
      (l @ [Handshake_Call r])"
    using inv TLS_STATE_Initialized by (intro tls_inv_handshake) simp
  show ?thesis
  proof (cases "r = GNUTLS_E_SUCCESS")
    case True
    then have "st' = TLS_STATE_Established" "l' = (l @ [Handshake_Call r]) @ [Record_Call e]"
      using run TLS_STATE_Initialized h o
      by (auto simp: tls_recv_send_def do_handshake_def traced_net_def split: sum.splits)
    moreover have "tls_inv TLS_STATE_Established ((l @ [Handshake_Call r]) @ [Record_Call e])"
      using after True by (intro tls_inv_established) simp
    ultimately show ?thesis by (simp only:)
  next
    case False
    then have "l' = l @ [Handshake_Call r]"
      "st' = (if r = GNUTLS_E_FATAL_ALERT_RECEIVED then TLS_STATE_Failed else TLS_STATE_Initialized)"
      using run TLS_STATE_Initialized h
      by (auto simp: tls_recv_send_def do_handshake_def traced_net_def)
    then show ?thesis using after False by simp
  qed
qed

lemma tls_step_inv:
  assumes "tls_step net fd s s'" "tls_inv (fst s) (snd (snd s))"
  shows "tls_inv (fst s') (snd (snd s'))"
proof -
  obtain st w l where s: "s = (st, w, l)" by (cases s)
  obtain st' w' l' where s': "s' = (st', w', l')" by (cases s')
  have op: "\<exists>r w' e. gnutls_record_recv (traced_net net) fd n (w, l) = (r, w', l @ [Record_Call e])"
      "\<exists>r w' e. gnutls_record_send (traced_net net) fd b (w, l) = (r, w', l @ [Record_Call e])" for n b w l
    by (simp_all add: traced_net_simps)
  from assms show ?thesis
    unfolding s s' tls_step.simps tls_recv_def tls_send_def
    by (auto intro: tls_recv_send_inv [OF _ op(1)] tls_recv_send_inv [OF _ op(2)])
qed

lemma tls_reachable_inv: "tls_reachable net fd s \<Longrightarrow> tls_inv (fst s) (snd (snd s))"
  by (induction rule: tls_reachable.induct) (auto intro: tls_step_inv)

lemma not_pending [simp]:
  "\<not> pending (Record_Call e)" "\<not> pending (Handshake_Call GNUTLS_E_SUCCESS)"
  "\<not> pending (Handshake_Call GNUTLS_E_FATAL_ALERT_RECEIVED)"
  by (simp_all add: pending_def)

lemma not_record [simp]: "\<not> is_record (Handshake_Call r)"
  by (simp add: is_record_def)

lemma not_pending_notin: "list_all pending a \<Longrightarrow> \<not> pending c \<Longrightarrow> c \<notin> set a"
  by (auto simp: list_all_iff)

section \<open>Closing a session\<close>

lemma bye_loop_unroll:
  "(\<forall>i < n. fst (gnutls_bye net fd (((\<lambda>w. snd (gnutls_bye net fd w)) ^^ i) w)) = GNUTLS_E_AGAIN) \<Longrightarrow>
     bye_loop net fd w = bye_loop net fd (((\<lambda>w. snd (gnutls_bye net fd w)) ^^ n) w)"
proof (induction n)
  case (Suc n)
  let ?w = "((\<lambda>w. snd (gnutls_bye net fd w)) ^^ n) w"
  have "fst (gnutls_bye net fd ?w) = GNUTLS_E_AGAIN" using Suc.prems by simp
  then have "bye_loop net fd ?w = bye_loop net fd (snd (gnutls_bye net fd ?w))"
    by (subst bye_loop.simps) (auto split: prod.split)
  with Suc show ?case by simp
qed simp

lemma bye_loop_returns:
  assumes "bye_loop net fd w = Some r"
  shows "\<exists>n. fst (gnutls_bye net fd (((\<lambda>w. snd (gnutls_bye net fd w)) ^^ n) w)) \<noteq> GNUTLS_E_AGAIN"
proof (rule bye_loop.raw_induct [OF _ assms, where P = "\<lambda>net fd w r. \<exists>n.
    fst (gnutls_bye net fd (((\<lambda>w. snd (gnutls_bye net fd w)) ^^ n) w)) \<noteq> GNUTLS_E_AGAIN"])
  fix loop :: "'a net \<Rightarrow> int \<Rightarrow> 'a \<Rightarrow> (gnutls_code \<times> 'a) option" and net :: "'a net" and fd :: int and w y
  assume IH: "\<And>net fd w y. loop net fd w = Some y \<Longrightarrow>
      \<exists>n. fst (gnutls_bye net fd (((\<lambda>w. snd (gnutls_bye net fd w)) ^^ n) w)) \<noteq> GNUTLS_E_AGAIN"
    and eq: "(case gnutls_bye net fd w of (result, w') \<Rightarrow>
      if result = GNUTLS_E_AGAIN then loop net fd w' else Some (result, w')) = Some y"
  obtain c w' where b: "gnutls_bye net fd w = (c, w')" by fastforce
  show "\<exists>n. fst (gnutls_bye net fd (((\<lambda>w. snd (gnutls_bye net fd w)) ^^ n) w)) \<noteq> GNUTLS_E_AGAIN"
  proof (cases "c = GNUTLS_E_AGAIN")
    case True
    with eq b have "loop net fd w' = Some y" by simp
    from IH [OF this] obtain n where
      "fst (gnutls_bye net fd (((\<lambda>w. snd (gnutls_bye net fd w)) ^^ n) w')) \<noteq> GNUTLS_E_AGAIN" by blast
    then show ?thesis using b by (intro exI [of _ "Suc n"]) (simp only: funpow_Suc_right o_apply snd_conv simp_thms)
  next
    case False
    then show ?thesis using b by (intro exI [of _ 0]) simp
  qed
qed

section \<open>Initializing connections\<close>

fun initialize_all :: "tls_setup list \<Rightarrow> credential_state \<Rightarrow> credential_state outcome" where
  "initialize_all [] s = Ret s"
| "initialize_all (x # xs) s = bindO (tls_initialize_underlying x s) (\<lambda>(_, s'). initialize_all xs s')"

section \<open>Properties\<close>

text \<open>
  C26. No data outside an established session. In every state a TLS connection can reach by any
  sequence of \<open>tls_recv\<close> and \<open>tls_send\<close> calls, whatever GnuTLS answers: every call of a record
  function was made after a successful handshake; after a fatal alert in the handshake the
  session is failed and GnuTLS is not called again; a handshake is not repeated after it
  succeeded; and the state \<open>TLS_STATE_Handshaking\<close> is never entered. In an established session
  the next call goes to the record function whatever the earlier ones gave: a fatal alert from
  a record function gives \<open>EBADF\<close> to the caller, but the session is not marked as failed.
\<close>

theorem tls_no_data_before_handshake:
  assumes "tls_reachable net fd (st, w, calls)"
  shows "st \<noteq> TLS_STATE_Handshaking \<and>
    (\<forall>before e after. calls = before @ Record_Call e # after \<longrightarrow>
       st = TLS_STATE_Established \<and> Handshake_Call GNUTLS_E_SUCCESS \<in> set before) \<and>
    (Handshake_Call GNUTLS_E_FATAL_ALERT_RECEIVED \<in> set calls \<longrightarrow>
       st = TLS_STATE_Failed \<and> last calls = Handshake_Call GNUTLS_E_FATAL_ALERT_RECEIVED \<and>
       (\<forall>n. tls_recv (traced_net net) fd n (st, w, calls) = (Inl EBADF, st, w, calls)) \<and>
       (\<forall>b. tls_send (traced_net net) fd b (st, w, calls) = (Inl EBADF, st, w, calls))) \<and>
    (\<forall>before after r. calls = before @ Handshake_Call GNUTLS_E_SUCCESS # after \<longrightarrow>
       Handshake_Call r \<notin> set after) \<and>
    (st = TLS_STATE_Established \<longrightarrow>
       (\<forall>n. \<exists>r w' e. tls_recv (traced_net net) fd n (st, w, calls) =
          (r, TLS_STATE_Established, w', calls @ [Record_Call e]) \<and>
          (e = Some GNUTLS_E_FATAL_ALERT_RECEIVED \<longrightarrow> r = Inl EBADF)) \<and>
       (\<forall>b. \<exists>r w' e. tls_send (traced_net net) fd b (st, w, calls) =
          (r, TLS_STATE_Established, w', calls @ [Record_Call e]) \<and>
          (e = Some GNUTLS_E_FATAL_ALERT_RECEIVED \<longrightarrow> r = Inl EBADF)))"
proof -
  have inv: "tls_inv st calls" using tls_reachable_inv [OF assms] by simp
  have one: "tls_recv (traced_net net) fd n (TLS_STATE_Established, w, calls) =
      (case gnutls_record_recv net fd n w of
         (Inl e, w') \<Rightarrow> (Inl (set_errno e), TLS_STATE_Established, w', calls @ [Record_Call (Some e)])
       | (Inr x, w') \<Rightarrow> (Inr x, TLS_STATE_Established, w', calls @ [Record_Call None]))" for n
    by (simp add: tls_recv_def tls_recv_send_def traced_net_simps split: prod.split sum.split)
  have goes_on: "\<exists>r w' e. tls_recv (traced_net net) fd n (TLS_STATE_Established, w, calls) =
      (r, TLS_STATE_Established, w', calls @ [Record_Call e]) \<and>
      (e = Some GNUTLS_E_FATAL_ALERT_RECEIVED \<longrightarrow> r = Inl EBADF)" for n
    unfolding one by (auto split: prod.split sum.split)
  have one': "tls_send (traced_net net) fd b (TLS_STATE_Established, w, calls) =
      (case gnutls_record_send net fd b w of
         (Inl e, w') \<Rightarrow> (Inl (set_errno e), TLS_STATE_Established, w', calls @ [Record_Call (Some e)])
       | (Inr x, w') \<Rightarrow> (Inr x, TLS_STATE_Established, w', calls @ [Record_Call None]))" for b
    by (simp add: tls_send_def tls_recv_send_def traced_net_simps split: prod.split sum.split)
  have goes_on': "\<exists>r w' e. tls_send (traced_net net) fd b (TLS_STATE_Established, w, calls) =
      (r, TLS_STATE_Established, w', calls @ [Record_Call e]) \<and>
      (e = Some GNUTLS_E_FATAL_ALERT_RECEIVED \<longrightarrow> r = Inl EBADF)" for b
    unfolding one' by (auto split: prod.split sum.split)
  show ?thesis
  proof (cases st)
    case TLS_STATE_Initialized
    then have "list_all pending calls" using inv by simp
    note n = not_pending_notin [OF this]
    have "calls \<noteq> before @ Record_Call e # after" "calls \<noteq> before @ Handshake_Call GNUTLS_E_SUCCESS # after"
      "Handshake_Call GNUTLS_E_FATAL_ALERT_RECEIVED \<notin> set calls" for before e after
      using n [OF not_pending(1) [of e]] n [OF not_pending(2)] n [OF not_pending(3)] by auto
    then show ?thesis using TLS_STATE_Initialized by simp
  next
    case TLS_STATE_Established
    then obtain a b where c: "calls = a @ Handshake_Call GNUTLS_E_SUCCESS # b"
        and a: "list_all pending a" and b: "list_all is_record b" using inv by auto
    note na = not_pending_notin [OF a]
    have nb: "Handshake_Call r \<notin> set b" for r using b by (auto simp: list_all_iff)
    have "Handshake_Call GNUTLS_E_SUCCESS \<in> set before" if "calls = before @ Record_Call e # after" for before e after
    proof (rule ccontr)
      assume "Handshake_Call GNUTLS_E_SUCCESS \<notin> set before"
      with that c na(1) [of "Record_Call e"] show False
        by (auto simp: append_eq_append_conv2 Cons_eq_append_conv append_eq_Cons_conv)
    qed
    moreover have "Handshake_Call r \<notin> set after"
      if "calls = before @ Handshake_Call GNUTLS_E_SUCCESS # after" for before after r
    proof -
      have "Handshake_Call GNUTLS_E_SUCCESS \<notin> set a" using na by auto
      from append_Cons_eq_iff [OF this nb] that c have "after = b" by simp
      then show ?thesis using nb by simp
    qed
    moreover have "Handshake_Call GNUTLS_E_FATAL_ALERT_RECEIVED \<notin> set calls"
      using c na nb by auto
    ultimately show ?thesis using TLS_STATE_Established goes_on goes_on' by simp
  next
    case TLS_STATE_Failed
    then obtain a where c: "calls = a @ [Handshake_Call GNUTLS_E_FATAL_ALERT_RECEIVED]"
        and a: "list_all pending a" using inv by auto
    note na = not_pending_notin [OF a]
    have "Record_Call e \<notin> set calls" "Handshake_Call GNUTLS_E_SUCCESS \<notin> set calls" for e
      using c na by auto
    then have "calls \<noteq> before @ Record_Call e # after" "calls \<noteq> before @ Handshake_Call GNUTLS_E_SUCCESS # after"
      for before e after
      by (metis in_set_conv_decomp)+
    moreover have "last calls = Handshake_Call GNUTLS_E_FATAL_ALERT_RECEIVED" using c by simp
    moreover have "tls_recv (traced_net net) fd n (TLS_STATE_Failed, w, calls) = (Inl EBADF, TLS_STATE_Failed, w, calls)"
      "tls_send (traced_net net) fd b (TLS_STATE_Failed, w, calls) = (Inl EBADF, TLS_STATE_Failed, w, calls)" for n b
      by (simp_all add: tls_recv_def tls_send_def tls_recv_send_def)
    ultimately show ?thesis using TLS_STATE_Failed by simp
  qed (use inv in simp)
qed

text \<open>A session that is ready at once and then receives a fatal alert.\<close>

definition alert_net :: "unit net" where
  "alert_net = ready_net\<lparr>gnutls_record_recv := (\<lambda>fd n w. (Inl GNUTLS_E_FATAL_ALERT_RECEIVED, w))\<rparr>"

lemma tls_no_data_before_handshake_witness:
  "tls_reachable alert_net 0 (TLS_STATE_Established, (),
      [Handshake_Call GNUTLS_E_SUCCESS, Record_Call (Some GNUTLS_E_FATAL_ALERT_RECEIVED)]) \<and>
   Handshake_Call GNUTLS_E_SUCCESS \<in> set [Handshake_Call GNUTLS_E_SUCCESS]"
proof -
  let ?calls = "[Handshake_Call GNUTLS_E_SUCCESS, Record_Call (Some GNUTLS_E_FATAL_ALERT_RECEIVED)]"
  have "tls_step alert_net 0 (TLS_STATE_Initialized, (), []) (TLS_STATE_Established, (), ?calls)"
    by (rule tls_step.Recv [where n = 0 and r = "Inl EBADF"])
      (simp add: tls_recv_def tls_recv_send_def do_handshake_def traced_net_simps ready_net_def alert_net_def)
  with tls_reachable.Start have r: "tls_reachable alert_net 0 (TLS_STATE_Established, (), ?calls)"
    by (rule tls_reachable.Step)
  from tls_no_data_before_handshake [OF r, THEN conjunct2, THEN conjunct1, rule_format,
      of "[Handshake_Call GNUTLS_E_SUCCESS]" _ "[]"]
  have "Handshake_Call GNUTLS_E_SUCCESS \<in> set [Handshake_Call GNUTLS_E_SUCCESS]" by simp
  with r show ?thesis by blast
qed

text \<open>
  C29. Closing a TLS session ends exactly if GnuTLS lets it. \<open>tls_destroy_underlying\<close> returns if and
  only if some call of \<open>gnutls_bye\<close> gives anything else than \<open>GNUTLS_E_AGAIN\<close>: the loop has no
  other exit. On an open non-blocking socket with a silent peer it would not end; the server
  closes the socket before it calls this function, so that the first call fails.
\<close>

theorem tls_destroy_returns_iff:
  "(\<exists>w'. tls_destroy_underlying net fd w = Some w') \<longleftrightarrow>
     (\<exists>n. fst (gnutls_bye net fd (((\<lambda>w. snd (gnutls_bye net fd w)) ^^ n) w)) \<noteq> GNUTLS_E_AGAIN)"
    (is "_ \<longleftrightarrow> (\<exists>n. ?stops n)")
proof
  assume "\<exists>w'. tls_destroy_underlying net fd w = Some w'"
  then show "\<exists>n. ?stops n" using bye_loop_returns by (auto simp: tls_destroy_underlying_def)
next
  assume ex: "\<exists>n. ?stops n"
  define n where "n = (LEAST n. ?stops n)"
  have n: "?stops n" unfolding n_def using ex by (rule LeastI_ex)
  have "\<forall>i < n. \<not> ?stops i" unfolding n_def using not_less_Least by blast
  then have "bye_loop net fd w = bye_loop net fd (((\<lambda>w. snd (gnutls_bye net fd w)) ^^ n) w)"
    by (intro bye_loop_unroll) simp
  also have "\<dots> \<noteq> None"
    using n by (subst bye_loop.simps) (auto split: prod.split)
  finally show "\<exists>w'. tls_destroy_underlying net fd w = Some w'"
    by (auto simp: tls_destroy_underlying_def)
qed

text \<open>
  C31. The credential is never kept. \<open>get_credential\<close> sets its flag to \<open>true\<close> where it means
  \<open>false\<close>: initializing \<open>n\<close> TLS connections loads the key files \<open>n\<close> times and registers the
  destructor \<open>n\<close> times, and the destructor frees nothing, at any time.
\<close>

theorem credential_never_cached:
  assumes "tls_setups = replicate n
     \<lparr>ts_init = GNUTLS_E_SUCCESS, ts_priority = GNUTLS_E_SUCCESS, ts_allocated = GNUTLS_E_SUCCESS,
      ts_loaded = GNUTLS_E_SUCCESS, ts_fresh = handle, ts_set = GNUTLS_E_SUCCESS\<rparr>"
  shows "\<exists>s. initialize_all tls_setups credential_start = Ret s \<and>
     cr_loads s = n \<and> cr_registered s = n \<and> cr_freed s = 0 \<and> destroy_credential s = Ret s"
proof -
  have "\<exists>s'. initialize_all (replicate n
     \<lparr>ts_init = GNUTLS_E_SUCCESS, ts_priority = GNUTLS_E_SUCCESS, ts_allocated = GNUTLS_E_SUCCESS,
      ts_loaded = GNUTLS_E_SUCCESS, ts_fresh = handle, ts_set = GNUTLS_E_SUCCESS\<rparr>) s = Ret s' \<and>
     cr_initialize s' \<and> cr_loads s' = cr_loads s + n \<and> cr_registered s' = cr_registered s + n \<and>
     cr_freed s' = cr_freed s" if "cr_initialize s" for s
    using that
  proof (induction n arbitrary: s)
    case (Suc n)
    let ?s = "s\<lparr>cr_credential := Some handle, cr_loads := Suc (cr_loads s),
      cr_registered := Suc (cr_registered s), cr_initialize := True\<rparr>"
    show ?case
      using Suc.IH [of ?s] Suc.prems
      by (simp add: tls_initialize_underlying_def get_credential_def Let_def)
  qed simp
  from this [of credential_start] show ?thesis
    by (auto simp: assms credential_start_def destroy_credential_def get_credential_def)
qed

lemma credential_never_cached_witness:
  "\<exists>s. initialize_all [\<lparr>ts_init = GNUTLS_E_SUCCESS, ts_priority = GNUTLS_E_SUCCESS,
       ts_allocated = GNUTLS_E_SUCCESS, ts_loaded = GNUTLS_E_SUCCESS, ts_fresh = 7,
       ts_set = GNUTLS_E_SUCCESS\<rparr>] credential_start = Ret s \<and> destroy_credential s = Ret s"
  using credential_never_cached [of _ 1 7] by auto

end
