(* ===== verification/Descriptors.thy ===== *)
theory Descriptors
  imports Request Response Transport
begin

text \<open>
  The connections and the list of open descriptors of \<open>server.c\<close>
  (\<open>struct connection_information\<close>, \<open>struct file_descriptor_information\<close> and their functions),
  with the \<open>static\<close> state of the process as one record.

  The list is intrusive: the nodes live in a heap from addresses to nodes, \<open>next\<close> is an
  address or NULL, and \<open>prev\<close> points to the link that points to the node: the head of the
  list or the \<open>next\<close> field of a node.
\<close>

section \<open>Connections\<close>

record buffer =
  buf_block :: "string ptr"
  buf_capability :: nat
  buf_start :: nat
  buf_end :: nat

datatype connection_status = ConnectionStatusWaitingRequest | ConnectionStatusWritingResponse

record connection_information =
  conn_state :: connection_status
  conn_fd :: int
  conn_buffer :: buffer
  conn_request :: http_request
  conn_response :: http_response
  conn_transport :: transport
  conn_address :: socket_address

datatype file_descriptor_type = LISTEN_SOCKET | TCP_SOCKET | TLS_SOCKET

text \<open>
  What a new connection takes from its surroundings: the address \<open>malloc\<close> gives the node, the
  indeterminate content of the request and response blocks, the peer address, and the
  results of the GnuTLS calls.
\<close>

record fresh_connection =
  fr_addr :: nat
  fr_request :: http_request
  fr_response :: http_response
  fr_peer :: socket_address
  fr_tls :: tls_setup

definition initialize_connection_information ::
  "bool \<Rightarrow> fresh_connection \<Rightarrow> file_descriptor_type \<Rightarrow> int \<Rightarrow> credential_state \<Rightarrow>
     (connection_information \<times> credential_state) outcome" where
  "initialize_connection_information ndebug fresh type fd cr =
     bindO (if type = TCP_SOCKET then Ret (tcp_initialize_underlying, cr)
            else bindO (c_assert ndebug (type = TLS_SOCKET)) (\<lambda>_.
                   tls_initialize_underlying (fr_tls fresh) cr)) (\<lambda>(transport, cr').
       Ret (\<lparr>conn_state = ConnectionStatusWaitingRequest, conn_fd = fd,
             conn_buffer = \<lparr>buf_block = Null, buf_capability = 0, buf_start = 0, buf_end = 0\<rparr>,
             conn_request = snd (http_request_initialize (fr_request fresh)),
             conn_response = snd (http_response_initialize (fr_response fresh)),
             conn_transport = transport, conn_address = fr_peer fresh\<rparr>, cr'))"

definition destroy_connection_information :: "'w net \<Rightarrow> connection_information \<Rightarrow> 'w \<Rightarrow> 'w run" where
  "destroy_connection_information net c w =
     bindR (Some (c_free (buf_block (conn_buffer c)))) (\<lambda>_.
     bindR (Some (http_request_destroy (conn_request c))) (\<lambda>_.
     bindR (Some (http_response_destroy (conn_response c))) (\<lambda>_.
       conn_destroy net (conn_fd c) (conn_transport c, w))))"

section \<open>The list of descriptors\<close>

type_synonym addr = nat

datatype link = Head_Link | Next_Link addr

record file_descriptor_information =
  fd_type :: file_descriptor_type
  file_descriptor :: int
  fd_next :: "addr option"
  fd_prev :: link
  fd_connection :: "connection_information option"

text \<open>
  The \<open>static\<close> variables of the program; \<open>sv_closed\<close> records the arguments of \<open>close\<close>, \<open>sv_world\<close>
  is the outside world.
\<close>

record 'w server =
  sv_heap :: "addr \<Rightarrow> file_descriptor_information option"
  sv_head :: "addr option"
  sv_closed :: "int list"
  sv_running :: bool
  sv_log_level :: log_level
  sv_code :: "string option"
  sv_cwd :: "string option"
  sv_credentials :: credential_state
  sv_world :: 'w

definition register_file_descriptor ::
  "bool \<Rightarrow> fresh_connection \<Rightarrow> int \<Rightarrow> file_descriptor_type \<Rightarrow> 'w server \<Rightarrow> (addr \<times> 'w server) outcome" where
  "register_file_descriptor ndebug fresh fd type s =
     bindO (if type \<noteq> LISTEN_SOCKET
            then bindO (initialize_connection_information ndebug fresh type fd (sv_credentials s)) (\<lambda>(c, cr).
                   Ret (Some c, cr))
            else Ret (None, sv_credentials s)) (\<lambda>(connection, cr).
       Ret (fr_addr fresh,
            s\<lparr>sv_heap := (sv_heap s)(fr_addr fresh \<mapsto>
                \<lparr>fd_type = type, file_descriptor = fd, fd_next = sv_head s, fd_prev = Head_Link,
                 fd_connection = connection\<rparr>),
              sv_head := Some (fr_addr fresh),
              sv_credentials := cr\<rparr>))"

text \<open>\<open>*information->prev = information->next\<close>\<close>

fun write_link :: "link \<Rightarrow> addr option \<Rightarrow> 'w server \<Rightarrow> 'w server outcome" where
  "write_link Head_Link n s = Ret (s\<lparr>sv_head := n\<rparr>)"
| "write_link (Next_Link b) n s =
     (case sv_heap s b of
        None \<Rightarrow> Fault Use_After_Free
      | Some node \<Rightarrow> Ret (s\<lparr>sv_heap := (sv_heap s)(b \<mapsto> node\<lparr>fd_next := n\<rparr>)\<rparr>))"

text \<open>\<open>close(information->file_descriptor)\<close>, which happens before the TLS session is ended.\<close>

definition close_descriptor :: "'w net \<Rightarrow> int \<Rightarrow> 'w server \<Rightarrow> 'w server" where
  "close_descriptor net fd s = s\<lparr>sv_closed := sv_closed s @ [fd], sv_world := net_close net fd (sv_world s)\<rparr>"

definition destroy_file_information :: "'w net \<Rightarrow> addr \<Rightarrow> 'w server \<Rightarrow> 'w server run" where
  "destroy_file_information net a s =
     (case sv_heap s a of
        None \<Rightarrow> Some (Fault Use_After_Free)
      | Some node \<Rightarrow>
          bindR (Some (write_link (fd_prev node) (fd_next node)
                         (close_descriptor net (file_descriptor node) s))) (\<lambda>s1.
          bindR (case fd_connection node of
                   None \<Rightarrow> Some (Ret (sv_world s1))
                 | Some c \<Rightarrow> destroy_connection_information net c (sv_world s1)) (\<lambda>w.
            Some (Ret (s1\<lparr>sv_world := w, sv_heap := (sv_heap s1)(a := None)\<rparr>)))))"

partial_function (option) close_all_file_descriptors :: "'w net \<Rightarrow> 'w server \<Rightarrow> 'w server run" where
  "close_all_file_descriptors net s =
     (case sv_head s of
        None \<Rightarrow> Some (Ret s)
      | Some a \<Rightarrow>
          (case destroy_file_information net a s of
             None \<Rightarrow> None
           | Some r \<Rightarrow> (case r of
                Fault f \<Rightarrow> Some (Fault f)
              | Ret s' \<Rightarrow> close_all_file_descriptors net s')))"

section \<open>Invariant\<close>

definition connection_ok :: "connection_information \<Rightarrow> bool" where
  "connection_ok c \<longleftrightarrow> buf_block (conn_buffer c) \<noteq> Freed \<and> request_ok (conn_request c) \<and>
     response_ok (conn_response c)"

text \<open>Every \<open>prev\<close> points to the head.\<close>

definition node_ok :: "file_descriptor_information \<Rightarrow> bool" where
  "node_ok n \<longleftrightarrow> fd_prev n = Head_Link \<and>
     (case fd_connection n of None \<Rightarrow> True | Some c \<Rightarrow> connection_ok c \<and> conn_fd c = file_descriptor n)"

text \<open>The function pointers of the connection hold what \<open>malloc\<close> left there.\<close>

definition unset :: "file_descriptor_information \<Rightarrow> bool" where
  "unset n \<longleftrightarrow> (\<exists>c. fd_connection n = Some c \<and> conn_transport c = No_Transport)"

text \<open>The list from a link, as the sequence of addresses.\<close>

fun chain_from :: "(addr \<Rightarrow> file_descriptor_information option) \<Rightarrow> addr option \<Rightarrow> addr list \<Rightarrow> bool" where
  "chain_from h p [] \<longleftrightarrow> p = None"
| "chain_from h p (a # as) \<longleftrightarrow> p = Some a \<and>
     (\<exists>n. h a = Some n \<and> node_ok n \<and> chain_from h (fd_next n) as)"

definition listed :: "'w server \<Rightarrow> addr list \<Rightarrow> bool" where
  "listed s as \<longleftrightarrow> distinct as \<and> chain_from (sv_heap s) (sv_head s) as"

definition descriptor_at :: "'w server \<Rightarrow> addr \<Rightarrow> int" where
  "descriptor_at s a = (case sv_heap s a of Some n \<Rightarrow> file_descriptor n | None \<Rightarrow> 0)"

definition unset_at :: "'w server \<Rightarrow> addr \<Rightarrow> bool" where
  "unset_at s a \<longleftrightarrow> (\<exists>n. sv_heap s a = Some n \<and> unset n)"

lemma chain_from_cong:
  "(\<And>a. a \<in> set as \<Longrightarrow> h a = h' a) \<Longrightarrow> chain_from h p as = chain_from h' p as"
  by (induction as arbitrary: p) auto

lemma chain_from_append:
  "chain_from h p (as @ b # bs) \<Longrightarrow> chain_from h (Some b) (b # bs) \<and> (\<forall>a \<in> set as. \<exists>n. h a = Some n \<and> node_ok n)"
  by (induction as arbitrary: p) auto

section \<open>Closing one descriptor\<close>

text \<open>
  The closing message of a TLS session is sent after its descriptor has been closed. POSIX lets
  every call on a closed descriptor fail with \<open>EBADF\<close>, and GnuTLS documents \<open>GNUTLS_E_AGAIN\<close> for
  a transport that would block, so that the call is not expected to give this code.
\<close>

definition closed_refuses :: "'w net \<Rightarrow> bool" where
  "closed_refuses net \<longleftrightarrow> (\<forall>fd w. fst (gnutls_bye net fd (net_close net fd w)) \<noteq> GNUTLS_E_AGAIN)"

text \<open>The function the pointer \<open>destroy_underlying\<close> of a node leads to, on the world.\<close>

definition shut_down :: "'w net \<Rightarrow> file_descriptor_information \<Rightarrow> 'w \<Rightarrow> 'w option" where
  "shut_down net n w =
     (case fd_connection n of
        Some c \<Rightarrow> (case conn_transport c of
            Tls_Transport _ \<Rightarrow> tls_destroy_underlying net (file_descriptor n) w
          | _ \<Rightarrow> Some w)
      | None \<Rightarrow> Some w)"

definition tls_node_at :: "'w server \<Rightarrow> addr \<Rightarrow> int \<Rightarrow> bool" where
  "tls_node_at s a fd \<longleftrightarrow> (\<exists>n c st. sv_heap s a = Some n \<and> fd_connection n = Some c \<and>
     conn_transport c = Tls_Transport st \<and> file_descriptor n = fd)"

lemma shut_down_None:
  assumes "shut_down net n (net_close net (file_descriptor n) w) = None" "sv_heap s a = Some n"
  shows "tls_node_at s a (file_descriptor n)"
    "fst (gnutls_bye net (file_descriptor n) (net_close net (file_descriptor n) w)) = GNUTLS_E_AGAIN"
proof -
  let ?fd = "file_descriptor n"
  show "tls_node_at s a ?fd"
    using assms by (auto simp: shut_down_def tls_node_at_def split: option.splits transport.splits)
  have "tls_destroy_underlying net ?fd (net_close net ?fd w) = None"
    using assms(1) by (auto simp: shut_down_def split: option.splits transport.splits)
  then show "fst (gnutls_bye net ?fd (net_close net ?fd w)) = GNUTLS_E_AGAIN"
    unfolding tls_destroy_underlying_def by (subst (asm) bye_loop.simps) (auto split: prod.splits if_splits)
qed

lemma shut_down_ends:
  "closed_refuses net \<Longrightarrow> shut_down net n (net_close net (file_descriptor n) w) \<noteq> None"
  using shut_down_None(2) [of net n w "undefined\<lparr>sv_heap := [0 \<mapsto> n]\<rparr>" 0] by (auto simp: closed_refuses_def)

lemma destroy_connection_eq:
  assumes "fd_connection n = Some c" "connection_ok c" "conn_fd c = file_descriptor n"
  shows "destroy_connection_information net c w =
    (if unset n then Some (Fault Uninitialised) else map_option Ret (shut_down net n w))"
proof -
  obtain q where "c_free (buf_block (conn_buffer c)) = Ret q"
    using assms(2) c_free_safe_iff [of "buf_block (conn_buffer c)"] by (auto simp: connection_ok_def)
  moreover have "http_request_destroy (conn_request c) = Ret (http_request_initialize (conn_request c))"
    using assms(2) by (simp add: connection_ok_def http_request_destroy_eq)
  moreover have "http_response_destroy (conn_response c) = Ret (http_response_initialize (conn_response c))"
    using assms(2) by (simp add: connection_ok_def http_response_destroy_eq)
  ultimately show ?thesis
    using assms(1,3) by (cases "conn_transport c") (auto simp: destroy_connection_information_def unset_def shut_down_def)
qed

text \<open>Destroying a node makes the rest of its list the whole list.\<close>

definition without :: "addr \<Rightarrow> file_descriptor_information \<Rightarrow> 'w \<Rightarrow> 'w server \<Rightarrow> 'w server" where
  "without a n w s = s\<lparr>sv_closed := sv_closed s @ [file_descriptor n], sv_head := fd_next n,
     sv_heap := (sv_heap s)(a := None), sv_world := w\<rparr>"

lemma without_simps [simp]:
  "sv_closed (without a n w s) = sv_closed s @ [file_descriptor n]" "sv_head (without a n w s) = fd_next n"
  "sv_heap (without a n w s) = (sv_heap s)(a := None)" "sv_world (without a n w s) = w"
  by (simp_all add: without_def)

lemma destroy_node:
  assumes "sv_heap s a = Some n" "node_ok n"
  shows "destroy_file_information net a s =
    (if unset n then Some (Fault Uninitialised)
     else map_option (\<lambda>w. Ret (without a n w s)) (shut_down net n (net_close net (file_descriptor n) (sv_world s))))"
proof (cases "fd_connection n")
  case None
  then have "\<not> unset n" "shut_down net n = Some" by (auto simp: unset_def shut_down_def)
  then show ?thesis using assms None
    by (simp add: destroy_file_information_def close_descriptor_def node_ok_def without_def)
next
  case (Some c)
  then have c: "connection_ok c" "conn_fd c = file_descriptor n" using assms(2) by (simp_all add: node_ok_def)
  show ?thesis
    using assms Some destroy_connection_eq [OF Some c, of net]
    by (cases "shut_down net n (net_close net (file_descriptor n) (sv_world s))")
      (simp_all add: destroy_file_information_def close_descriptor_def node_ok_def without_def)
qed

lemma destroy_node_returns:
  assumes "sv_heap s a = Some n" "node_ok n" "\<not> unset n" "closed_refuses net"
  obtains w where "destroy_file_information net a s = Some (Ret (without a n w s))"
  using destroy_node [OF assms(1,2), of net] assms(3) shut_down_ends [OF assms(4), of n "sv_world s"] by auto

section \<open>Closing all\<close>

lemma listed_without:
  assumes "listed s (a # as)" "sv_heap s a = Some n"
  shows "listed (without a n w s) as" "node_ok n"
proof -
  have n: "node_ok n" "chain_from (sv_heap s) (fd_next n) as" "a \<notin> set as" "distinct as"
    using assms by (auto simp: listed_def)
  have "chain_from ((sv_heap s)(a := None)) (fd_next n) as"
    by (subst chain_from_cong [of as _ "sv_heap s"]) (use n in auto)
  then show "listed (without a n w s) as" "node_ok n" using n by (simp_all add: listed_def)
qed

text \<open>The three ways in which closing a list can go.\<close>

lemma close_all_listed:
  "listed s as \<Longrightarrow>
     (case close_all_file_descriptors net s of
        None \<Rightarrow> \<exists>a\<in>set as. \<exists>fd w. tls_node_at s a fd \<and> fst (gnutls_bye net fd (net_close net fd w)) = GNUTLS_E_AGAIN
      | Some (Fault f) \<Rightarrow> f = Uninitialised \<and> (\<exists>a\<in>set as. unset_at s a)
      | Some (Ret s') \<Rightarrow> (\<forall>a\<in>set as. \<not> unset_at s a) \<and> sv_head s' = None \<and>
          sv_closed s' = sv_closed s @ map (descriptor_at s) as \<and>
          sv_heap s' = (\<lambda>x. if x \<in> set as then None else sv_heap s x))"
proof (induction as arbitrary: s)
  case Nil
  then show ?case by (subst close_all_file_descriptors.simps) (simp add: listed_def)
next
  case (Cons a as)
  then obtain n where n: "sv_head s = Some a" "sv_heap s a = Some n" "a \<notin> set as" by (auto simp: listed_def)
  note destroy = destroy_node [OF n(2) listed_without(2) [OF Cons.prems n(2)], of net]
  show ?case
  proof (cases "unset n")
    case True
    then have "close_all_file_descriptors net s = Some (Fault Uninitialised)"
      by (subst close_all_file_descriptors.simps) (simp add: n(1) destroy)
    then show ?thesis using True n(2) by (auto simp: unset_at_def)
  next
    case set: False
    show ?thesis
    proof (cases "shut_down net n (net_close net (file_descriptor n) (sv_world s))")
      case None
      then have "close_all_file_descriptors net s = None"
        using set by (subst close_all_file_descriptors.simps) (simp add: n(1) destroy)
      then show ?thesis using shut_down_None [OF None n(2)] by auto
    next
      case (Some w)
      let ?s = "without a n w s"
      have eq: "close_all_file_descriptors net s = close_all_file_descriptors net ?s"
        using set Some by (subst close_all_file_descriptors.simps) (simp add: n(1) destroy)
      have same: "tls_node_at ?s x = tls_node_at s x" "unset_at ?s x = unset_at s x"
          "descriptor_at ?s x = descriptor_at s x" if "x \<in> set as" for x
        using that n(3) by (auto simp: tls_node_at_def unset_at_def descriptor_at_def fun_eq_iff)
      have a: "\<not> unset_at s a" "descriptor_at s a = file_descriptor n"
        using set n(2) by (auto simp: unset_at_def descriptor_at_def)
      show ?thesis
        using Cons.IH [OF listed_without(1) [OF Cons.prems n(2)], of w] same a
        by (auto simp: eq fun_eq_iff split: option.splits outcome.splits)
    qed
  qed
qed

lemma close_all_returns:
  assumes "listed s as" "closed_refuses net" "\<forall>a\<in>set as. \<not> unset_at s a"
  obtains s' where "close_all_file_descriptors net s = Some (Ret s')" "sv_head s' = None"
    "sv_closed s' = sv_closed s @ map (descriptor_at s) as" "sv_heap s' = (\<lambda>x. if x \<in> set as then None else sv_heap s x)"
  using close_all_listed [OF assms(1), of net] assms(2,3)
  by (auto simp: closed_refuses_def split: option.splits outcome.splits)

section \<open>Registering descriptors\<close>

text \<open>
  How the set-up of a TLS session can go wrong: a call fails and \<open>tls_initialize_underlying\<close> returns
  before it has set the function pointers, or the credential cannot be had and the program exits.
\<close>

definition setup_fails :: "tls_setup \<Rightarrow> bool" where
  "setup_fails t \<longleftrightarrow> ts_init t \<noteq> GNUTLS_E_SUCCESS \<or> ts_priority t \<noteq> GNUTLS_E_SUCCESS \<or> ts_set t \<noteq> GNUTLS_E_SUCCESS"

definition setup_exits :: "tls_setup \<Rightarrow> bool" where
  "setup_exits t \<longleftrightarrow> ts_init t = GNUTLS_E_SUCCESS \<and> ts_priority t = GNUTLS_E_SUCCESS \<and>
     (ts_allocated t \<noteq> GNUTLS_E_SUCCESS \<or> ts_loaded t \<noteq> GNUTLS_E_SUCCESS)"

lemma initialize_connection_cases:
  assumes "type \<noteq> LISTEN_SOCKET"
  shows "case initialize_connection_information ndebug fresh type fd cr of
      Fault f \<Rightarrow> f = Exit_Failure \<and> type = TLS_SOCKET \<and> setup_exits (fr_tls fresh)
    | Ret (c, cr') \<Rightarrow> connection_ok c \<and> conn_fd c = fd \<and> conn_state c = ConnectionStatusWaitingRequest \<and>
        conn_buffer c = \<lparr>buf_block = Null, buf_capability = 0, buf_start = 0, buf_end = 0\<rparr> \<and>
        conn_response c = snd (http_response_initialize (fr_response fresh)) \<and>
        conn_transport c = (if type = TCP_SOCKET then Tcp_Transport
          else if setup_fails (fr_tls fresh) then No_Transport else Tls_Transport TLS_STATE_Initialized)"
proof -
  have ok: "request_ok (snd (http_request_initialize (fr_request fresh)))"
    "response_ok (snd (http_response_initialize (fr_response fresh)))"
    by (simp_all add: http_request_initialize_ok http_response_initialize_ok)
  have tls: "case tls_initialize_underlying t cr of
      Fault f \<Rightarrow> f = Exit_Failure \<and> setup_exits t
    | Ret (tr, cr') \<Rightarrow> tr = (if setup_fails t then No_Transport else Tls_Transport TLS_STATE_Initialized)" for t
    by (auto simp: tls_initialize_underlying_def get_credential_def Let_def setup_fails_def setup_exits_def)
  show ?thesis
    using assms tls [of "fr_tls fresh"] ok
    by (cases type; cases "tls_initialize_underlying (fr_tls fresh) cr")
      (auto simp: initialize_connection_information_def tcp_initialize_underlying_def connection_ok_def)
qed

definition fails_at_setup :: "fresh_connection \<Rightarrow> file_descriptor_type \<Rightarrow> bool" where
  "fails_at_setup fresh type \<longleftrightarrow> type = TLS_SOCKET \<and> setup_fails (fr_tls fresh)"

text \<open>The node a registration makes.\<close>

lemma register_cases:
  "case register_file_descriptor ndebug fresh fd type s of
      Fault f \<Rightarrow> f = Exit_Failure \<and> type = TLS_SOCKET \<and> setup_exits (fr_tls fresh)
    | Ret (a, s') \<Rightarrow> a = fr_addr fresh \<and>
        (\<exists>c cr. s' = s\<lparr>sv_heap := (sv_heap s)(a \<mapsto> \<lparr>fd_type = type, file_descriptor = fd, fd_next = sv_head s,
               fd_prev = Head_Link, fd_connection = c\<rparr>), sv_head := Some a, sv_credentials := cr\<rparr> \<and>
           (if type = LISTEN_SOCKET then c = None
            else \<exists>c'. c = Some c' \<and>
              initialize_connection_information ndebug fresh type fd (sv_credentials s) = Ret (c', cr)))"
proof (cases "type = LISTEN_SOCKET")
  case True
  have "s\<lparr>sv_credentials := sv_credentials s\<rparr> = s" by (cases s) simp
  with True show ?thesis
    by (auto simp: register_file_descriptor_def intro!: exI [of _ "sv_credentials s"])
next
  case False
  note init = initialize_connection_cases [OF False, where ndebug = ndebug and fresh = fresh and fd = fd
      and cr = "sv_credentials s"]
  show ?thesis
  proof (cases "initialize_connection_information ndebug fresh type fd (sv_credentials s)")
    case (Fault f)
    then show ?thesis using False init by (simp add: register_file_descriptor_def)
  next
    case (Ret x)
    obtain c cr where x: "x = (c, cr)" by (rule prod.exhaust)
    show ?thesis
      unfolding register_file_descriptor_def
      by (simp add: False Ret x)
  qed
qed

lemma register_listed:
  assumes "listed s as" "sv_heap s (fr_addr fresh) = None"
    and r: "register_file_descriptor ndebug fresh fd type s = Ret (a, s')"
  shows "listed s' (a # as) \<and> descriptor_at s' a = fd \<and> a = fr_addr fresh \<and>
    (\<forall>x. x \<noteq> a \<longrightarrow> sv_heap s' x = sv_heap s x) \<and> sv_closed s' = sv_closed s \<and>
    (unset_at s' a \<longleftrightarrow> fails_at_setup fresh type) \<and> (\<forall>d. tls_node_at s' a d \<longrightarrow> type = TLS_SOCKET \<and> d = fd)"
proof -
  note cases = register_cases [where ndebug = ndebug and fresh = fresh and fd = fd and type = type and s = s,
      unfolded r outcome.case prod.case]
  have a: "a = fr_addr fresh" by (rule conjunct1 [OF cases])
  obtain c cr where s': "s' = s\<lparr>sv_heap := (sv_heap s)(a \<mapsto>
        \<lparr>fd_type = type, file_descriptor = fd, fd_next = sv_head s, fd_prev = Head_Link, fd_connection = c\<rparr>),
      sv_head := Some a, sv_credentials := cr\<rparr>"
    "if type = LISTEN_SOCKET then c = None
     else \<exists>c'. c = Some c' \<and> initialize_connection_information ndebug fresh type fd (sv_credentials s) = Ret (c', cr)"
    using conjunct2 [OF cases] by (elim exE conjE) (rule that)
  let ?n = "\<lparr>fd_type = type, file_descriptor = fd, fd_next = sv_head s, fd_prev = Head_Link, fd_connection = c\<rparr>"
  have n: "node_ok ?n \<and> (unset ?n \<longleftrightarrow> fails_at_setup fresh type) \<and>
    (\<forall>c' st. c = Some c' \<and> conn_transport c' = Tls_Transport st \<longrightarrow> type = TLS_SOCKET)"
  proof (cases "type = LISTEN_SOCKET")
    case True
    then show ?thesis using s'(2) by (simp add: node_ok_def unset_def fails_at_setup_def)
  next
    case False
    then obtain c' where c': "c = Some c'"
        "initialize_connection_information ndebug fresh type fd (sv_credentials s) = Ret (c', cr)"
      using s'(2) by auto
    note init = initialize_connection_cases [OF False, where ndebug = ndebug and fresh = fresh and fd = fd
        and cr = "sv_credentials s", unfolded c'(2) outcome.case prod.case]
    show ?thesis
      using False init c'(1) by (cases type) (simp_all add: node_ok_def unset_def fails_at_setup_def)
  qed
  have fresh: "a \<notin> set as"
  proof
    assume "a \<in> set as"
    then obtain xs ys where "as = xs @ fr_addr fresh # ys" using a by (metis split_list)
    then show False using assms(1,2) chain_from_append by (fastforce simp: listed_def)
  qed
  then have "chain_from (sv_heap s') (sv_head s) as"
    by (subst chain_from_cong [of as _ "sv_heap s"]) (use assms(1) s'(1) in \<open>auto simp: listed_def\<close>)
  then show ?thesis
    using fresh a s'(1) assms(1) n by (auto simp: listed_def descriptor_at_def unset_at_def tls_node_at_def)
qed

fun register_all ::
  "bool \<Rightarrow> (fresh_connection \<times> int \<times> file_descriptor_type) list \<Rightarrow> 'w server \<Rightarrow> 'w server outcome" where
  "register_all ndebug [] s = Ret s"
| "register_all ndebug ((fresh, fd, type) # regs) s =
     bindO (register_file_descriptor ndebug fresh fd type s) (\<lambda>(_, s'). register_all ndebug regs s')"

lemma register_all_fault:
  "register_all ndebug regs s = Fault f \<Longrightarrow>
     f = Exit_Failure \<and> (\<exists>(fresh, fd, type)\<in>set regs. type = TLS_SOCKET \<and> setup_exits (fr_tls fresh))"
proof (induction ndebug regs s rule: register_all.induct)
  case (2 ndebug fresh fd type regs s)
  then show ?case
    using register_cases [where ndebug = ndebug and fresh = fresh and fd = fd and type = type and s = s]
    by (cases "register_file_descriptor ndebug fresh fd type s") auto
qed simp

text \<open>The nodes of several registrations are listed, the newest first, and each is as its registration says.\<close>

abbreviation registered_at :: "(fresh_connection \<times> int \<times> file_descriptor_type) list \<Rightarrow> addr list" where
  "registered_at regs \<equiv> map (\<lambda>r. fr_addr (fst r)) regs"

definition as_registered :: "'w server \<Rightarrow> fresh_connection \<times> int \<times> file_descriptor_type \<Rightarrow> bool" where
  "as_registered s r \<longleftrightarrow> (case r of (fresh, fd, type) \<Rightarrow>
     descriptor_at s (fr_addr fresh) = fd \<and> (unset_at s (fr_addr fresh) \<longleftrightarrow> fails_at_setup fresh type) \<and>
     (\<forall>d. tls_node_at s (fr_addr fresh) d \<longrightarrow> type = TLS_SOCKET \<and> d = fd))"

lemma register_all_listed:
  assumes "listed s as" "distinct (registered_at regs)"
    and "\<forall>r \<in> set regs. sv_heap s (fr_addr (fst r)) = None"
    and "register_all ndebug regs s = Ret s'"
  shows "listed s' (rev (registered_at regs) @ as) \<and> (\<forall>r\<in>set regs. as_registered s' r) \<and>
    (\<forall>x. x \<notin> set (registered_at regs) \<longrightarrow> sv_heap s' x = sv_heap s x) \<and> sv_closed s' = sv_closed s"
  using assms
proof (induction regs arbitrary: s as)
  case (Cons r regs)
  obtain fresh fd type where r: "r = (fresh, fd, type)" by (cases r)
  let ?a = "fr_addr fresh"
  obtain a s1 where s1: "register_file_descriptor ndebug fresh fd type s = Ret (a, s1)"
      "register_all ndebug regs s1 = Ret s'"
    using Cons.prems(4) r by (auto simp: bindO_Ret_iff)
  have reg: "listed s1 (?a # as)" "as_registered s1 r"
      "\<forall>x. x \<noteq> ?a \<longrightarrow> sv_heap s1 x = sv_heap s x" "sv_closed s1 = sv_closed s"
    using register_listed [OF Cons.prems(1) _ s1(1)] Cons.prems(3) r by (auto simp: as_registered_def)
  have na: "?a \<notin> set (registered_at regs)" and d: "distinct (registered_at regs)" using Cons.prems(2) r by simp_all
  have unused: "\<forall>r \<in> set regs. sv_heap s1 (fr_addr (fst r)) = None"
  proof
    fix r' assume "r' \<in> set regs"
    then have "fr_addr (fst r') \<noteq> ?a" "sv_heap s (fr_addr (fst r')) = None"
      using na Cons.prems(3) by force+
    with reg(3) show "sv_heap s1 (fr_addr (fst r')) = None" by simp
  qed
  note IH = Cons.IH [OF reg(1) d unused s1(2)]
  have "sv_heap s' ?a = sv_heap s1 ?a" using IH na by blast
  then have "as_registered s' r"
    using reg(2) r unfolding as_registered_def descriptor_at_def unset_at_def tls_node_at_def by (simp only: prod.case) blast
  then show ?case using IH reg(3,4) r by auto
qed simp

section \<open>A concrete server\<close>

text \<open>A world in which nothing arrives, and a list of three listening sockets at 3, 2, 1.\<close>

definition quiet_net :: "unit net" where
  "quiet_net =
     \<lparr>net_recv = (\<lambda>fd n w. (Inl EAGAIN, w)), net_send = (\<lambda>fd b w. (Inl EAGAIN, w)),
      gnutls_handshake = (\<lambda>fd w. (GNUTLS_E_AGAIN, w)),
      gnutls_record_recv = (\<lambda>fd n w. (Inl GNUTLS_E_AGAIN, w)),
      gnutls_record_send = (\<lambda>fd b w. (Inl GNUTLS_E_AGAIN, w)),
      gnutls_bye = (\<lambda>fd w. (GNUTLS_E_OTHER (-53), w)), net_close = (\<lambda>fd w. w)\<rparr>"

lemma quiet_closed_refuses: "closed_refuses quiet_net"
  by (simp add: closed_refuses_def quiet_net_def)

definition empty_server :: "unit server" where
  "empty_server =
     \<lparr>sv_heap = Map.empty, sv_head = None, sv_closed = [], sv_running = True,
      sv_log_level = LOGGING_LOG_LEVEL_INFORMATION, sv_code = None, sv_cwd = None,
      sv_credentials = credential_start, sv_world = ()\<rparr>"

definition sample_fresh :: "addr \<Rightarrow> fresh_connection" where
  "sample_fresh a =
     \<lparr>fr_addr = a,
      fr_request = \<lparr>req_state = HTTP_REQUEST_STATE_INVALID,
        start_line = \<lparr>sl_method = HTTP_REQUEST_METHOD_GET, sl_http_version = Freed,
          sl_http_version_length = 7, sl_url = Freed, sl_url_length = 7\<rparr>,
        req_headers = [], req_body = empty_body\<rparr>,
      fr_response = \<lparr>state_line = \<lparr>st_code = 77, st_description = Freed, st_description_length = 7\<rparr>,
        res_headers = [], res_body = empty_body\<rparr>,
      fr_peer = \<lparr>ss_family = AF_INET, port_high = 156, port_low = 64, host_bytes = [10, 0, 0, 1]\<rparr>,
      fr_tls = \<lparr>ts_init = GNUTLS_E_SUCCESS, ts_priority = GNUTLS_E_SUCCESS,
        ts_allocated = GNUTLS_E_SUCCESS, ts_loaded = GNUTLS_E_SUCCESS, ts_fresh = 1,
        ts_set = GNUTLS_E_SUCCESS\<rparr>\<rparr>"

definition listening_node :: "int \<Rightarrow> addr option \<Rightarrow> file_descriptor_information" where
  "listening_node fd n =
     \<lparr>fd_type = LISTEN_SOCKET, file_descriptor = fd, fd_next = n, fd_prev = Head_Link, fd_connection = None\<rparr>"

definition three_listening :: "unit server" where
  "three_listening = empty_server\<lparr>sv_head := Some 3,
     sv_heap := [1 \<mapsto> listening_node 4 None, 2 \<mapsto> listening_node 5 (Some 1), 3 \<mapsto> listening_node 6 (Some 2)]\<rparr>"

lemma three_listed: "listed three_listening [3, 2, 1]"
  by (simp add: listed_def three_listening_def listening_node_def node_ok_def)

section \<open>Properties\<close>

text \<open>
  C27. Every descriptor is closed exactly once. Starting with an empty list, any sequence of
  registrations at distinct addresses (listening sockets, TCP and TLS connections) succeeds,
  unless the program exits because the credential of a TLS connection cannot be had. Then
  \<open>close_all_file_descriptors\<close> has one of three ends. It returns, and then no TLS set-up had
  failed, exactly the registered descriptors have been closed, newest first, and all nodes are
  freed. Or it calls a function pointer that was never set, which happens only if the set-up of
  a registered TLS connection had failed. Or it does not return, which happens only if \<open>gnutls_bye\<close>
  answers \<open>GNUTLS_E_AGAIN\<close> on the closed descriptor of a registered TLS connection.
\<close>

theorem descriptors_closed_once:
  assumes "sv_head s = None" "sv_heap s = Map.empty"
    and "distinct (map (\<lambda>r. fr_addr (fst r)) regs)"
  shows "case register_all ndebug regs s of
      Fault f \<Rightarrow> f = Exit_Failure \<and> (\<exists>(fresh, fd, type)\<in>set regs. type = TLS_SOCKET \<and> setup_exits (fr_tls fresh))
    | Ret s1 \<Rightarrow> (case close_all_file_descriptors net s1 of
        Some (Ret s2) \<Rightarrow> (\<forall>(fresh, fd, type)\<in>set regs. \<not> fails_at_setup fresh type) \<and>
          sv_closed s2 = sv_closed s @ rev (map (\<lambda>r. fst (snd r)) regs) \<and>
          sv_heap s2 = Map.empty \<and> sv_head s2 = None
      | Some (Fault f) \<Rightarrow> f = Uninitialised \<and> (\<exists>(fresh, fd, type)\<in>set regs. fails_at_setup fresh type)
      | None \<Rightarrow> \<exists>(fresh, fd, type)\<in>set regs. type = TLS_SOCKET \<and>
          (\<exists>w. fst (gnutls_bye net fd (net_close net fd w)) = GNUTLS_E_AGAIN))"
proof (cases "register_all ndebug regs s")
  case (Fault f)
  then show ?thesis using register_all_fault by fastforce
next
  case (Ret s1)
  have "listed s []" using assms(1) by (simp add: listed_def)
  from register_all_listed [OF this assms(3) _ Ret] assms(2)
  have l: "listed s1 (rev (registered_at regs))" and r: "\<forall>r\<in>set regs. as_registered s1 r"
    and h: "\<forall>x. x \<notin> set (registered_at regs) \<longrightarrow> sv_heap s1 x = None" and cl: "sv_closed s1 = sv_closed s"
    by auto
  have d: "map (descriptor_at s1) (registered_at regs) = map (\<lambda>r. fst (snd r)) regs"
    using r by (auto simp: as_registered_def)
  have u: "(\<exists>a\<in>set (registered_at regs). unset_at s1 a) \<longleftrightarrow> (\<exists>(fresh, fd, type)\<in>set regs. fails_at_setup fresh type)"
    using r by (fastforce simp: as_registered_def)
  have t: "\<exists>(fresh, fd, type)\<in>set regs. type = TLS_SOCKET \<and> d = fd"
    if "a \<in> set (registered_at regs)" "tls_node_at s1 a d" for a d
    using r that by (fastforce simp: as_registered_def)
  show ?thesis
  proof (cases "close_all_file_descriptors net s1")
    case None
    then obtain a fd w where "a \<in> set (registered_at regs)" "tls_node_at s1 a fd"
        "fst (gnutls_bye net fd (net_close net fd w)) = GNUTLS_E_AGAIN"
      using close_all_listed [OF l, of net] by auto
    with t [of a fd] Ret None show ?thesis by fastforce
  next
    case (Some y)
    show ?thesis
    proof (cases y)
      case (Fault f)
      then show ?thesis using close_all_listed [OF l, of net] Ret Some u by simp
    next
      case (Ret s2)
      have c: "(\<forall>a\<in>set (registered_at regs). \<not> unset_at s1 a) \<and> sv_head s2 = None \<and>
          sv_closed s2 = sv_closed s1 @ rev (map (\<lambda>r. fst (snd r)) regs) \<and>
          sv_heap s2 = (\<lambda>x. if x \<in> set (registered_at regs) then None else sv_heap s1 x)"
        using close_all_listed [OF l, of net] Some Ret d by (simp add: rev_map)
      have "sv_heap s2 = Map.empty" using c h by auto
      moreover have "\<forall>(fresh, fd, type)\<in>set regs. \<not> fails_at_setup fresh type" using c u by blast
      ultimately show ?thesis using \<open>register_all ndebug regs s = Ret s1\<close> Some Ret c cl by simp
    qed
  qed
qed

lemma descriptors_closed_once_witness:
  "\<exists>s1 s2. register_all False
      [(sample_fresh 10, 4, LISTEN_SOCKET), (sample_fresh 20, 5, TCP_SOCKET), (sample_fresh 30, 6, TLS_SOCKET)]
      empty_server = Ret s1 \<and>
    close_all_file_descriptors quiet_net s1 = Some (Ret s2) \<and> sv_closed s2 = [6, 5, 4] \<and>
    sv_heap s2 = Map.empty \<and> sv_head s2 = None"
proof -
  let ?regs = "[(sample_fresh 10, 4, LISTEN_SOCKET), (sample_fresh 20, 5, TCP_SOCKET), (sample_fresh 30, 6, TLS_SOCKET)]"
  have ok: "\<not> setup_exits (fr_tls (sample_fresh a))" "\<not> fails_at_setup (sample_fresh a) type" for a type
    by (simp_all add: setup_exits_def fails_at_setup_def setup_fails_def sample_fresh_def)
  have "distinct (map (\<lambda>r. fr_addr (fst r)) ?regs)" "sv_head empty_server = None" "sv_heap empty_server = Map.empty"
      "sv_closed empty_server = []"
    by (simp_all add: sample_fresh_def empty_server_def)
  with descriptors_closed_once [where s = empty_server and regs = ?regs and ndebug = False and net = quiet_net] ok quiet_closed_refuses show ?thesis
    by (simp add: closed_refuses_def split: outcome.splits option.splits)
qed

text \<open>
  C30. Destroying an older descriptor loses the newer ones. \<open>register_file_descriptor\<close> does not
  update the \<open>prev\<close> of the old first node, so every \<open>prev\<close> points to the head: when a
  connection that is not the newest one is destroyed, all newer nodes drop out of the list,
  and \<open>close_all_file_descriptors\<close> neither closes nor frees them. This is for connections whose
  set-up did not fail, and GnuTLS not answering \<open>GNUTLS_E_AGAIN\<close> on a closed descriptor (C27).
\<close>

theorem destroy_loses_newer:
  assumes "listed s (newer @ a # older)" "closed_refuses net" "\<forall>x\<in>set (a # older). \<not> unset_at s x"
  shows "\<exists>s1 s2. destroy_file_information net a s = Some (Ret s1) \<and> listed s1 older \<and>
    close_all_file_descriptors net s1 = Some (Ret s2) \<and>
    sv_closed s2 = sv_closed s @ map (descriptor_at s) (a # older) \<and>
    (\<forall>x \<in> set newer. sv_heap s2 x = sv_heap s x \<and> sv_heap s2 x \<noteq> None)"
proof -
  have d: "distinct (newer @ a # older)" and ch: "chain_from (sv_heap s) (Some a) (a # older)"
    and nw: "\<forall>x \<in> set newer. sv_heap s x \<noteq> None"
    using assms(1) chain_from_append [of "sv_heap s" "sv_head s" newer a older] by (auto simp: listed_def)
  then obtain n where n: "sv_heap s a = Some n" "node_ok n" by auto
  have "\<not> unset n" using assms(3) n(1) by (auto simp: unset_at_def)
  from destroy_node_returns [OF n this assms(2)] obtain w where
    s1: "destroy_file_information net a s = Some (Ret (without a n w s))" by blast
  have "chain_from ((sv_heap s)(a := None)) (fd_next n) older"
    by (subst chain_from_cong [of older _ "sv_heap s"]) (use ch n(1) d in auto)
  then have l: "listed (without a n w s) older" using d by (simp add: listed_def)
  have same: "descriptor_at (without a n w s) x = descriptor_at s x" "unset_at (without a n w s) x = unset_at s x"
    if "x \<in> set older" for x
    using that d by (auto simp: descriptor_at_def unset_at_def)
  have "\<forall>x\<in>set older. \<not> unset_at (without a n w s) x" using same(2) assms(3) by simp
  from close_all_returns [OF l assms(2) this] obtain s2 where
    s2: "close_all_file_descriptors net (without a n w s) = Some (Ret s2)"
      "sv_closed s2 = sv_closed (without a n w s) @ map (descriptor_at (without a n w s)) older"
      "sv_heap s2 = (\<lambda>x. if x \<in> set older then None else sv_heap (without a n w s) x)" by blast
  have "map (descriptor_at (without a n w s)) older = map (descriptor_at s) older"
      "descriptor_at s a = file_descriptor n"
    using same n(1) by (auto simp: descriptor_at_def)
  then show ?thesis
    using s1 l s2 nw d by (intro exI [of _ "without a n w s"] exI [of _ s2]) auto
qed

lemma three_not_unset: "\<not> unset_at three_listening x"
  by (auto simp: unset_at_def unset_def three_listening_def listening_node_def)

lemma destroy_loses_newer_witness:
  "\<exists>s1 s2. destroy_file_information quiet_net 2 three_listening = Some (Ret s1) \<and>
    close_all_file_descriptors quiet_net s1 = Some (Ret s2) \<and> sv_closed s2 = [5, 4] \<and>
    sv_heap s2 3 = Some (listening_node 6 (Some 2))"
  using destroy_loses_newer [of three_listening "[3]" 2 "[1]" quiet_net] three_listed three_not_unset quiet_closed_refuses
  by (auto simp: three_listening_def descriptor_at_def listening_node_def empty_server_def)

text \<open>
  And then leaves a dangling head. If the node registered right after the destroyed one is
  destroyed next, the head of the list points to the freed node: the next access to the list
  is a use after free.
\<close>

lemma destroy_leaves_dangling_head:
  assumes "listed s (newer @ [b] @ a # older)" "closed_refuses net" "\<not> unset_at s a" "\<not> unset_at s b"
  shows "\<exists>s1 s2. destroy_file_information net a s = Some (Ret s1) \<and>
    destroy_file_information net b s1 = Some (Ret s2) \<and> sv_head s2 = Some a \<and> sv_heap s2 a = None \<and>
    close_all_file_descriptors net s2 = Some (Fault Use_After_Free)"
proof -
  have ba: "b \<noteq> a" and ch: "chain_from (sv_heap s) (Some b) (b # a # older)"
    using assms(1) chain_from_append [of "sv_heap s" "sv_head s" newer b "a # older"] by (auto simp: listed_def)
  then obtain nb na where nb: "sv_heap s b = Some nb" "node_ok nb" "fd_next nb = Some a"
      and na: "sv_heap s a = Some na" "node_ok na" by auto
  have set: "\<not> unset na" "\<not> unset nb" using assms(3,4) na nb by (auto simp: unset_at_def)
  from destroy_node_returns [OF na set(1) assms(2)] obtain w where
    s1: "destroy_file_information net a s = Some (Ret (without a na w s))" by blast
  have "sv_heap (without a na w s) b = Some nb" using nb(1) ba by simp
  from destroy_node_returns [OF this nb(2) set(2) assms(2)] obtain w' where
    s2: "destroy_file_information net b (without a na w s) = Some (Ret (without b nb w' (without a na w s)))" by blast
  have "close_all_file_descriptors net (without b nb w' (without a na w s)) = Some (Fault Use_After_Free)"
    using nb(3) ba by (subst close_all_file_descriptors.simps) (simp add: destroy_file_information_def)
  with s1 s2 nb(3) ba show ?thesis by auto
qed

lemma destroy_leaves_dangling_head_witness:
  "\<exists>s1 s2. destroy_file_information quiet_net 2 three_listening = Some (Ret s1) \<and>
    destroy_file_information quiet_net 3 s1 = Some (Ret s2) \<and> sv_head s2 = Some 2 \<and>
    close_all_file_descriptors quiet_net s2 = Some (Fault Use_After_Free)"
  using destroy_leaves_dangling_head [of three_listening "[]" 3 2 "[1]" quiet_net] three_listed three_not_unset
    quiet_closed_refuses
  by auto

end
