(* ===== verification/Transaction.thy ===== *)
theory Transaction
  imports Descriptors Range_Header Auth_Code
begin

text \<open>
  The reply to one request (\<open>server.c\<close>: \<open>current_working_directory\<close>, \<open>get_request_header\<close>,
  \<open>generate_forbidden\<close>, \<open>generate_not_found\<close>, \<open>handle_http_transaction\<close>).

  The kernel and the C library are the record \<open>environment\<close>: the address a socket is bound
  to, \<open>inet_ntop\<close>, the random words, the working directory, \<open>realpath\<close>, and what \<open>open\<close>
  finds under a path. The \<open>static\<close> variables are the fields of \<open>server\<close>. The answer to a
  failed \<open>open\<close>, \<open>realpath\<close> or \<open>getcwd\<close> is \<open>None\<close>.
\<close>

section \<open>The environment\<close>

datatype opened = Regular_File string | Directory nat

fun st_size :: "opened \<Rightarrow> nat" where
  "st_size (Regular_File c) = length c"
| "st_size (Directory n) = n"

definition page_size :: nat where "page_size = 4096"

text \<open>
  What may be read through the pointer \<open>mmap\<close> returns when the whole file is mapped: the
  file, and zeros up to the end of its last page. A mapping of a directory fails, and so does a
  mapping of no bytes: nothing can be read through \<open>MAP_FAILED\<close>. The code does not look at the
  result; for an empty file it copies 0 bytes from \<open>MAP_FAILED\<close>, which is taken to read nothing,
  as it does in practice, though C17 asks for a valid pointer here too.
\<close>

fun mmap_file :: "opened \<Rightarrow> string" where
  "mmap_file (Regular_File c) =
     c @ replicate ((page_size - length c mod page_size) mod page_size) NUL"
| "mmap_file (Directory n) = []"

record environment =
  env_junk :: "nat \<Rightarrow> string"                           \<comment> \<open>what \<open>malloc\<close> leaves in a block\<close>
  env_sockname :: "int \<Rightarrow> socket_address"
  env_ntop :: "address_family \<Rightarrow> nat list \<Rightarrow> cstring"
  env_random :: "uint64 list"
  env_getcwd :: "cstring option"
  env_realpath :: "cstring \<Rightarrow> cstring option"
  env_open :: "cstring \<Rightarrow> opened option"

section \<open>Model\<close>

definition HTTPPort :: "bool \<Rightarrow> nat" where "HTTPPort ndebug = (if ndebug then 80 else 8080)"
definition HTTPSPort :: "bool \<Rightarrow> nat" where "HTTPSPort ndebug = (if ndebug then 443 else 8843)"

text \<open>
  The array of 1028 bytes holds the length in its first four and the path after them; the
  state is the path, \<open>None\<close> before the first call. \<open>getcwd\<close> fails when the path and its
  terminator do not fit into 1024 bytes.
\<close>

definition current_working_directory ::
  "environment \<Rightarrow> string option \<Rightarrow> (string \<times> string option) outcome" where
  "current_working_directory env st =
     (case st of
        Some d \<Rightarrow> Ret (d, st)
      | None \<Rightarrow>
          (case env_getcwd env of
             None \<Rightarrow> Fault Exit_Failure
           | Some d \<Rightarrow>
               if length d \<ge> 1024 then Fault Exit_Failure
               else if d = [] \<or> last d \<noteq> CHR ''/''
               then (if 4 + length d + 1 < 1028 then Ret (d @ ''/'', Some (d @ ''/''))
                     else Fault Out_Of_Bounds)
               else Ret (d, Some d)))"

definition get_request_header ::
  "(nat \<Rightarrow> string) \<Rightarrow> http_request \<Rightarrow> cstring \<Rightarrow> string option outcome" where
  "get_request_header junk request name =
     bindO (http_request_get_header (request, name) None 0) (\<lambda>((code, _, n), _).
       if code \<noteq> HTTP_ERROR_CODE_SUCCEED then Ret None
       else bindO (http_request_get_header (request, name) (Some (junk n)) n) (\<lambda>((_, buffer, _), _).
              Ret buffer))"

definition set_code :: "http_response \<Rightarrow> http_response_code \<Rightarrow> http_response outcome" where
  "set_code r code = bindO (http_response_set_code r code None) (\<lambda>(_, r'). Ret r')"

definition generate_forbidden :: "http_response \<Rightarrow> http_response outcome" where
  "generate_forbidden r = set_code r HTTP_RESPONSE_CODE_FORBIDDEN"

definition generate_not_found :: "http_response \<Rightarrow> http_response outcome" where
  "generate_not_found r = set_code r HTTP_RESPONSE_CODE_NOT_FOUND"

text \<open>The redirection of a plain connection; \<open>url\<close> is the block, \<open>url_length\<close> the variable.\<close>

definition redirect_to_tls ::
  "bool \<Rightarrow> environment \<Rightarrow> int \<Rightarrow> string \<Rightarrow> nat \<Rightarrow> http_response \<Rightarrow> http_response outcome" where
  "redirect_to_tls ndebug env fd url url_length r =
     bindO (set_code r HTTP_RESPONSE_CODE_MOVE_MOVED_PERMANENTLY) (\<lambda>r.
       let address = env_sockname env fd;
           address_buffer = env_ntop env (ss_family address) (host_bytes address)
       in bindO (sprintf_into (INET6_ADDRSTRLEN + url_length + 15)
                   (''https://'' @ cstr address_buffer @ '':'' @ show_lu (HTTPSPort ndebug) @ cstr url)) (\<lambda>buffer.
            Ret (snd (http_response_set_header r ''Location'' buffer))))"

definition magic_prefix :: cstring where "magic_prefix = ''/magic-call/''"

text \<open>The calls a client with the authorization code may make.\<close>

definition perform_magic_call ::
  "string \<Rightarrow> http_response \<times> 'w server \<Rightarrow> (http_response \<times> 'w server) outcome" where
  "perform_magic_call url rs =
     (case rs of (r, s) \<Rightarrow>
        if strcmp (drop 12 url) ''shutdown'' = 0
        then bindO (set_code r HTTP_RESPONSE_CODE_NO_CONTENT) (\<lambda>r. Ret (r, s\<lparr>sv_running := False\<rparr>))
        else if strncmp (drop 12 url) ''set-log-level?level='' 20 = 0
        then bindO (set_code r HTTP_RESPONSE_CODE_NO_CONTENT) (\<lambda>r.
               Ret (r, s\<lparr>sv_log_level :=
                 logging_set_level (level_of_long (fst (strtoll (drop 32 url)))) (sv_log_level s)\<rparr>))
        else bindO (set_code r HTTP_RESPONSE_CODE_NOT_IMPLEMENTED) (\<lambda>r. Ret (r, s)))"

definition handle_magic_call ::
  "bool \<Rightarrow> environment \<Rightarrow> http_request \<Rightarrow> string \<Rightarrow> http_response \<times> 'w server \<Rightarrow>
     (http_response \<times> 'w server) outcome" where
  "handle_magic_call ndebug env request url rs =
     (case rs of (r, s) \<Rightarrow>
        bindO (get_request_header (env_junk env) request ''Authorization'') (\<lambda>code.
          case code of
            None \<Rightarrow> bindO (generate_not_found r) (\<lambda>r. Ret (r, s))
          | Some block \<Rightarrow>
              bindO (get_authorization_code ndebug (env_random env) (sv_code s)) (\<lambda>(auth, st).
              bindO (memcmp block auth AuthorizationCodeLength) (\<lambda>c.
                let s' = s\<lparr>sv_code := st\<rparr>
                in if c \<noteq> 0 then bindO (generate_forbidden r) (\<lambda>r. Ret (r, s'))
                   else perform_magic_call url (r, s')))))"

text \<open>The part after \<open>open\<close>: the range, the body and the code.\<close>

definition send_file ::
  "bool \<Rightarrow> environment \<Rightarrow> http_request \<Rightarrow> opened \<Rightarrow> http_response \<Rightarrow> http_response outcome" where
  "send_file ndebug env request file r =
     bindO (get_request_header (env_junk env) request ''Range'') (\<lambda>range_value.
     bindO (parse_range ndebug (map_option cstr range_value) (word_of_nat (st_size file))) (\<lambda>range.
       let real_length =
             (if range_start range = range_end range then st_size file
              else unat (range_end range - range_start range));
           content = mmap_file file
       in bindO (http_response_set_body r (drop (unat (range_start range)) content) (Some real_length)) (\<lambda>(_, r).
          if range_start range \<noteq> range_end range
          then bindO (sprintf_into 100
                        (''bytes '' @ show_lu (unat (range_start range)) @ ''-'' @
                         show_lu (unat (range_end range - 1)) @ ''/'' @ show_lu (st_size file))) (\<lambda>buffer.
               bindO (set_code r HTTP_RESPONSE_CODE_PARTIAL_CONTENT) (\<lambda>r.
                 Ret (snd (http_response_set_header r ''Content-Range'' buffer))))
          else set_code r HTTP_RESPONSE_CODE_OK)))"

text \<open>
  \<open>url + 1\<close> is a string only if the block goes on and has a terminator there. \<open>realpath\<close> documents
  a terminated string and nothing behind it, so the block it returns ends for the program with
  the terminator, even where an implementation allocates more.
\<close>

definition handle_file_request ::
  "bool \<Rightarrow> environment \<Rightarrow> http_request \<Rightarrow> string \<Rightarrow> http_response \<times> 'w server \<Rightarrow>
     (http_response \<times> 'w server) outcome" where
  "handle_file_request ndebug env request url rs =
     (case rs of (r, s) \<Rightarrow>
        bindO (rd url 0) (\<lambda>c.
        bindO (c_assert ndebug (c = CHR ''/'')) (\<lambda>_.
        bindO (if NUL \<in> set (tl url) then Ret (cstr (tl url)) else Fault Out_Of_Bounds) (\<lambda>path.
          case env_realpath env path of
            None \<Rightarrow> bindO (generate_not_found r) (\<lambda>r. Ret (r, s))
          | Some canonicalized_url \<Rightarrow>
              bindO (current_working_directory env (sv_cwd s)) (\<lambda>(cwd, st).
              bindO (memcmp cwd (canonicalized_url @ [NUL]) (length cwd)) (\<lambda>c.
                let s' = s\<lparr>sv_cwd := st\<rparr>
                in if c \<noteq> 0 then bindO (generate_not_found r) (\<lambda>r. Ret (r, s'))
                   else case env_open env canonicalized_url of
                          None \<Rightarrow> bindO (generate_not_found r) (\<lambda>r. Ret (r, s'))
                        | Some file \<Rightarrow> bindO (send_file ndebug env request file r) (\<lambda>r. Ret (r, s'))))))))"

text \<open>
  \<open>handle_http_transaction\<close> on the descriptor's type and number and its connection; the
  result is the connection with its response, and the server. The URL is fetched with the
  two-call protocol; the second call leaves the length without the terminator in \<open>url_length\<close>.
\<close>

definition handle_http_transaction ::
  "bool \<Rightarrow> environment \<Rightarrow> file_descriptor_type \<Rightarrow> int \<Rightarrow> connection_information \<times> 'w server \<Rightarrow>
     (connection_information \<times> 'w server) outcome" where
  "handle_http_transaction ndebug env type fd cs =
     (case cs of (c, s) \<Rightarrow>
        bindO (http_request_get_url (conn_request c) None 0) (\<lambda>((_, _, n), _).
        bindO (http_request_get_url (conn_request c) (Some (env_junk env n)) n) (\<lambda>((_, block, url_length), _).
          let url = the block; r = conn_response c
          in bindO (if type = TCP_SOCKET
                    then bindO (redirect_to_tls ndebug env fd url url_length r) (\<lambda>r. Ret (r, s))
                    else if strncmp url magic_prefix 12 = 0
                    then handle_magic_call ndebug env (conn_request c) url (r, s)
                    else handle_file_request ndebug env (conn_request c) url (r, s)) (\<lambda>(r, s).
               Ret (c\<lparr>conn_response := r\<rparr>, s)))))"

end
