(* ===== verification/Transaction_Properties.thy ===== *)
theory Transaction_Properties
  imports Transaction Range_Format "HOL-Library.Sublist"
begin

text \<open>
  What \<open>handle_http_transaction\<close> answers: the redirection of plain connections, the magic
  calls and who may make them, which files are served and which bytes of them.
\<close>

section \<open>The environment and the setters\<close>

text \<open>Documented behaviour of the C library: \<open>malloc\<close>, \<open>inet_ntop\<close>, \<open>getrandom\<close>.\<close>

definition env_ok :: "environment \<Rightarrow> bool" where
  "env_ok env \<longleftrightarrow> (\<forall>n. length (env_junk env n) = n) \<and> inet_ntop_ok (env_ntop env)"

definition with_code :: "http_response \<Rightarrow> http_response_code \<Rightarrow> http_response" where
  "with_code r code = r\<lparr>state_line := \<lparr>st_code = code,
     st_description = Live (description_for code None),
     st_description_length = length (description_for code None)\<rparr>\<rparr>"

definition with_header :: "http_response \<Rightarrow> cstring \<Rightarrow> cstring \<Rightarrow> http_response" where
  "with_header r k v = snd (http_response_set_header r k v)"

definition with_body :: "http_response \<Rightarrow> string \<Rightarrow> http_response" where
  "with_body r b = with_header (r\<lparr>res_body := \<lparr>body_data = Live b, body_length = length b\<rparr>\<rparr>)
     ''Content-Length'' (show_lu (length b))"

lemma set_code_eq:
  "response_ok r \<Longrightarrow> mapped_code code \<Longrightarrow> set_code r code = Ret (with_code r code)"
  by (simp add: set_code_def http_response_set_code_eq describable_def with_code_def)

lemma with_code_ok:
  assumes "response_ok r" "mapped_code code"
  shows "response_ok (with_code r code)"
  using http_response_set_code_ok [of r code None] http_response_set_code_eq [of r code None] assms
  by (simp add: describable_def with_code_def)

lemma with_header_ok: "response_ok r \<Longrightarrow> response_ok (with_header r k v)"
  by (simp add: with_header_def http_response_set_header_ok)

lemma with_body_ok: "response_ok r \<Longrightarrow> response_ok (with_body r b)"
  unfolding with_body_def by (rule with_header_ok) (simp add: response_ok_def body_ok_def)

lemma with_simps [simp]:
  "st_code (state_line (with_code r code)) = code"
  "res_headers (with_code r code) = res_headers r"
  "res_body (with_code r code) = res_body r"
  "state_line (with_header r k v) = state_line r"
  "res_body (with_header r k v) = res_body r"
  "state_line (with_body r b) = state_line r"
  "res_body (with_body r b) = \<lparr>body_data = Live b, body_length = length b\<rparr>"
  by (simp_all add: with_code_def with_header_def with_body_def http_response_set_header_def)

lemma with_header_get:
  assumes "response_ok r" "NUL \<notin> set k" "NUL \<notin> set v"
  shows "headers_get (res_headers (with_header r k v)) = (headers_get (res_headers r))(k \<mapsto> v)"
  using assms set_header_ok_get [of "res_headers r" k v]
  by (simp add: with_header_def http_response_set_header_def response_ok_def cstr_id)

lemma set_body_eq:
  assumes "response_ok r" "n \<le> length b" "length b < 2 ^ 64"
  shows "http_response_set_body r b (Some n) = Ret (HTTP_ERROR_CODE_SUCCEED, with_body r (take n b))"
  using http_response_set_body_eq [of r b "Some n"] assms
  by (simp add: body_argument_ok_def body_content_def with_body_def with_header_def http_response_set_header_def)

lemmas code_range = HTTP_RESPONSE_CODE_MAX_def response_code_defs

lemma mapped_codes [simp]:
  "mapped_code HTTP_RESPONSE_CODE_OK" "mapped_code HTTP_RESPONSE_CODE_NO_CONTENT"
  "mapped_code HTTP_RESPONSE_CODE_PARTIAL_CONTENT" "mapped_code HTTP_RESPONSE_CODE_MOVE_MOVED_PERMANENTLY"
  "mapped_code HTTP_RESPONSE_CODE_BAD_REQUEST" "mapped_code HTTP_RESPONSE_CODE_FORBIDDEN"
  "mapped_code HTTP_RESPONSE_CODE_NOT_FOUND" "mapped_code HTTP_RESPONSE_CODE_NOT_IMPLEMENTED"
  by (simp_all add: response_code_defs)

section \<open>The URL and the headers of the request\<close>

lemma get_request_header_eq:
  assumes "parsed r" "\<And>n. length (junk n) = n"
  shows "get_request_header junk r name = Ret (map_option (\<lambda>v. cstr v @ [NUL]) (request_header r name))"
proof (cases "request_header r name")
  case None
  then show ?thesis
    using http_request_get_header_missing [OF assms(1)] by (simp add: get_request_header_def)
next
  case (Some v)
  then have ok: "has_header (r, name)" and v: "header_value (r, name) = v"
    using assms(1) by (simp_all add: has_header_def header_value_def)
  have "junk (Suc (strlen v)) = take (Suc (strlen v)) (junk (Suc (strlen v)))" using assms(2) by simp
  then show ?thesis
    using header_getter.query [OF ok, of 0] header_getter.fill [OF ok, of "Suc (strlen v)" "junk (Suc (strlen v))"]
      assms(2) v Some by (simp add: get_request_header_def strlen_cstr)
qed

text \<open>The three ways of a transaction, on the URL up to its first NUL.\<close>

lemma transaction_cases:
  assumes "env_ok env" "parsed (conn_request c)"
  obtains rest where
    "handle_http_transaction ndebug env type fd (c, s) =
       bindO (if type = TCP_SOCKET
              then bindO (redirect_to_tls ndebug env fd (cstr (request_url (conn_request c)) @ NUL # rest)
                            (length (request_url (conn_request c))) (conn_response c)) (\<lambda>r. Ret (r, s))
              else if take 12 (cstr (request_url (conn_request c))) = magic_prefix
              then handle_magic_call ndebug env (conn_request c)
                     (cstr (request_url (conn_request c)) @ NUL # rest) (conn_response c, s)
              else handle_file_request ndebug env (conn_request c)
                     (cstr (request_url (conn_request c)) @ NUL # rest) (conn_response c, s)) (\<lambda>(r, s).
         Ret (c\<lparr>conn_response := r\<rparr>, s))"
    "NUL \<notin> set (request_url (conn_request c)) \<Longrightarrow> rest = []"
proof -
  let ?r = "conn_request c" and ?u = "request_url (conn_request c)"
  let ?rest = "drop (Suc (length (cstr ?u))) (env_junk env (length ?u + 1))"
  have magic: "strncmp (cstr ?u @ NUL # ?rest) magic_prefix 12 = 0 \<longleftrightarrow> take 12 (cstr ?u) = magic_prefix"
  proof -
    have "cstr (cstr ?u @ NUL # ?rest) = cstr ?u" using cstr_append_NUL by simp
    moreover have "cstr magic_prefix = magic_prefix" "take 12 magic_prefix = magic_prefix"
      by (simp_all add: magic_prefix_def)
    ultimately show ?thesis by (simp add: strncmp_eq_0_iff)
  qed
  have j: "length (env_junk env n) = n" for n using assms(1) by (simp add: env_ok_def)
  have "http_request_get_url ?r None 0 = Ret ((HTTP_ERROR_CODE_SUCCEED, None, length ?u + 1), ?r)"
    by (rule url_getter.query [OF assms(2)])
  moreover have "http_request_get_url ?r (Some (env_junk env (length ?u + 1))) (length ?u + 1) =
      Ret ((HTTP_ERROR_CODE_SUCCEED, Some (cstr ?u @ NUL # ?rest), length ?u), ?r)"
    using url_getter.fill [OF assms(2), of "length ?u + 1" "env_junk env (length ?u + 1)"] j by simp
  moreover have "NUL \<notin> set ?u \<Longrightarrow> ?rest = []" by (simp add: j cstr_id)
  ultimately show thesis
    using magic by (intro that [of ?rest]) (auto simp: handle_http_transaction_def)
qed

section \<open>The redirection\<close>

definition redirect_location :: "bool \<Rightarrow> environment \<Rightarrow> int \<Rightarrow> cstring \<Rightarrow> cstring" where
  "redirect_location ndebug env fd url =
     ''https://'' @ env_ntop env (ss_family (env_sockname env fd)) (host_bytes (env_sockname env fd)) @
     '':'' @ show_lu (HTTPSPort ndebug) @ url"

lemma redirect_to_tls_eq:
  assumes "env_ok env" "response_ok r" "length (cstr u) \<le> n"
  shows "redirect_to_tls ndebug env fd u n r =
    Ret (with_header (with_code r HTTP_RESPONSE_CODE_MOVE_MOVED_PERMANENTLY) ''Location''
           (redirect_location ndebug env fd (cstr u)))"
proof -
  let ?a = "env_ntop env (ss_family (env_sockname env fd)) (host_bytes (env_sockname env fd))"
  have "length ?a < INET6_ADDRSTRLEN" "NUL \<notin> set ?a"
    using assms(1) by (simp_all add: env_ok_def inet_ntop_ok_def)
  then have a: "length ?a \<le> 45" "cstr ?a = ?a"
    by (simp_all add: INET6_ADDRSTRLEN_def cstr_id)
  have "length (show_lu (HTTPSPort ndebug)) \<le> 4"
    by (rule length_show_lu_le) (simp_all add: HTTPSPort_def)
  with a assms(3) have "length (redirect_location ndebug env fd (cstr u)) < INET6_ADDRSTRLEN + n + 15"
    by (simp add: redirect_location_def INET6_ADDRSTRLEN_def)
  then show ?thesis
    using assms(2) a(2)
    by (simp add: redirect_to_tls_def set_code_eq sprintf_into_def Let_def redirect_location_def with_header_def)
qed

lemma NUL_notin_redirect_location:
  "env_ok env \<Longrightarrow> NUL \<notin> set u \<Longrightarrow> NUL \<notin> set (redirect_location ndebug env fd u)"
  by (auto simp: redirect_location_def env_ok_def inet_ntop_ok_def)

section \<open>The magic calls\<close>

text \<open>What a call with the right code does to the response and the server.\<close>

definition magic_effect :: "cstring \<Rightarrow> http_response \<times> 'w server \<Rightarrow> http_response \<times> 'w server" where
  "magic_effect call rs =
     (case rs of (r, s) \<Rightarrow>
        if call = ''shutdown'' then (with_code r HTTP_RESPONSE_CODE_NO_CONTENT, s\<lparr>sv_running := False\<rparr>)
        else if take 20 call = ''set-log-level?level=''
        then (with_code r HTTP_RESPONSE_CODE_NO_CONTENT,
              s\<lparr>sv_log_level := logging_set_level
                 (level_of_long (fst (strtoll (drop 20 call @ [NUL])))) (sv_log_level s)\<rparr>)
        else (with_code r HTTP_RESPONSE_CODE_NOT_IMPLEMENTED, s))"

lemma perform_magic_call_eq:
  assumes "response_ok r" "NUL \<notin> set u" "take 12 u = magic_prefix"
  shows "perform_magic_call (u @ [NUL]) (r, s) = Ret (magic_effect (drop 12 u) (r, s))"
proof -
  have l: "12 \<le> length u"
  proof -
    have "length (take 12 u) = 12" unfolding assms(3) by (simp add: magic_prefix_def)
    then show ?thesis by simp
  qed
  have d: "drop 12 (u @ [NUL]) = drop 12 u @ [NUL]" using l by simp
  have c: "cstr (drop 12 u @ [NUL]) = drop 12 u"
    by (rule cstr_append_NUL) (use assms(2) in \<open>auto dest: in_set_dropD\<close>)
  have sh: "strcmp (drop 12 (u @ [NUL])) ''shutdown'' = 0 \<longleftrightarrow> drop 12 u = ''shutdown''"
    unfolding d strcmp_eq_0_iff c by simp
  have lv: "strncmp (drop 12 (u @ [NUL])) ''set-log-level?level='' 20 = 0 \<longleftrightarrow>
      take 20 (drop 12 u) = ''set-log-level?level=''"
    unfolding d strncmp_eq_0_iff c by simp
  have t: "drop 32 (u @ [NUL]) = drop 20 (drop 12 u) @ [NUL]"
    if "take 20 (drop 12 u) = ''set-log-level?level=''"
  proof -
    have "length (take 20 (drop 12 u)) = 20" unfolding that by simp
    then show ?thesis by simp
  qed
  show ?thesis
    unfolding perform_magic_call_def magic_effect_def prod.case sh lv
    using assms(1) t by (simp add: set_code_eq)
qed

text \<open>
  The whole handler. The header's block is its text and the terminator, of which 32 bytes are
  compared.
\<close>

lemma handle_magic_call_eq:
  assumes "env_ok env" "parsed q" "response_ok r" "NUL \<notin> set u" "take 12 u = magic_prefix"
    and secret: "sv_code s = Some secret" "length secret = AuthorizationCodeLength" "NUL \<notin> set secret"
  shows "handle_magic_call ndebug env q (u @ [NUL]) (r, s) =
    (case request_header q ''Authorization'' of
       None \<Rightarrow> Ret (with_code r HTTP_RESPONSE_CODE_NOT_FOUND, s)
     | Some v \<Rightarrow>
         if length (cstr v) + 1 < AuthorizationCodeLength then Fault Out_Of_Bounds
         else if take AuthorizationCodeLength (cstr v) \<noteq> secret
         then Ret (with_code r HTTP_RESPONSE_CODE_FORBIDDEN, s)
         else Ret (magic_effect (drop 12 u) (r, s)))"
proof -
  have s: "s\<lparr>sv_code := Some secret\<rparr> = s" using secret(1) by (cases s) simp
  have hdr: "get_request_header (env_junk env) q ''Authorization'' =
      Ret (map_option (\<lambda>v. cstr v @ [NUL]) (request_header q ''Authorization''))"
    by (rule get_request_header_eq) (use assms(1,2) in \<open>auto simp: env_ok_def\<close>)
  show ?thesis
  proof (cases "request_header q ''Authorization''")
    case None
    with hdr assms(3) show ?thesis
      by (simp add: handle_magic_call_def generate_not_found_def set_code_eq)
  next
    case (Some v)
    let ?b = "cstr v @ [NUL]"
    show ?thesis
    proof (cases "length (cstr v) + 1 < AuthorizationCodeLength")
      case True
      with hdr Some secret show ?thesis
        by (simp add: handle_magic_call_def get_authorization_code_def memcmp_short)
    next
      case False
      then obtain d where d: "memcmp ?b secret AuthorizationCodeLength = Ret d"
          "d = 0 \<longleftrightarrow> take AuthorizationCodeLength ?b = secret"
        using memcmp_cases [of AuthorizationCodeLength ?b secret] secret(2) by auto
      have "take AuthorizationCodeLength ?b = secret \<longleftrightarrow> take AuthorizationCodeLength (cstr v) = secret"
      proof (cases "length (cstr v) + 1 = AuthorizationCodeLength")
        case True
        then have "take AuthorizationCodeLength ?b = ?b" by simp
        moreover have "?b \<noteq> secret" using secret(3) by auto
        moreover have "length (take AuthorizationCodeLength (cstr v)) < AuthorizationCodeLength"
          using True by simp
        then have "take AuthorizationCodeLength (cstr v) \<noteq> secret" using secret(2) by auto
        ultimately show ?thesis by simp
      qed (use False in simp)
      with d(2) have d0: "d = 0 \<longleftrightarrow> take AuthorizationCodeLength (cstr v) = secret" by simp
      have "handle_magic_call ndebug env q (u @ [NUL]) (r, s) =
          (if d \<noteq> 0 then bindO (generate_forbidden r) (\<lambda>r. Ret (r, s))
           else perform_magic_call (u @ [NUL]) (r, s))"
        unfolding handle_magic_call_def prod.case hdr Some
        by (simp add: get_authorization_code_def secret(1) d(1) s)
      also have "\<dots> = (if d \<noteq> 0 then Ret (with_code r HTTP_RESPONSE_CODE_FORBIDDEN, s)
          else Ret (magic_effect (drop 12 u) (r, s)))"
        using assms(3) by (simp add: generate_forbidden_def set_code_eq perform_magic_call_eq [OF assms(3-5)])
      finally show ?thesis using d0 Some False by simp
    qed
  qed
qed

section \<open>The working directory\<close>

text \<open>The path kept after the first call ends with a slash.\<close>

definition cwd_ok :: "string option \<Rightarrow> bool" where
  "cwd_ok st \<longleftrightarrow> (\<forall>d. st = Some d \<longrightarrow> d \<noteq> [] \<and> last d = CHR ''/'')"

lemma current_working_directory_ok:
  "current_working_directory env st = Ret (d, st') \<Longrightarrow> cwd_ok st \<Longrightarrow> d \<noteq> [] \<and> last d = CHR ''/'' \<and> cwd_ok st'"
  by (auto simp: current_working_directory_def cwd_ok_def split: option.splits if_splits)

section \<open>Files\<close>

lemma handle_file_request_eq:
  assumes "response_ok r" "NUL \<notin> set path" "ndebug \<or> c0 = CHR ''/''"
    and cwd: "current_working_directory env (sv_cwd s) = Ret (d, st)" "cwd_ok (sv_cwd s)"
  shows "handle_file_request ndebug env q ((c0 # path) @ [NUL]) (r, s) =
    (case env_realpath env path of
       None \<Rightarrow> Ret (with_code r HTTP_RESPONSE_CODE_NOT_FOUND, s)
     | Some p \<Rightarrow>
         if length p + 1 < length d then Fault Out_Of_Bounds
         else if \<not> prefix d p then Ret (with_code r HTTP_RESPONSE_CODE_NOT_FOUND, s\<lparr>sv_cwd := st\<rparr>)
         else (case env_open env p of
                 None \<Rightarrow> Ret (with_code r HTTP_RESPONSE_CODE_NOT_FOUND, s\<lparr>sv_cwd := st\<rparr>)
               | Some file \<Rightarrow> bindO (send_file ndebug env q file r) (\<lambda>r. Ret (r, s\<lparr>sv_cwd := st\<rparr>))))"
proof (cases "env_realpath env path")
  case None
  then show ?thesis
    using assms(1-3) by (simp add: handle_file_request_def c_assert_def cstr_append_NUL generate_not_found_def set_code_eq)
next
  case (Some p)
  have d: "d \<noteq> []" "last d = CHR ''/''" using current_working_directory_ok [OF cwd] by simp_all
  show ?thesis
  proof (cases "length p + 1 < length d")
    case True
    with Some cwd(1) assms(2,3) show ?thesis
      by (simp add: handle_file_request_def c_assert_def cstr_append_NUL memcmp_short)
  next
    case False
    then obtain k where k: "memcmp d (p @ [NUL]) (length d) = Ret k" "k = 0 \<longleftrightarrow> d = take (length d) (p @ [NUL])"
      using memcmp_cases [of "length d" d "p @ [NUL]"] by auto
    have "d = take (length d) (p @ [NUL]) \<longleftrightarrow> prefix d p"
    proof (cases "length d = length p + 1")
      case True
      then have "take (length d) (p @ [NUL]) = p @ [NUL]" by simp
      moreover have "d \<noteq> p @ [NUL]" using d(2) by auto
      moreover have "\<not> prefix d p" using True by (auto dest: prefix_length_le)
      ultimately show ?thesis by simp
    next
      case shorter: False
      with False have "take (length d) (p @ [NUL]) = take (length d) p" by simp
      then show ?thesis by (metis prefix_def append_eq_conv_conj append_take_drop_id)
    qed
    with k(2) have k0: "k = 0 \<longleftrightarrow> prefix d p" by simp
    have "handle_file_request ndebug env q ((c0 # path) @ [NUL]) (r, s) =
        (if k \<noteq> 0 then bindO (generate_not_found r) (\<lambda>r. Ret (r, s\<lparr>sv_cwd := st\<rparr>))
         else case env_open env p of
                None \<Rightarrow> bindO (generate_not_found r) (\<lambda>r. Ret (r, s\<lparr>sv_cwd := st\<rparr>))
              | Some file \<Rightarrow> bindO (send_file ndebug env q file r) (\<lambda>r. Ret (r, s\<lparr>sv_cwd := st\<rparr>)))"
      using Some cwd(1) assms(2,3) k(1)
      by (simp add: handle_file_request_def c_assert_def cstr_append_NUL Let_def)
    then show ?thesis
      using k0 Some False assms(1) by (simp add: generate_not_found_def set_code_eq split: option.split)
  qed
qed

lemma length_mmap_file:
  "length c \<le> length (mmap_file (Regular_File c))" "length (mmap_file (Regular_File c)) \<le> length c + page_size"
  "take (length c) (mmap_file (Regular_File c)) = c"
  by (simp_all add: page_size_def)

lemma show_lu_unat_le: "length (show_lu (unat (w :: size_t))) \<le> 20"
  by (rule length_show_lu_64) (use unsigned_less [of w, where ?'a = nat] in simp)

text \<open>
  Sending a file: which bytes of the mapping go into the body, and the fault when they are not
  all there.
\<close>

lemma send_file_eq:
  assumes "env_ok env" "parsed q" "response_ok r" "length (mmap_file file) < 2 ^ 64" "st_size file < 2 ^ 64"
    and rng: "parse_range ndebug (map_option cstr (request_header q ''Range'')) (word_of_nat (st_size file)) =
      Ret rng"
  defines "a \<equiv> unat (range_start rng)" and "b \<equiv> unat (range_end rng)"
  shows "rng = full_range \<Longrightarrow> send_file ndebug env q file r =
      (if st_size file \<le> length (mmap_file file)
       then Ret (with_code (with_body r (take (st_size file) (mmap_file file))) HTTP_RESPONSE_CODE_OK)
       else Fault Out_Of_Bounds)"
    and "rng \<noteq> full_range \<Longrightarrow> a < b \<and> send_file ndebug env q file r =
      (if b \<le> length (mmap_file file)
       then Ret (with_header (with_code (with_body r (take (b - a) (drop a (mmap_file file))))
                   HTTP_RESPONSE_CODE_PARTIAL_CONTENT) ''Content-Range''
              (''bytes '' @ show_lu a @ ''-'' @ show_lu (b - 1) @ ''/'' @ show_lu (st_size file)))
       else Fault Out_Of_Bounds)"
proof -
  have hdr: "get_request_header (env_junk env) q ''Range'' =
      Ret (map_option (\<lambda>v. cstr v @ [NUL]) (request_header q ''Range''))"
    by (rule get_request_header_eq) (use assms(1,2) in \<open>auto simp: env_ok_def\<close>)
  have "map_option cstr (map_option (\<lambda>v. cstr v @ [NUL]) (request_header q ''Range'')) =
      map_option cstr (request_header q ''Range'')"
    by (cases "request_header q ''Range''") (simp_all add: cstr_append_NUL)
  note pr = hdr rng this
  have body: "http_response_set_body r (drop k (mmap_file file)) (Some n) =
      (if k + n \<le> length (mmap_file file)
       then Ret (HTTP_ERROR_CODE_SUCCEED, with_body r (take n (drop k (mmap_file file))))
       else Fault Out_Of_Bounds)" if "0 < n \<or> k = 0" for k n
  proof (cases "k + n \<le> length (mmap_file file)")
    case True
    then show ?thesis using set_body_eq [OF assms(3), of n "drop k (mmap_file file)"] assms(4) by simp
  next
    case False
    then have "\<not> n \<le> length (drop k (mmap_file file))" using that by auto
    moreover have "destroy_body (res_body r) = Ret empty_body"
      using assms(3) by (simp add: response_ok_def destroy_body_ok)
    ultimately show ?thesis using False by (simp add: http_response_set_body_def)
  qed
  show "send_file ndebug env q file r =
      (if st_size file \<le> length (mmap_file file)
       then Ret (with_code (with_body r (take (st_size file) (mmap_file file))) HTTP_RESPONSE_CODE_OK)
       else Fault Out_Of_Bounds)" if "rng = full_range"
    using that pr body [of "st_size file" 0] set_code_eq [OF with_body_ok [OF assms(3)]]
    by (simp add: send_file_def full_range_def)
  assume "rng \<noteq> full_range"
  then have lt: "range_start rng < range_end rng"
    using parse_range_range_ok [OF rng] by (simp add: range_ok_def)
  then have ab: "a < b" by (simp add: a_def b_def word_less_nat_alt)
  have n: "unat (range_end rng - range_start rng) = b - a"
    using lt by (simp add: a_def b_def unat_sub order.strict_implies_order)
  have last: "unat (range_end rng - 1) = b - 1"
    using ab by (simp add: b_def unat_sub word_le_nat_alt)
  have "length (show_lu (st_size file)) \<le> 20" using assms(5) by (rule length_show_lu_64)
  with show_lu_unat_le [of "range_start rng"] show_lu_unat_le [of "range_end rng - 1"]
  have fits: "length (''bytes '' @ show_lu a @ ''-'' @ show_lu (b - 1) @ ''/'' @ show_lu (st_size file)) < 100"
    by (simp add: last a_def)
  have ne: "range_start rng \<noteq> range_end rng" using lt by simp
  show "a < b \<and> send_file ndebug env q file r =
      (if b \<le> length (mmap_file file)
       then Ret (with_header (with_code (with_body r (take (b - a) (drop a (mmap_file file))))
                   HTTP_RESPONSE_CODE_PARTIAL_CONTENT) ''Content-Range''
              (''bytes '' @ show_lu a @ ''-'' @ show_lu (b - 1) @ ''/'' @ show_lu (st_size file)))
       else Fault Out_Of_Bounds)"
    using ab pr body [of "b - a" a] set_code_eq [OF with_body_ok [OF assms(3)]] ne fits n last
    by (simp add: send_file_def Let_def sprintf_into_def with_header_def flip: a_def)
qed

section \<open>A concrete environment\<close>

definition sample_env :: environment where
  "sample_env =
     \<lparr>env_junk = (\<lambda>n. replicate n NUL),
      env_sockname = (\<lambda>fd. \<lparr>ss_family = AF_INET, port_high = 31, port_low = 144, host_bytes = [10, 0, 0, 1]\<rparr>),
      env_ntop = (\<lambda>f bs. ''10.0.0.1''),
      env_random = [1, 2, 3],
      env_getcwd = Some ''/srv'',
      env_realpath = (\<lambda>p. if p = ''a'' then Some ''/srv/a'' else if p = ''..'' then Some ''/''
                          else if p = ''d'' then Some ''/srv/d'' else None),
      env_open = (\<lambda>p. if p = ''/srv/a'' then Some (Regular_File ''0123456789'') else Some (Directory 4096))\<rparr>"

definition sample_request :: "cstring \<Rightarrow> headers \<Rightarrow> http_request" where
  "sample_request url hs =
     \<lparr>req_state = HTTP_REQUEST_STATE_PARSED,
      start_line = \<lparr>sl_method = HTTP_REQUEST_METHOD_GET, sl_http_version = Live ''HTTP/1.1'',
        sl_http_version_length = 8, sl_url = Live url, sl_url_length = length url\<rparr>,
      req_headers = hs, req_body = empty_body\<rparr>"

definition sample_response :: http_response where
  "sample_response = snd (http_response_initialize (fr_response (sample_fresh 1)))"

definition sample_connection :: "cstring \<Rightarrow> headers \<Rightarrow> connection_information" where
  "sample_connection url hs =
     \<lparr>conn_state = ConnectionStatusWaitingRequest, conn_fd = 5,
      conn_buffer = \<lparr>buf_block = Null, buf_capability = 0, buf_start = 0, buf_end = 0\<rparr>,
      conn_request = sample_request url hs, conn_response = sample_response,
      conn_transport = Tls_Transport TLS_STATE_Established, conn_address = fr_peer (sample_fresh 1)\<rparr>"

lemma sample_env_ok: "env_ok sample_env"
  by (simp add: env_ok_def sample_env_def inet_ntop_ok_def INET6_ADDRSTRLEN_def)

lemma sample_parsed: "headers_ok hs \<Longrightarrow> parsed (sample_request url hs)"
  by (simp add: parsed_def sample_request_def request_ok_def start_line_ok_def)

lemma sample_url [simp]: "request_url (sample_request url hs) = url"
  by (simp add: request_url_def sample_request_def)

lemma sample_header: "request_header (sample_request url hs) name = headers_get hs (cstr name)"
  by (simp add: request_header_def sample_request_def)

lemma sample_response_ok: "response_ok sample_response"
  unfolding sample_response_def by (rule http_response_initialize_ok)

lemma sample_connection_simps [simp]:
  "conn_request (sample_connection url hs) = sample_request url hs"
  "conn_response (sample_connection url hs) = sample_response"
  by (simp_all add: sample_connection_def)

section \<open>The ways of a TLS transaction\<close>

lemma transaction_tls:
  assumes "env_ok env" "parsed (conn_request c)" "NUL \<notin> set (request_url (conn_request c))"
  shows "handle_http_transaction ndebug env TLS_SOCKET fd (c, s) =
    bindO (if take 12 (request_url (conn_request c)) = magic_prefix
           then handle_magic_call ndebug env (conn_request c) (request_url (conn_request c) @ [NUL]) (conn_response c, s)
           else handle_file_request ndebug env (conn_request c) (request_url (conn_request c) @ [NUL]) (conn_response c, s))
      (\<lambda>(r, s). Ret (c\<lparr>conn_response := r\<rparr>, s))"
proof -
  obtain rest where "handle_http_transaction ndebug env TLS_SOCKET fd (c, s) =
       bindO (if take 12 (cstr (request_url (conn_request c))) = magic_prefix
              then handle_magic_call ndebug env (conn_request c)
                     (cstr (request_url (conn_request c)) @ NUL # rest) (conn_response c, s)
              else handle_file_request ndebug env (conn_request c)
                     (cstr (request_url (conn_request c)) @ NUL # rest) (conn_response c, s)) (\<lambda>(r, s).
         Ret (c\<lparr>conn_response := r\<rparr>, s))" "rest = []"
    by (rule transaction_cases [OF assms(1,2), of ndebug TLS_SOCKET fd s]) (use assms(3) in simp)
  then show ?thesis by (simp add: cstr_id assms(3))
qed

definition redirected :: "bool \<Rightarrow> environment \<Rightarrow> int \<Rightarrow> connection_information \<Rightarrow> http_response" where
  "redirected ndebug env fd c =
     with_header (with_code (conn_response c) HTTP_RESPONSE_CODE_MOVE_MOVED_PERMANENTLY) ''Location''
       (redirect_location ndebug env fd (cstr (request_url (conn_request c))))"

lemma transaction_tcp:
  assumes "env_ok env" "parsed (conn_request c)" "response_ok (conn_response c)"
  shows "handle_http_transaction ndebug env TCP_SOCKET fd (c, s) =
    Ret (c\<lparr>conn_response := redirected ndebug env fd c\<rparr>, s)"
proof -
  let ?u = "request_url (conn_request c)"
  obtain rest where t: "handle_http_transaction ndebug env TCP_SOCKET fd (c, s) =
      bindO (bindO (redirect_to_tls ndebug env fd (cstr ?u @ NUL # rest) (length ?u) (conn_response c))
        (\<lambda>r. Ret (r, s))) (\<lambda>(r, s). Ret (c\<lparr>conn_response := r\<rparr>, s))"
    by (rule transaction_cases [OF assms(1,2), of ndebug TCP_SOCKET fd s]) simp
  have u: "cstr (cstr ?u @ NUL # rest) = cstr ?u" by (rule cstr_append_NUL) simp
  have "length (cstr ?u) \<le> length ?u" using strlen_le [of ?u] by (simp add: strlen_cstr)
  then show ?thesis
    using redirect_to_tls_eq [OF assms(1,3), of "cstr ?u @ NUL # rest" "length ?u"] u t
    by (simp add: redirected_def)
qed

lemma redirected_response:
  assumes "env_ok env" "response_ok (conn_response c)"
  shows "response_ok (redirected ndebug env fd c) \<and>
    st_code (state_line (redirected ndebug env fd c)) = HTTP_RESPONSE_CODE_MOVE_MOVED_PERMANENTLY \<and>
    res_body (redirected ndebug env fd c) = res_body (conn_response c) \<and>
    headers_get (res_headers (redirected ndebug env fd c)) = (headers_get (res_headers (conn_response c)))
      (''Location'' \<mapsto> redirect_location ndebug env fd (cstr (request_url (conn_request c))))"
proof -
  have ok: "response_ok (with_code (conn_response c) HTTP_RESPONSE_CODE_MOVE_MOVED_PERMANENTLY)"
    using assms(2) by (simp add: with_code_ok)
  have "NUL \<notin> set (redirect_location ndebug env fd (cstr (request_url (conn_request c))))"
    by (rule NUL_notin_redirect_location [OF assms(1)]) simp
  then show ?thesis
    using with_header_ok [OF ok] with_header_get [OF ok] by (simp add: redirected_def)
qed

text \<open>
  A request on a TLS connection for a file in the tree: the URL is not a magic call, resolves to
  a path below the working directory, and \<open>open\<close> finds \<open>file\<close> there. \<open>st\<close> is the state of
  \<open>current_working_directory\<close> afterwards.
\<close>

definition finds_file ::
  "environment \<Rightarrow> connection_information \<Rightarrow> 'w server \<Rightarrow> opened \<Rightarrow> string option \<Rightarrow> bool" where
  "finds_file env c s file st \<longleftrightarrow>
     env_ok env \<and> parsed (conn_request c) \<and> response_ok (conn_response c) \<and> cwd_ok (sv_cwd s) \<and>
     (\<exists>path p d. request_url (conn_request c) = CHR ''/'' # path \<and> NUL \<notin> set path \<and>
        take 12 (CHR ''/'' # path) \<noteq> magic_prefix \<and> env_realpath env path = Some p \<and>
        current_working_directory env (sv_cwd s) = Ret (d, st) \<and> prefix d p \<and> env_open env p = Some file)"

lemma transaction_file:
  assumes "finds_file env c s file st"
  shows "handle_http_transaction ndebug env TLS_SOCKET fd (c, s) =
    bindO (send_file ndebug env (conn_request c) file (conn_response c)) (\<lambda>r.
      Ret (c\<lparr>conn_response := r\<rparr>, s\<lparr>sv_cwd := st\<rparr>))"
proof -
  obtain path p d where f: "env_ok env" "parsed (conn_request c)" "response_ok (conn_response c)"
      "cwd_ok (sv_cwd s)" "request_url (conn_request c) = CHR ''/'' # path" "NUL \<notin> set path"
      "take 12 (CHR ''/'' # path) \<noteq> magic_prefix" "env_realpath env path = Some p"
      "current_working_directory env (sv_cwd s) = Ret (d, st)" "prefix d p" "env_open env p = Some file"
    using assms by (auto simp: finds_file_def)
  have u: "NUL \<notin> set (request_url (conn_request c))" using f(5,6) by simp
  have "length d \<le> length p" using f(10) by (rule prefix_length_le)
  then have "handle_file_request ndebug env (conn_request c) ((CHR ''/'' # path) @ [NUL]) (conn_response c, s) =
      bindO (send_file ndebug env (conn_request c) file (conn_response c)) (\<lambda>r. Ret (r, s\<lparr>sv_cwd := st\<rparr>))"
    by (subst handle_file_request_eq [OF f(3,6) _ f(9,4)]) (simp_all add: f(8,10,11))
  moreover have "handle_http_transaction ndebug env TLS_SOCKET fd (c, s) =
      bindO (handle_file_request ndebug env (conn_request c) ((CHR ''/'' # path) @ [NUL]) (conn_response c, s))
        (\<lambda>(r, s). Ret (c\<lparr>conn_response := r\<rparr>, s))"
    using transaction_tls [OF f(1,2) u, of ndebug fd s] f(7) unfolding f(5) by simp
  ultimately show ?thesis by (simp add: bindO_assoc)
qed

lemma finds_sample:
  "headers_ok hs \<Longrightarrow>
     finds_file sample_env (sample_connection ''/a'' hs) empty_server (Regular_File ''0123456789'') (Some ''/srv/'')"
  by (simp add: finds_file_def sample_env_ok sample_parsed sample_response_ok)
    (simp add: sample_env_def magic_prefix_def cwd_ok_def empty_server_def current_working_directory_def)

lemma parse_range_From_To:
  assumes "a \<le> b" "b < 2 ^ 63 - 1"
  shows "parse_range ndebug (Some (range_header_text [From_To a b])) sz = Ret (Rng (word_of_nat a) (word_of_nat (b + 1)))"
    and "unat (word_of_nat a :: size_t) = a" and "unat (word_of_nat (b + 1) :: size_t) = b + 1"
proof -
  show u: "unat (word_of_nat a :: size_t) = a" "unat (word_of_nat (b + 1) :: size_t) = b + 1"
    unfolding unat_of_nat using assms by simp_all
  have "\<not> (word_of_nat (b + 1) :: size_t) \<le> word_of_nat a"
    using assms(1) by (simp only: word_le_nat_alt u)
  moreover have "int b < LLONG_MAX" "int a \<le> LLONG_MAX" using assms by (simp_all add: LLONG_MAX_def)
  ultimately show "parse_range ndebug (Some (range_header_text [From_To a b])) sz =
      Ret (Rng (word_of_nat a) (word_of_nat (b + 1)))"
    using parse_range_single [of "From_To a b" ndebug sz] by (simp add: normalise_def add.commute)
qed

text \<open>A request for the positions \<open>a\<close> to \<open>b\<close>.\<close>

lemma send_file_From_To:
  assumes "finds_file env c s (Regular_File content) st" "length content < 2 ^ 63"
    and "request_header (conn_request c) ''Range'' = Some v" "cstr v = range_header_text [From_To a b]"
    and "a \<le> b" "b < 2 ^ 63 - 1"
  shows "handle_http_transaction ndebug env TLS_SOCKET fd (c, s) =
    (if b < length (mmap_file (Regular_File content))
     then Ret (c\<lparr>conn_response :=
            with_header
              (with_code (with_body (conn_response c) (take (b + 1 - a) (drop a (mmap_file (Regular_File content)))))
                 HTTP_RESPONSE_CODE_PARTIAL_CONTENT)
              ''Content-Range'' (''bytes '' @ show_lu a @ ''-'' @ show_lu b @ ''/'' @ show_lu (length content))\<rparr>,
            s\<lparr>sv_cwd := st\<rparr>)
     else Fault Out_Of_Bounds)"
proof -
  let ?f = "Regular_File content"
  have ok: "env_ok env" "parsed (conn_request c)" "response_ok (conn_response c)"
    using assms(1) by (auto simp: finds_file_def)
  have len: "length (mmap_file ?f) < 2 ^ 64" "st_size ?f < 2 ^ 64"
    using length_mmap_file(2) [of content] assms(2) by (simp_all add: page_size_def)
  have pr: "parse_range ndebug (map_option cstr (request_header (conn_request c) ''Range''))
      (word_of_nat (st_size ?f)) = Ret (Rng (word_of_nat a) (word_of_nat (b + 1)))"
    using parse_range_From_To(1) [OF assms(5,6)] assms(3,4) by simp
  have ne: "Rng (word_of_nat a) (word_of_nat (b + 1)) \<noteq> full_range"
    using parse_range_From_To(3) [OF assms(5,6)] by (auto simp: full_range_def)
  show ?thesis
    using send_file_eq(2) [OF ok len pr ne] transaction_file [OF assms(1), of ndebug fd]
    by (simp add: parse_range_From_To(2,3) [OF assms(5,6), simplified] Suc_le_eq)
qed

lemma cstr_range_header_text: "cstr (range_header_text cs) = range_header_text cs"
  by (rule cstr_id) (use NUL_notin_show_specs in \<open>auto simp: range_header_text_def\<close>)

lemma headers_get_with_body:
  "response_ok r \<Longrightarrow> headers_get (res_headers (with_body r x)) ''Content-Length'' = Some (show_lu (length x))"
  using with_header_get by (simp add: with_body_def response_ok_def body_ok_def)

section \<open>Properties\<close>

text \<open>
  C34. A plain connection is only ever redirected. Whatever the request, the transaction on a
  \<open>TCP_SOCKET\<close> stays inside the stack buffer it prints into, answers 301 with a \<open>Location\<close> made
  of the address the client reached, the HTTPS port and the URL, leaves the body and the other
  headers alone, and touches nothing else of the connection or the server.
\<close>

theorem redirect_exact:
  assumes "env_ok env" "parsed (conn_request c)" "response_ok (conn_response c)"
  shows "\<exists>r. handle_http_transaction ndebug env TCP_SOCKET fd (c, s) = Ret (c\<lparr>conn_response := r\<rparr>, s) \<and>
    response_ok r \<and> st_code (state_line r) = HTTP_RESPONSE_CODE_MOVE_MOVED_PERMANENTLY \<and>
    res_body r = res_body (conn_response c) \<and>
    headers_get (res_headers r) = (headers_get (res_headers (conn_response c)))
      (''Location'' \<mapsto> redirect_location ndebug env fd (cstr (request_url (conn_request c))))"
  using transaction_tcp [OF assms] redirected_response [OF assms(1,3)] by blast

lemma redirect_exact_witness:
  "\<exists>r. handle_http_transaction True sample_env TCP_SOCKET 5 (sample_connection ''/x'' [], empty_server) =
      Ret ((sample_connection ''/x'' [])\<lparr>conn_response := r\<rparr>, empty_server) \<and>
    headers_get (res_headers r) ''Location'' = Some ''https://10.0.0.1:443/x''"
proof -
  have "redirect_location True sample_env 5 ''/x'' = ''https://10.0.0.1:443/x''"
    unfolding redirect_location_def sample_env_def HTTPSPort_def by code_simp
  then show ?thesis
    using redirect_exact [of sample_env "sample_connection ''/x'' []" True 5 empty_server]
      sample_env_ok sample_parsed sample_response_ok by (auto simp: cstr_id)
qed

text \<open>
  C33. Magic calls are guarded by the authorization code, and do what their name says. For a URL
  under \<open>/magic-call/\<close> on a TLS connection: without an \<open>Authorization\<close> header the answer is 404,
  with one that does not start with the code it is 403, and nothing changes; with the code,
  \<open>shutdown\<close> clears the running flag, \<open>set-log-level?level=\<close> sets the level and anything else is
  501. The comparison looks at 32 bytes only, and reads past the header's block when the
  header is shorter than 31 characters.
\<close>

theorem magic_calls_guarded:
  assumes "env_ok env" "parsed (conn_request c)" "response_ok (conn_response c)"
    and "request_url (conn_request c) = magic_prefix @ call" "NUL \<notin> set call"
    and "sv_code s = Some secret" "length secret = AuthorizationCodeLength" "NUL \<notin> set secret"
  shows "handle_http_transaction ndebug env TLS_SOCKET fd (c, s) =
    (case request_header (conn_request c) ''Authorization'' of
       None \<Rightarrow> Ret (c\<lparr>conn_response := with_code (conn_response c) HTTP_RESPONSE_CODE_NOT_FOUND\<rparr>, s)
     | Some v \<Rightarrow>
         if length (cstr v) + 1 < AuthorizationCodeLength then Fault Out_Of_Bounds
         else if \<not> prefix secret (cstr v)
         then Ret (c\<lparr>conn_response := with_code (conn_response c) HTTP_RESPONSE_CODE_FORBIDDEN\<rparr>, s)
         else (case magic_effect call (conn_response c, s) of (r, s') \<Rightarrow> Ret (c\<lparr>conn_response := r\<rparr>, s')))"
proof -
  let ?u = "magic_prefix @ call"
  have m: "take 12 ?u = magic_prefix" "drop 12 ?u = call" "NUL \<notin> set ?u"
    using assms(5) by (simp_all add: magic_prefix_def)
  have pre: "take AuthorizationCodeLength v = secret \<longleftrightarrow> prefix secret v" for v
    using assms(7) by (metis prefix_def append_eq_conv_conj append_take_drop_id)
  show ?thesis
    using transaction_tls [OF assms(1,2), of ndebug fd s] m(1,3)
      handle_magic_call_eq [OF assms(1-3) m(3,1) assms(6-8), of ndebug]
    unfolding assms(4) m(2) pre by (simp split: option.split prod.split)
qed

lemma magic_calls_guarded_witness:
  "\<exists>r. handle_http_transaction False sample_env TLS_SOCKET 5
      (sample_connection ''/magic-call/shutdown'' [\<lparr>hkey = ''Authorization'', hvalue = replicate 32 (CHR ''A'')\<rparr>],
       empty_server\<lparr>sv_code := Some (replicate 32 (CHR ''A''))\<rparr>) =
     Ret ((sample_connection ''/magic-call/shutdown'' [\<lparr>hkey = ''Authorization'', hvalue = replicate 32 (CHR ''A'')\<rparr>])
            \<lparr>conn_response := r\<rparr>,
          empty_server\<lparr>sv_code := Some (replicate 32 (CHR ''A'')), sv_running := False\<rparr>)"
proof -
  have "request_header (sample_request ''/magic-call/shutdown''
      [\<lparr>hkey = ''Authorization'', hvalue = replicate 32 (CHR ''A'')\<rparr>]) ''Authorization'' =
      Some (replicate 32 (CHR ''A''))"
    by (simp add: sample_header cstr_id)
  then show ?thesis
    using magic_calls_guarded [of sample_env
        "sample_connection ''/magic-call/shutdown'' [\<lparr>hkey = ''Authorization'', hvalue = replicate 32 (CHR ''A'')\<rparr>]"
        "''shutdown''" "empty_server\<lparr>sv_code := Some (replicate 32 (CHR ''A''))\<rparr>" "replicate 32 (CHR ''A'')" False 5]
      sample_env_ok sample_parsed sample_response_ok
    by (simp add: magic_prefix_def AuthorizationCodeLength_def cstr_id magic_effect_def) (rule exI, rule refl)
qed

text \<open>
  C5. No file outside the working directory is served. If the answer to a request that is not a
  magic call is 200 or 206, its path resolves, to a file the server can open, whose canonical
  path begins with the working directory and the slash after it. The URL is taken to hold no
  NUL.
\<close>

theorem served_files_contained:
  assumes "env_ok env" "parsed (conn_request c)" "response_ok (conn_response c)"
    and "NUL \<notin> set (request_url (conn_request c))" "take 12 (request_url (conn_request c)) \<noteq> magic_prefix"
    and "cwd_ok (sv_cwd s)"
    and result: "handle_http_transaction ndebug env TLS_SOCKET fd (c, s) = Ret (c', s')"
    and "st_code (state_line (conn_response c')) \<in> {HTTP_RESPONSE_CODE_OK, HTTP_RESPONSE_CODE_PARTIAL_CONTENT}"
  shows "\<exists>path d p f. tl (request_url (conn_request c)) = path \<and> env_realpath env path = Some p \<and>
    current_working_directory env (sv_cwd s) = Ret (d, sv_cwd s') \<and>
    last d = CHR ''/'' \<and> prefix d p \<and> env_open env p = Some f"
proof (cases "request_url (conn_request c)")
  case Nil
  with result transaction_tls [OF assms(1,2,4), of ndebug fd s] assms(5) show ?thesis
    by (simp add: handle_file_request_def outcome_simps split: if_splits)
next
  case (Cons c0 path)
  let ?r = "conn_response c"
  have hf: "bindO (handle_file_request ndebug env (conn_request c) ((c0 # path) @ [NUL]) (?r, s))
      (\<lambda>(r, s). Ret (c\<lparr>conn_response := r\<rparr>, s)) = Ret (c', s')"
    using result transaction_tls [OF assms(1,2,4), of ndebug fd s] assms(5) Cons by simp
  have path: "NUL \<notin> set path" and c0: "ndebug \<or> c0 = CHR ''/''"
    using assms(4) Cons hf by (auto simp: handle_file_request_def outcome_simps)
  have other: "HTTP_RESPONSE_CODE_NOT_FOUND \<notin> {HTTP_RESPONSE_CODE_OK, HTTP_RESPONSE_CODE_PARTIAL_CONTENT}"
    by (simp add: response_code_defs)
  obtain p where p: "env_realpath env path = Some p"
    using hf path c0 assms(3,8) other
    by (cases "env_realpath env path")
      (auto simp: handle_file_request_def c_assert_def cstr_append_NUL generate_not_found_def set_code_eq)
  obtain d st where d: "current_working_directory env (sv_cwd s) = Ret (d, st)"
    using hf path c0 p
    by (cases "current_working_directory env (sv_cwd s)")
      (auto simp: handle_file_request_def c_assert_def cstr_append_NUL)
  note eq = handle_file_request_eq [OF assms(3) path c0 d assms(6)]
  have "prefix d p"
    using hf assms(8) other unfolding eq p by (auto split: if_splits)
  moreover from this obtain f where "env_open env p = Some f"
    using hf assms(8) other unfolding eq p
    by (cases "env_open env p") (auto split: if_splits)
  moreover from calculation have "sv_cwd s' = st"
    using hf unfolding eq p by (auto simp: outcome_simps split: if_splits)
  ultimately show ?thesis
    using p d current_working_directory_ok [OF d assms(6)] Cons by auto
qed

lemma served_files_contained_witness:
  "\<exists>st. current_working_directory sample_env None = Ret (''/srv/'', st) \<and> prefix ''/srv/'' ''/srv/a''"
proof -
  let ?c = "sample_connection ''/a'' []"
  have pr: "parse_range False (map_option cstr (request_header (conn_request ?c) ''Range'')) (word_of_nat 10) =
      Ret full_range"
    by (simp add: sample_header parse_range_def)
  have "send_file False sample_env (conn_request ?c) (Regular_File ''0123456789'') (conn_response ?c) =
      Ret (with_code (with_body sample_response ''0123456789'') HTTP_RESPONSE_CODE_OK)"
    using send_file_eq(1) [OF sample_env_ok, of "conn_request ?c" sample_response "Regular_File ''0123456789''" False full_range]
      sample_parsed sample_response_ok pr by (simp add: page_size_def)
  then have t: "handle_http_transaction False sample_env TLS_SOCKET 5 (?c, empty_server) =
      Ret (?c\<lparr>conn_response := with_code (with_body sample_response ''0123456789'') HTTP_RESPONSE_CODE_OK\<rparr>,
           empty_server\<lparr>sv_cwd := Some ''/srv/''\<rparr>)"
    using transaction_file [OF finds_sample, of "[]" False 5] by simp
  have "sv_cwd empty_server = None" by (simp add: empty_server_def)
  moreover have "\<exists>path d p f. ''a'' = path \<and> env_realpath sample_env path = Some p \<and>
      current_working_directory sample_env (sv_cwd empty_server) =
        Ret (d, sv_cwd (empty_server\<lparr>sv_cwd := Some ''/srv/''\<rparr>)) \<and>
      last d = CHR ''/'' \<and> prefix d p \<and> env_open sample_env p = Some f"
    using served_files_contained [OF sample_env_ok, of ?c empty_server False 5] t sample_parsed sample_response_ok
    by (simp add: magic_prefix_def cwd_ok_def empty_server_def)
  moreover have "env_realpath sample_env ''a'' = Some ''/srv/a''" by (simp add: sample_env_def)
  moreover have "d = ''/srv/''" if "current_working_directory sample_env None = Ret (d, st)" for d st
    using that by (simp add: current_working_directory_def sample_env_def)
  ultimately show ?thesis
    by (intro exI [of _ "Some ''/srv/''"]) auto
qed

lemma whole_file_served:
  assumes "finds_file env c s (Regular_File content) st" "length content < 2 ^ 63"
    and "request_header (conn_request c) ''Range'' = None"
  shows "\<exists>r. handle_http_transaction ndebug env TLS_SOCKET fd (c, s) =
         Ret (c\<lparr>conn_response := r\<rparr>, s\<lparr>sv_cwd := st\<rparr>) \<and>
     response_ok r \<and> st_code (state_line r) = HTTP_RESPONSE_CODE_OK \<and> body_bytes (res_body r) = content \<and>
     headers_get (res_headers r) ''Content-Length'' = Some (show_lu (length content))"
proof -
  let ?f = "Regular_File content" and ?q = "conn_request c" and ?r = "conn_response c"
  have ok: "env_ok env" "parsed ?q" "response_ok ?r" using assms(1) by (auto simp: finds_file_def)
  have len: "length (mmap_file ?f) < 2 ^ 64" "st_size ?f < 2 ^ 64"
    using length_mmap_file(2) [of content] assms(2) by (simp_all add: page_size_def)
  have "parse_range ndebug (map_option cstr (request_header ?q ''Range'')) (word_of_nat (st_size ?f)) = Ret full_range"
    using assms(3) by (simp add: parse_range_def)
  from send_file_eq(1) [OF ok len this] length_mmap_file(1) [of content] length_mmap_file(3) [of content]
  have "send_file ndebug env ?q ?f ?r = Ret (with_code (with_body ?r content) HTTP_RESPONSE_CODE_OK)" by simp
  then show ?thesis
    using transaction_file [OF assms(1), of ndebug fd] with_code_ok [OF with_body_ok [OF ok(3)]]
      headers_get_with_body [OF ok(3)]
    by (auto simp: body_bytes_def)
qed

lemma file_part_served:
  assumes "finds_file env c s (Regular_File content) st" "length content < 2 ^ 63"
    and h: "request_header (conn_request c) ''Range'' = Some v" "cstr v = range_header_text [From_To a b]"
      "a \<le> b" "b < length content"
  shows "\<exists>r. handle_http_transaction ndebug env TLS_SOCKET fd (c, s) =
         Ret (c\<lparr>conn_response := r\<rparr>, s\<lparr>sv_cwd := st\<rparr>) \<and>
     response_ok r \<and> st_code (state_line r) = HTTP_RESPONSE_CODE_PARTIAL_CONTENT \<and>
     body_bytes (res_body r) = take (b + 1 - a) (drop a content) \<and>
     headers_get (res_headers r) ''Content-Length'' = Some (show_lu (b + 1 - a)) \<and>
     headers_get (res_headers r) ''Content-Range'' =
       Some (''bytes '' @ show_lu a @ ''-'' @ show_lu b @ ''/'' @ show_lu (length content))"
proof -
  let ?b = "with_code (with_body (conn_response c) (take (b + 1 - a) (drop a content))) HTTP_RESPONSE_CODE_PARTIAL_CONTENT"
  let ?t = "''bytes '' @ show_lu a @ ''-'' @ show_lu b @ ''/'' @ show_lu (length content)"
  have ok: "response_ok (conn_response c)" using assms(1) by (auto simp: finds_file_def)
  then have bok: "response_ok ?b" by (simp add: with_code_ok with_body_ok)
  have "b < 2 ^ 63 - 1" using h(4) assms(2) by linarith
  moreover have "take (b + 1 - a) (drop a (mmap_file (Regular_File content))) = take (b + 1 - a) (drop a content)"
    using h(3,4) by (simp add: drop_take)
  ultimately have "handle_http_transaction ndebug env TLS_SOCKET fd (c, s) =
      Ret (c\<lparr>conn_response := with_header ?b ''Content-Range'' ?t\<rparr>, s\<lparr>sv_cwd := st\<rparr>)"
    using send_file_From_To [OF assms(1,2), of v a b ndebug fd] h length_mmap_file(1) [of content] by simp
  moreover have "headers_get (res_headers (with_header ?b ''Content-Range'' ?t)) =
      (headers_get (res_headers ?b))(''Content-Range'' \<mapsto> ?t)"
    by (rule with_header_get [OF bok]) simp_all
  moreover have "length (take (b + 1 - a) (drop a content)) = b + 1 - a"
    using h(3,4) by (simp add: min_def) linarith
  ultimately show ?thesis
    using with_header_ok [OF bok] headers_get_with_body [OF ok, of "take (b + 1 - a) (drop a content)"]
    by (intro exI [of _ "with_header ?b ''Content-Range'' ?t"]) (simp add: body_bytes_def)
qed

text \<open>
  C14. The right bytes are served. For a file in the tree that is not too large, a request without
  a \<open>Range\<close> header is answered with 200 and exactly the file; one for positions \<open>a\<close> to \<open>b\<close> inside
  it with 206, exactly these bytes, their \<open>Content-Range\<close> and their \<open>Content-Length\<close>.
\<close>

theorem file_served_exactly:
  assumes "finds_file env c s (Regular_File content) st" "length content < 2 ^ 63"
  shows "(request_header (conn_request c) ''Range'' = None \<longrightarrow>
      (\<exists>r. handle_http_transaction ndebug env TLS_SOCKET fd (c, s) =
             Ret (c\<lparr>conn_response := r\<rparr>, s\<lparr>sv_cwd := st\<rparr>) \<and>
         response_ok r \<and> st_code (state_line r) = HTTP_RESPONSE_CODE_OK \<and> body_bytes (res_body r) = content \<and>
         headers_get (res_headers r) ''Content-Length'' = Some (show_lu (length content)))) \<and>
    (\<forall>v a b. request_header (conn_request c) ''Range'' = Some v \<and> cstr v = range_header_text [From_To a b] \<and>
        a \<le> b \<and> b < length content \<longrightarrow>
      (\<exists>r. handle_http_transaction ndebug env TLS_SOCKET fd (c, s) =
             Ret (c\<lparr>conn_response := r\<rparr>, s\<lparr>sv_cwd := st\<rparr>) \<and>
         response_ok r \<and> st_code (state_line r) = HTTP_RESPONSE_CODE_PARTIAL_CONTENT \<and>
         body_bytes (res_body r) = take (b + 1 - a) (drop a content) \<and>
         headers_get (res_headers r) ''Content-Length'' = Some (show_lu (b + 1 - a)) \<and>
         headers_get (res_headers r) ''Content-Range'' =
           Some (''bytes '' @ show_lu a @ ''-'' @ show_lu b @ ''/'' @ show_lu (length content))))"
  using whole_file_served [OF assms] file_part_served [OF assms] by blast

lemma file_served_exactly_witness:
  "\<exists>r. handle_http_transaction False sample_env TLS_SOCKET 5
      (sample_connection ''/a'' [\<lparr>hkey = ''Range'', hvalue = range_header_text [From_To 2 5]\<rparr>], empty_server) =
      Ret ((sample_connection ''/a'' [\<lparr>hkey = ''Range'', hvalue = range_header_text [From_To 2 5]\<rparr>])\<lparr>conn_response := r\<rparr>,
           empty_server\<lparr>sv_cwd := Some ''/srv/''\<rparr>) \<and>
     body_bytes (res_body r) = ''2345''"
proof -
  let ?hs = "[\<lparr>hkey = ''Range'', hvalue = range_header_text [From_To 2 5]\<rparr>]"
  have hs: "headers_ok ?hs" by simp
  have "request_header (sample_request ''/a'' ?hs) ''Range'' = Some (range_header_text [From_To 2 5])"
    by (simp add: sample_header cstr_id)
  then show ?thesis
    using cstr_range_header_text file_served_exactly [OF finds_sample [OF hs], of False 5, THEN conjunct2, rule_format,
        of "range_header_text [From_To 2 5]" 2 5] by auto
qed

text \<open>
  C35. Bytes beyond the end of the file. A range that ends after the file is not cut off: as long
  as it ends inside the last page of the mapping the answer is 206 with the rest of the file
  followed by NUL bytes that are not in the file, announced with the end the client asked
  for; beyond that page the server reads outside the mapping.
\<close>

theorem range_past_end_served:
  assumes "finds_file env c s (Regular_File content) st" "length content < 2 ^ 63"
    and "request_header (conn_request c) ''Range'' = Some v" "cstr v = range_header_text [From_To a b]"
    and "a < length content" "length content \<le> b" "b < 2 ^ 63 - 1"
  defines "pages \<equiv> length (mmap_file (Regular_File content))"
  shows "(pages \<le> b \<longrightarrow> handle_http_transaction ndebug env TLS_SOCKET fd (c, s) = Fault Out_Of_Bounds) \<and>
    (b < pages \<longrightarrow>
       (\<exists>r. handle_http_transaction ndebug env TLS_SOCKET fd (c, s) =
              Ret (c\<lparr>conn_response := r\<rparr>, s\<lparr>sv_cwd := st\<rparr>) \<and>
          body_bytes (res_body r) = drop a content @ replicate (b + 1 - length content) NUL))"
proof -
  let ?f = "Regular_File content"
  have ab: "a \<le> b" using assms(5,6) by simp
  note eq = send_file_From_To [OF assms(1-4) ab assms(7), of ndebug fd, folded pages_def]
  obtain k where k: "mmap_file ?f = content @ replicate k NUL" by simp
  have "take (b + 1 - a) (drop a (mmap_file ?f)) = drop a content @ replicate (b + 1 - length content) NUL"
    if "b < pages"
  proof -
    have "b + 1 - a - (length content - a) = b + 1 - length content" "b + 1 - length content \<le> k"
      using that assms(5,6) k by (simp_all add: pages_def)
    then show ?thesis using assms(5,6) unfolding k by (simp add: min_def)
  qed
  with eq show ?thesis by (auto simp: body_bytes_def)
qed

lemma range_past_end_served_witness:
  "\<exists>r. handle_http_transaction False sample_env TLS_SOCKET 5
      (sample_connection ''/a'' [\<lparr>hkey = ''Range'', hvalue = range_header_text [From_To 8 12]\<rparr>], empty_server) =
      Ret ((sample_connection ''/a'' [\<lparr>hkey = ''Range'', hvalue = range_header_text [From_To 8 12]\<rparr>])\<lparr>conn_response := r\<rparr>,
           empty_server\<lparr>sv_cwd := Some ''/srv/''\<rparr>) \<and>
     body_bytes (res_body r) = ''89'' @ [NUL, NUL, NUL]"
proof -
  let ?hs = "[\<lparr>hkey = ''Range'', hvalue = range_header_text [From_To 8 12]\<rparr>]"
  have hs: "headers_ok ?hs" by simp
  have "request_header (sample_request ''/a'' ?hs) ''Range'' = Some (range_header_text [From_To 8 12])"
    by (simp add: sample_header cstr_id)
  moreover have "12 < length (mmap_file (Regular_File ''0123456789''))" by (simp add: page_size_def)
  moreover have "drop 8 ''0123456789'' @ replicate (12 + 1 - length ''0123456789'') NUL = ''89'' @ [NUL, NUL, NUL]"
    by (simp add: eval_nat_numeral)
  ultimately show ?thesis
    using range_past_end_served [OF finds_sample [OF hs], of "range_header_text [From_To 8 12]" 8 12 False 5,
        THEN conjunct2, rule_format] cstr_range_header_text [of "[From_To 8 12]"]
    by (simp del: mmap_file.simps drop_Cons_numeral)
qed

text \<open>
  C36. Paths that crash the server. A request without a range for a directory in the tree reads
  through the failed mapping; and one whose canonical path is shorter than the working
  directory (its parent, for example) makes the containment check itself read past the path: past
  the block of \<open>realpath\<close> as far as its documentation goes, which promises no more than the
  terminated string.
\<close>

theorem directory_requests_fault:
  assumes "env_ok env" "parsed (conn_request c)" "response_ok (conn_response c)" "cwd_ok (sv_cwd s)"
    and "request_url (conn_request c) = CHR ''/'' # path" "NUL \<notin> set path"
    and "take 12 (CHR ''/'' # path) \<noteq> magic_prefix" "env_realpath env path = Some p"
    and "current_working_directory env (sv_cwd s) = Ret (d, st)"
    and "length p + 1 < length d \<or>
      prefix d p \<and> env_open env p = Some (Directory n) \<and> 0 < n \<and> n < 2 ^ 64 \<and>
      request_header (conn_request c) ''Range'' = None"
  shows "handle_http_transaction ndebug env TLS_SOCKET fd (c, s) = Fault Out_Of_Bounds"
proof (cases "length p + 1 < length d")
  case True
  have u: "NUL \<notin> set (request_url (conn_request c))" using assms(5,6) by simp
  have "handle_file_request ndebug env (conn_request c) ((CHR ''/'' # path) @ [NUL]) (conn_response c, s) =
      Fault Out_Of_Bounds"
    using True by (subst handle_file_request_eq [OF assms(3,6) _ assms(9,4)]) (simp_all add: assms(8))
  then show ?thesis
    using transaction_tls [OF assms(1,2) u, of ndebug fd s] assms(7) unfolding assms(5) by simp
next
  case False
  then have f: "prefix d p" "env_open env p = Some (Directory n)" "0 < n" "n < 2 ^ 64"
      "request_header (conn_request c) ''Range'' = None"
    using assms(10) by auto
  have found: "finds_file env c s (Directory n) st"
    using assms(1-9) f(1,2) by (simp add: finds_file_def)
  have pr: "parse_range ndebug (map_option cstr (request_header (conn_request c) ''Range''))
      (word_of_nat (st_size (Directory n))) = Ret full_range"
    using f(5) by (simp add: parse_range_def)
  have len: "length (mmap_file (Directory n)) < 2 ^ 64" "st_size (Directory n) < 2 ^ 64"
    using f(4) by simp_all
  show ?thesis
    using transaction_file [OF found, of ndebug fd] send_file_eq(1) [OF assms(1-3) len pr refl] f(3) by simp
qed

lemma directory_requests_fault_witness:
  "handle_http_transaction False sample_env TLS_SOCKET 5 (sample_connection ''/d'' [], empty_server) =
     Fault Out_Of_Bounds \<and>
   handle_http_transaction False sample_env TLS_SOCKET 5 (sample_connection ''/..'' [], empty_server) =
     Fault Out_Of_Bounds"
proof -
  have w: "current_working_directory sample_env (sv_cwd empty_server) = Ret (''/srv/'', Some ''/srv/'')"
      "cwd_ok (sv_cwd empty_server)"
    by (simp_all add: current_working_directory_def sample_env_def empty_server_def cwd_ok_def)
  have "request_header (sample_request u []) k = None" for u k by (simp add: sample_header)
  then show ?thesis
    using directory_requests_fault [OF sample_env_ok _ _ w(2) _ _ _ _ w(1), of "sample_connection ''/d'' []" "''d''" "''/srv/d''" 4096 False 5]
      directory_requests_fault [OF sample_env_ok _ _ w(2) _ _ _ _ w(1), of "sample_connection ''/..'' []" "''..''" "''/''" 1 False 5]
      sample_parsed sample_response_ok
    by (simp add: magic_prefix_def sample_env_def)
qed

text \<open>
  The buffer of the working directory. The first call of \<open>current_working_directory\<close> writes
  outside its 1028 bytes exactly if \<open>getcwd\<close> fills its 1024 bytes with a path that lacks the
  final slash; it exits exactly if \<open>getcwd\<close> fails; otherwise it gives the directory with a
  slash at its end, as does every later call.
\<close>

lemma working_directory_buffer:
  "(current_working_directory env None = Fault Out_Of_Bounds \<longleftrightarrow>
      (\<exists>d. env_getcwd env = Some d \<and> length d = 1023 \<and> last d \<noteq> CHR ''/'')) \<and>
   (current_working_directory env None = Fault Exit_Failure \<longleftrightarrow>
      (\<forall>d. env_getcwd env = Some d \<longrightarrow> 1023 < length d)) \<and>
   (\<forall>e st. current_working_directory env None = Ret (e, st) \<longrightarrow>
      last e = CHR ''/'' \<and> length e < 1024 \<and> (\<exists>d. env_getcwd env = Some d \<and> (e = d \<or> e = d @ ''/'')) \<and>
      current_working_directory env' st = Ret (e, st))"
proof (cases "env_getcwd env")
  case (Some d)
  then show ?thesis
    by (cases "length d \<ge> 1024"; cases "d = []"; cases "last d = CHR ''/''")
      (auto simp: current_working_directory_def)
qed (simp add: current_working_directory_def)

lemma working_directory_buffer_witness:
  "current_working_directory (sample_env\<lparr>env_getcwd := Some (replicate 1023 (CHR ''x''))\<rparr>) None = Fault Out_Of_Bounds \<and>
   current_working_directory sample_env (Some ''/srv/'') = Ret (''/srv/'', Some ''/srv/'')"
proof -
  have "current_working_directory sample_env None = Ret (''/srv/'', Some ''/srv/'')"
    by (simp add: current_working_directory_def sample_env_def)
  with working_directory_buffer [of sample_env sample_env]
  have "current_working_directory sample_env (Some ''/srv/'') = Ret (''/srv/'', Some ''/srv/'')" by blast
  moreover have "last (replicate 1023 (CHR ''x'')) \<noteq> CHR ''/''" by (subst last_replicate) simp_all
  ultimately show ?thesis
    using working_directory_buffer [of "sample_env\<lparr>env_getcwd := Some (replicate 1023 (CHR ''x''))\<rparr>" sample_env]
    by simp
qed

end
