(* ===== verification/Connection.thy ===== *)
theory Connection
  imports Transaction Request_Parser
begin

text \<open>
  The handler of a ready connection (\<open>server.c\<close>: \<open>handle_connection\<close>): read everything that has
  arrived into pages, append the pages to the buffer of the connection, parse, answer, render
  into the same buffer, and send what the peer takes.

  The two loops call through the function pointers \<open>recv\<close> and \<open>send\<close>, which are arguments; both
  may run forever (\<open>None\<close>). \<open>size_t\<close> arithmetic on the capacity is modulo \<open>2 ^ 64\<close>.
\<close>

unbundle bit_operations_syntax

section \<open>Reading\<close>

definition buffer_page_size :: nat where "buffer_page_size = 4096"
definition buffer_list_length :: nat where "buffer_list_length = 128"

text \<open>
  How the loop is left: \<open>Drained\<close> on \<open>EAGAIN\<close>, \<open>Broken\<close> where the connection has to be destroyed
  (another error, or the end of the stream before any data).
\<close>

datatype receive_end = Drained | Broken

text \<open>
  \<open>pages\<close> are the full pages, \<open>page\<close> the first \<open>offset\<close> bytes of the last one; \<open>total_size\<close> is
  the number of all of them. A page that has just become full makes the loop allocate the
  next one, whatever is still to come.
\<close>

definition total_size :: "string list \<Rightarrow> string \<Rightarrow> nat" where
  "total_size pages page = length (concat pages) + length page"

partial_function (option) receive_loop ::
  "('s \<Rightarrow> nat \<Rightarrow> ((errno, string) transfer \<times> 's) outcome) \<Rightarrow> string list \<Rightarrow> string \<Rightarrow> 's \<Rightarrow>
     (receive_end \<times> string list \<times> string \<times> 's) run" where
  "receive_loop recv pages page s =
     (case recv s (buffer_page_size - length page) of
        Fault f \<Rightarrow> Some (Fault f)
      | Ret (Inl e, s') \<Rightarrow> Some (Ret (if e = EAGAIN then Drained else Broken, pages, page, s'))
      | Ret (Inr d, s') \<Rightarrow>
          if d = [] \<and> total_size pages page = 0 then Some (Ret (Broken, pages, page, s'))
          else if length d < buffer_page_size - length page then receive_loop recv pages (page @ d) s'
          else if length pages + 1 < buffer_list_length then receive_loop recv (pages @ [page @ d]) [] s'
          else Some (Fault Out_Of_Bounds))"

section \<open>The buffer\<close>

definition size_sub :: "nat \<Rightarrow> nat \<Rightarrow> nat" where
  "size_sub a b = (a + 2 ^ 64 - b mod 2 ^ 64) mod 2 ^ 64"

definition size_add :: "nat \<Rightarrow> nat \<Rightarrow> nat" where
  "size_add a b = (a + b) mod 2 ^ 64"

fun c_realloc :: "(nat \<Rightarrow> string) \<Rightarrow> string ptr \<Rightarrow> nat \<Rightarrow> string ptr outcome" where
  "c_realloc junk Null n = Ret (Live (junk n))"
| "c_realloc junk (Live b) n = Ret (Live (take n b @ drop (length b) (junk n)))"
| "c_realloc junk Freed n = Fault Bad_Free"

text \<open>\<open>memmove(block, block + start, n)\<close>\<close>

definition memmove_down :: "string \<Rightarrow> nat \<Rightarrow> nat \<Rightarrow> string outcome" where
  "memmove_down b start n =
     (if start + n \<le> length b then Ret (take n (drop start b) @ drop n b) else Fault Out_Of_Bounds)"

definition shift_buffer :: "buffer \<Rightarrow> buffer outcome" where
  "shift_buffer buf =
     (if buf_start buf \<noteq> 0
      then bindO (deref (buf_block buf)) (\<lambda>b.
           bindO (memmove_down b (buf_start buf) (size_sub (buf_end buf) (buf_start buf))) (\<lambda>b'.
             Ret (buf\<lparr>buf_block := Live b', buf_end := size_sub (buf_end buf) (buf_start buf), buf_start := 0\<rparr>)))
      else Ret buf)"

fun copy_pages :: "string \<times> nat \<Rightarrow> string list \<Rightarrow> (string \<times> nat) outcome" where
  "copy_pages dst [] = Ret dst"
| "copy_pages dst (p # ps) =
     bindO (memcpy (fst dst) (snd dst) p buffer_page_size) (\<lambda>b.
       copy_pages (b, snd dst + buffer_page_size) ps)"

definition store_received ::
  "(nat \<Rightarrow> string) \<Rightarrow> buffer \<Rightarrow> string list \<Rightarrow> string \<Rightarrow> buffer outcome" where
  "store_received junk buf0 pages page =
     bindO (shift_buffer buf0) (\<lambda>buf.
       let available = size_sub (buf_capability buf) (buf_end buf);
           extra = size_sub (total_size pages page) available;
           capability = size_add (buf_capability buf) extra
       in bindO (c_realloc junk (buf_block buf) capability) (\<lambda>new_buffer.
          bindO (deref new_buffer) (\<lambda>b.
          bindO (copy_pages (b, buf_end buf) pages) (\<lambda>(b, e).
          bindO (if length page > 0
                 then bindO (memcpy b e page (length page)) (\<lambda>b. Ret (b, e + length page))
                 else Ret (b, e)) (\<lambda>(b, e).
            Ret (buf\<lparr>buf_block := Live b, buf_capability := capability, buf_end := e\<rparr>))))))"

section \<open>Answering\<close>

text \<open>Render into the buffer of the connection, or into a new one of the right size.\<close>

definition render_reply ::
  "bool \<Rightarrow> (nat \<Rightarrow> string) \<Rightarrow> http_response \<Rightarrow> buffer \<Rightarrow> (http_response \<times> buffer) outcome" where
  "render_reply ndebug junk r buf =
     bindO (deref (buf_block buf)) (\<lambda>b.
     bindO (http_response_render ndebug r (Some b) (buf_capability buf)) (\<lambda>((code, b1, size), r1).
       if code = HTTP_ERROR_CODE_INSUFFICIENT_BUFFER_SIZE
       then bindO (c_free (buf_block buf)) (\<lambda>_.
            bindO (http_response_render ndebug r1 (Some (junk size)) size) (\<lambda>((_, b2, size2), r2).
              Ret (r2, \<lparr>buf_block = Live (the b2), buf_capability = size, buf_start = 0, buf_end = size2\<rparr>)))
       else Ret (r1, buf\<lparr>buf_block := Live (the b1), buf_start := 0, buf_end := size\<rparr>)))"

text \<open>
  Parse the bytes in the buffer and, unless more have to come, prepare the reply. The state of
  the connection says which of the two happened.
\<close>

definition answer ::
  "bool \<Rightarrow> environment \<Rightarrow> file_descriptor_type \<Rightarrow> int \<Rightarrow> connection_information \<times> 'w server \<Rightarrow>
     (connection_information \<times> 'w server) outcome" where
  "answer ndebug env type fd cs =
     (case cs of (c, s) \<Rightarrow>
        bindO (deref (buf_block (conn_buffer c))) (\<lambda>b.
        bindO (http_request_from_buffer (conn_request c) (drop (buf_start (conn_buffer c)) b)
                 (size_sub (buf_end (conn_buffer c)) (buf_start (conn_buffer c)))) (\<lambda>(return_value, q).
          let c = c\<lparr>conn_request := q\<rparr>
          in if return_value = HTTP_ERROR_CODE_INCOMPLETE_REQUEST then Ret (c, s)
             else
               bindO (if return_value \<noteq> HTTP_ERROR_CODE_SUCCEED
                      then bindO (set_code (conn_response c) HTTP_RESPONSE_CODE_BAD_REQUEST) (\<lambda>r.
                             Ret (c\<lparr>conn_response := r\<rparr>, s))
                      else handle_http_transaction ndebug env type fd (c, s)) (\<lambda>(c, s).
               bindO (http_request_destroy (conn_request c)) (\<lambda>(_, q).
               let r = snd (http_response_set_header (conn_response c) ''Server'' ''hSS/0.0.1-alpha'')
               in bindO (render_reply ndebug (env_junk env) r (conn_buffer c)) (\<lambda>(r, buf).
                    Ret (c\<lparr>conn_request := q, conn_response := r, conn_buffer := buf,
                           conn_state := ConnectionStatusWritingResponse\<rparr>, s)))))))"

section \<open>Sending\<close>

datatype send_end = Sent | Blocked | Failed

partial_function (option) send_loop ::
  "('s \<Rightarrow> string \<Rightarrow> ((errno, nat) transfer \<times> 's) outcome) \<Rightarrow> string \<Rightarrow> nat \<Rightarrow> nat \<Rightarrow> 's \<Rightarrow>
     (send_end \<times> nat \<times> 's) run" where
  "send_loop send b start end s =
     (if end > length b then Some (Fault Out_Of_Bounds)
      else case send s (Prelude.slice b start end) of
        Fault f \<Rightarrow> Some (Fault f)
      | Ret (Inl e, s') \<Rightarrow> Some (Ret (if e = EAGAIN then Blocked else Failed, start, s'))
      | Ret (Inr n, s') \<Rightarrow>
          if n = end - start then Some (Ret (Sent, start + n, s'))
          else send_loop send b (start + n) end s')"

section \<open>The handler\<close>

definition EPOLLIN :: "32 word" where "EPOLLIN = 1"
definition EPOLLOUT :: "32 word" where "EPOLLOUT = 4"

definition put_connection :: "addr \<Rightarrow> connection_information \<Rightarrow> 'w server \<Rightarrow> 'w server" where
  "put_connection a c s =
     s\<lparr>sv_heap := (sv_heap s)(a := map_option (\<lambda>n. n\<lparr>fd_connection := Some c\<rparr>) (sv_heap s a))\<rparr>"

text \<open>
  The first half, for a connection that waits for a request. \<open>None\<close>: the handler has returned
  because the connection is gone.
\<close>

definition receive_request ::
  "bool \<Rightarrow> environment \<Rightarrow> 'w net \<Rightarrow> addr \<Rightarrow> file_descriptor_information \<Rightarrow> connection_information \<Rightarrow>
     'w server \<Rightarrow> (connection_information option \<times> 'w server) run" where
  "receive_request ndebug env net a node c s =
     bindR (receive_loop (conn_recv net (conn_fd c)) [] [] (conn_transport c, sv_world s))
       (\<lambda>(result, pages, page, transport, w).
       let c1 = c\<lparr>conn_transport := transport\<rparr>; s1 = put_connection a c1 (s\<lparr>sv_world := w\<rparr>)
       in if result = Broken
          then bindR (destroy_file_information net a s1) (\<lambda>s2. Some (Ret (None, s2)))
          else if total_size pages page = 0 then Some (Ret (Some c1, s1))
          else Some (bindO (store_received (env_junk env) (conn_buffer c1) pages page) (\<lambda>buf.
                     bindO (answer ndebug env (fd_type node) (file_descriptor node)
                              (c1\<lparr>conn_buffer := buf\<rparr>, s1)) (\<lambda>(c2, s2).
                       Ret (Some c2, put_connection a c2 s2)))))"

definition send_response ::
  "'w net \<Rightarrow> addr \<Rightarrow> connection_information \<Rightarrow> 'w server \<Rightarrow> 'w server run" where
  "send_response net a c s =
     bindR (Some (deref (buf_block (conn_buffer c)))) (\<lambda>b.
     bindR (send_loop (conn_send net (conn_fd c)) b (buf_start (conn_buffer c)) (buf_end (conn_buffer c))
              (conn_transport c, sv_world s)) (\<lambda>(result, start, transport, w).
       let c1 = c\<lparr>conn_transport := transport, conn_buffer := (conn_buffer c)\<lparr>buf_start := start\<rparr>,
                  conn_state := (if result = Sent then ConnectionStatusWaitingRequest else conn_state c)\<rparr>;
           s1 = put_connection a c1 (s\<lparr>sv_world := w\<rparr>)
       in if result = Failed then destroy_file_information net a s1 else Some (Ret s1)))"

definition handle_connection ::
  "bool \<Rightarrow> environment \<Rightarrow> 'w net \<Rightarrow> 32 word \<Rightarrow> addr \<Rightarrow> 'w server \<Rightarrow> 'w server run" where
  "handle_connection ndebug env net event a s =
     (case sv_heap s a of
        None \<Rightarrow> Some (Fault Use_After_Free)
      | Some node \<Rightarrow>
          (case fd_connection node of
             None \<Rightarrow> Some (Fault Uninitialised)
           | Some c \<Rightarrow>
               if event AND EPOLLIN = 0 \<and> conn_state c = ConnectionStatusWaitingRequest then Some (Ret s)
               else if event AND EPOLLOUT = 0 \<and> conn_state c = ConnectionStatusWritingResponse then Some (Ret s)
               else
                 bindR (if conn_state c = ConnectionStatusWaitingRequest
                        then receive_request ndebug env net a node c s
                        else Some (Ret (Some c, s))) (\<lambda>(c', s').
                   case c' of
                     None \<Rightarrow> Some (Ret s')
                   | Some c2 \<Rightarrow>
                       if conn_state c2 = ConnectionStatusWritingResponse then send_response net a c2 s'
                       else Some (Ret s'))))"

end
