(* ===== verification/Connection_Lemmas.thy ===== *)
theory Connection_Lemmas
  imports Connection Transaction_Properties Parser_Grammar
begin

text \<open>
  Lemmas on the parts of \<open>handle_connection\<close>: what the receive loop collects from a
  \<open>byte_source\<close>, what the send loop gives to a \<open>byte_sink\<close>, what the buffer holds after both.
\<close>

section \<open>The receive loop\<close>

definition pages_ok :: "string list \<Rightarrow> string \<Rightarrow> bool" where
  "pages_ok pages page \<longleftrightarrow> list_all (\<lambda>p. length p = buffer_page_size) pages \<and>
     length page < buffer_page_size \<and> length pages < buffer_list_length"

lemma pages_ok_start [simp]: "pages_ok [] []"
  by (simp add: pages_ok_def buffer_page_size_def buffer_list_length_def)

context byte_source
begin

lemma receive_loop_taken:
  assumes "receive_loop recv pages page s = Some (Ret (res, pages', page', s'))" "ok s" "pages_ok pages page"
  shows "ok s' \<and> pages_ok pages' page' \<and>
    (\<exists>d. concat pages' @ page' = concat pages @ page @ d \<and> taken s' = taken s @ d \<and> kept s' = kept s)"
proof -
  have "\<forall>res pages' page' s'. y = Ret (res, pages', page', s') \<longrightarrow> rv = recv \<longrightarrow> ok s \<longrightarrow> pages_ok pages page \<longrightarrow>
      ok s' \<and> pages_ok pages' page' \<and>
      (\<exists>d. concat pages' @ page' = concat pages @ page @ d \<and> taken s' = taken s @ d \<and> kept s' = kept s)"
    if "receive_loop rv pages page s = Some y" for rv pages page s y
  proof (rule receive_loop.raw_induct [OF _ that, where P = "\<lambda>rv pages page s y.
      \<forall>res pages' page' s'. y = Ret (res, pages', page', s') \<longrightarrow> rv = recv \<longrightarrow> ok s \<longrightarrow> pages_ok pages page \<longrightarrow>
        ok s' \<and> pages_ok pages' page' \<and>
        (\<exists>d. concat pages' @ page' = concat pages @ page @ d \<and> taken s' = taken s @ d \<and> kept s' = kept s)"], intro allI impI)
    fix loop rv pages page s y res pages' page' s'
    assume IH: "\<And>rv pages page s y. loop rv pages page s = Some y \<Longrightarrow>
        \<forall>res pages' page' s'. y = Ret (res, pages', page', s') \<longrightarrow> rv = recv \<longrightarrow> ok s \<longrightarrow> pages_ok pages page \<longrightarrow>
          ok s' \<and> pages_ok pages' page' \<and>
          (\<exists>d. concat pages' @ page' = concat pages @ page @ d \<and> taken s' = taken s @ d \<and> kept s' = kept s)"
      and step: "(case rv s (buffer_page_size - length page) of
        Fault f \<Rightarrow> Some (Fault f)
      | Ret (Inl e, s') \<Rightarrow> Some (Ret (if e = EAGAIN then Drained else Broken, pages, page, s'))
      | Ret (Inr d, s') \<Rightarrow>
          if d = [] \<and> total_size pages page = 0 then Some (Ret (Broken, pages, page, s'))
          else if length d < buffer_page_size - length page then loop rv pages (page @ d) s'
          else if length pages + 1 < buffer_list_length then loop rv (pages @ [page @ d]) [] s'
          else Some (Fault Out_Of_Bounds)) = Some y"
      and y: "y = Ret (res, pages', page', s')" and rv: "rv = recv" and ok: "ok s" and pg: "pages_ok pages page"
    show "ok s' \<and> pages_ok pages' page' \<and>
        (\<exists>d. concat pages' @ page' = concat pages @ page @ d \<and> taken s' = taken s @ d \<and> kept s' = kept s)"
    proof (cases rule: recv_cases [OF ok, of "buffer_page_size - length page", case_names failed data])
      case (failed e s1)
      then show ?thesis using step y rv pg by simp
    next
      case (data d s1)
      show ?thesis
      proof (cases "d = [] \<and> total_size pages page = 0")
        case True
        then show ?thesis using step y rv data pg by simp
      next
        case more: False
        show ?thesis
        proof (cases "length d < buffer_page_size - length page")
          case True
          then have "loop recv pages (page @ d) s1 = Some (Ret (res, pages', page', s'))"
            using step y rv data more by (simp split: if_splits)
          moreover have "pages_ok pages (page @ d)" using pg True by (simp add: pages_ok_def)
          ultimately have "ok s' \<and> pages_ok pages' page' \<and>
              (\<exists>d'. concat pages' @ page' = concat pages @ (page @ d) @ d' \<and> taken s' = taken s1 @ d' \<and> kept s' = kept s1)"
            using IH data(2) by blast
          then show ?thesis using data(4,5) by auto
        next
          case False
          then have "loop recv (pages @ [page @ d]) [] s1 = Some (Ret (res, pages', page', s'))"
            and n: "length pages + 1 < buffer_list_length"
            using step y rv data more by (auto split: if_splits)
          moreover have "pages_ok (pages @ [page @ d]) []"
            using pg False n data(3) by (simp add: pages_ok_def buffer_page_size_def)
          ultimately have "ok s' \<and> pages_ok pages' page' \<and>
              (\<exists>d'. concat pages' @ page' = concat (pages @ [page @ d]) @ [] @ d' \<and> taken s' = taken s1 @ d' \<and> kept s' = kept s1)"
            using IH data(2) by blast
          then show ?thesis using data(4,5) by auto
        qed
      qed
    qed
  qed
  then show ?thesis using assms by blast
qed

end

section \<open>The send loop\<close>

context byte_sink
begin

lemma send_loop_delivered:
  assumes "send_loop send b start e s = Some y" "ok s" "start < e" "e \<le> length b"
  shows "\<exists>res start' s'. y = Ret (res, start', s') \<and> ok s' \<and> start \<le> start' \<and> start' \<le> e \<and>
    delivered s' = delivered s @ Prelude.slice b start start' \<and> (res = Sent \<longleftrightarrow> start' = e) \<and> kept s' = kept s"
proof -
  have "sd = send \<longrightarrow> ok s \<longrightarrow> start < e \<longrightarrow> e \<le> length b \<longrightarrow>
    (\<exists>res start' s'. y = Ret (res, start', s') \<and> ok s' \<and> start \<le> start' \<and> start' \<le> e \<and>
      delivered s' = delivered s @ Prelude.slice b start start' \<and> (res = Sent \<longleftrightarrow> start' = e) \<and> kept s' = kept s)"
    if "send_loop sd b start e s = Some y" for sd b start e s y
  proof (rule send_loop.raw_induct [OF _ that, where P = "\<lambda>sd b start e s y.
      sd = send \<longrightarrow> ok s \<longrightarrow> start < e \<longrightarrow> e \<le> length b \<longrightarrow>
      (\<exists>res start' s'. y = Ret (res, start', s') \<and> ok s' \<and> start \<le> start' \<and> start' \<le> e \<and>
        delivered s' = delivered s @ Prelude.slice b start start' \<and> (res = Sent \<longleftrightarrow> start' = e) \<and> kept s' = kept s)"], intro impI)
    fix loop sd b start e s y
    assume IH: "\<And>sd b start e s y. loop sd b start e s = Some y \<Longrightarrow>
        sd = send \<longrightarrow> ok s \<longrightarrow> start < e \<longrightarrow> e \<le> length b \<longrightarrow>
        (\<exists>res start' s'. y = Ret (res, start', s') \<and> ok s' \<and> start \<le> start' \<and> start' \<le> e \<and>
          delivered s' = delivered s @ Prelude.slice b start start' \<and> (res = Sent \<longleftrightarrow> start' = e) \<and> kept s' = kept s)"
      and step: "(if e > length b then Some (Fault Out_Of_Bounds)
       else case sd s (Prelude.slice b start e) of
         Fault f \<Rightarrow> Some (Fault f)
       | Ret (Inl x, s') \<Rightarrow> Some (Ret (if x = EAGAIN then Blocked else Failed, start, s'))
       | Ret (Inr n, s') \<Rightarrow>
           if n = e - start then Some (Ret (Sent, start + n, s'))
           else loop sd b (start + n) e s') = Some y"
      and sd: "sd = send" and ok: "ok s" and len: "start < e" "e \<le> length b"
    show "\<exists>res start' s'. y = Ret (res, start', s') \<and> ok s' \<and> start \<le> start' \<and> start' \<le> e \<and>
        delivered s' = delivered s @ Prelude.slice b start start' \<and> (res = Sent \<longleftrightarrow> start' = e) \<and> kept s' = kept s"
    proof (cases rule: send_cases [OF ok, of "Prelude.slice b start e", case_names refused sent])
      case (refused x s1)
      then show ?thesis using step sd len by (auto simp: slice_empty)
    next
      case (sent n s1)
      have n: "n \<le> e - start" using sent(3) len by (simp add: length_slice)
      have tk: "take n (Prelude.slice b start e) = Prelude.slice b start (start + n)"
        using n by (simp add: Prelude.slice_def min_def)
      show ?thesis
      proof (cases "n = e - start")
        case True
        then show ?thesis using step sd len sent tk by auto
      next
        case False
        with n have lt: "start + n < e" by simp
        from False step sd len sent(1) have "loop send b (start + n) e s1 = Some y" by simp
        from IH [OF this] lt len sent(2) obtain res start' s' where
          r: "y = Ret (res, start', s')" "ok s'" "start + n \<le> start'" "start' \<le> e"
          "delivered s' = delivered s1 @ Prelude.slice b (start + n) start'" "res = Sent \<longleftrightarrow> start' = e" "kept s' = kept s1"
          by blast
        have "Prelude.slice b start (start + n) @ Prelude.slice b (start + n) start' = Prelude.slice b start start'"
          using r(3) by (simp add: slice_join)
        then show ?thesis using r sent(4,5) tk by auto
      qed
    qed
  qed
  then show ?thesis using assms by blast
qed

end

section \<open>The buffer\<close>

definition buffer_ok :: "buffer \<Rightarrow> bool" where
  "buffer_ok buf \<longleftrightarrow>
     (case buf_block buf of
        Null \<Rightarrow> buf_capability buf = 0 \<and> buf_start buf = 0 \<and> buf_end buf = 0
      | Live b \<Rightarrow> length b = buf_capability buf \<and> buf_start buf \<le> buf_end buf \<and> buf_end buf \<le> buf_capability buf
      | Freed \<Rightarrow> False)"

text \<open>The effective part: what is still to be parsed, or to be sent.\<close>

definition buffer_content :: "buffer \<Rightarrow> string" where
  "buffer_content buf =
     (case buf_block buf of Live b \<Rightarrow> Prelude.slice b (buf_start buf) (buf_end buf) | _ \<Rightarrow> [])"

lemma buffer_content_length:
  "buffer_ok buf \<Longrightarrow> length (buffer_content buf) = buf_end buf - buf_start buf"
  by (auto simp: buffer_ok_def buffer_content_def Prelude.length_slice split: ptr.splits)

lemma size_sub_eq: "b \<le> a \<Longrightarrow> a < 2 ^ 64 \<Longrightarrow> size_sub a b = a - b"
proof -
  assume "b \<le> a" "a < 2 ^ 64"
  then have "size_sub a b = ((a - b) + 2 ^ 64) mod 2 ^ 64" by (simp add: size_sub_def)
  also have "\<dots> = a - b" using \<open>a < 2 ^ 64\<close> by (simp only: mod_add_self2) simp
  finally show ?thesis .
qed

text \<open>The new capacity is the old content and the new bytes, whether the block grows or shrinks.\<close>

lemma new_capability:
  assumes "e \<le> cap" "cap < 2 ^ 63" "n < 2 ^ 63" "e + n < 2 ^ 64"
  shows "size_add cap (size_sub n (size_sub cap e)) = e + n"
proof -
  have "size_sub cap e = cap - e" using assms by (simp add: size_sub_eq)
  moreover have "(cap + ((n + 2 ^ 64 - (cap - e)) mod 2 ^ 64)) mod 2 ^ 64 = (e + n + 2 ^ 64) mod 2 ^ 64"
  proof -
    have "(cap + ((n + 2 ^ 64 - (cap - e)) mod 2 ^ 64)) mod 2 ^ 64 = (cap + (n + 2 ^ 64 - (cap - e))) mod 2 ^ 64"
      by (rule mod_add_right_eq)
    also have "cap + (n + 2 ^ 64 - (cap - e)) = e + n + 2 ^ 64" using assms by simp
    finally show ?thesis .
  qed
  moreover have "(cap - e) mod 2 ^ 64 = cap - e" using assms by simp
  moreover have "(e + n + 2 ^ 64) mod 2 ^ 64 = e + n" using assms(4) by (simp only: mod_add_self2) simp
  ultimately show ?thesis by (simp only: size_add_def size_sub_def)
qed

lemma shift_buffer_eq:
  assumes "buffer_ok buf" "buf_capability buf < 2 ^ 63"
  shows "\<exists>blk. shift_buffer buf = Ret (buf\<lparr>buf_block := blk, buf_end := buf_end buf - buf_start buf, buf_start := 0\<rparr>) \<and>
    (case blk of Null \<Rightarrow> buf_capability buf = 0 \<and> buf_end buf = 0
     | Live b \<Rightarrow> length b = buf_capability buf \<and> take (buf_end buf - buf_start buf) b = buffer_content buf
     | Freed \<Rightarrow> False)"
proof (cases "buf_start buf = 0")
  case True
  have "buf\<lparr>buf_block := buf_block buf, buf_end := buf_end buf, buf_start := 0\<rparr> = buf" using True by (cases buf) simp
  with True assms(1) show ?thesis
    by (intro exI [of _ "buf_block buf"])
      (auto simp: shift_buffer_def buffer_ok_def buffer_content_def Prelude.slice_def split: ptr.splits)
next
  case False
  with assms(1) obtain b where b: "buf_block buf = Live b" "length b = buf_capability buf"
      "buf_start buf \<le> buf_end buf" "buf_end buf \<le> buf_capability buf"
    by (auto simp: buffer_ok_def split: ptr.splits)
  have sz: "size_sub (buf_end buf) (buf_start buf) = buf_end buf - buf_start buf"
    using b assms(2) by (intro size_sub_eq) simp_all
  let ?n = "buf_end buf - buf_start buf"
  let ?b = "take ?n (drop (buf_start buf) b) @ drop ?n b"
  have "shift_buffer buf = Ret (buf\<lparr>buf_block := Live ?b, buf_end := ?n, buf_start := 0\<rparr>)"
    using False b by (simp add: shift_buffer_def memmove_down_def sz)
  moreover have "length ?b = buf_capability buf" using b by simp
  moreover have "take ?n ?b = buffer_content buf"
    using b by (simp add: buffer_content_def Prelude.slice_def min_def)
  ultimately show ?thesis by (intro exI [of _ "Live ?b"]) simp
qed

lemma copy_pages_eq:
  assumes "list_all (\<lambda>p. length p = buffer_page_size) pages"
    and "length pre + length (concat pages) \<le> length pre + length post"
  shows "copy_pages (pre @ post, length pre) pages =
    Ret (pre @ concat pages @ drop (length (concat pages)) post, length pre + length (concat pages))"
  using assms
proof (induction pages arbitrary: pre post)
  case (Cons p ps)
  have "memcpy (pre @ post) (length pre) p buffer_page_size = Ret ((pre @ p) @ drop (length p) post)"
    using Cons.prems by (simp add: memcpy_def)
  moreover have "copy_pages ((pre @ p) @ drop (length p) post, length (pre @ p)) ps =
      Ret ((pre @ p) @ concat ps @ drop (length (concat ps)) (drop (length p) post),
           length (pre @ p) + length (concat ps))"
    by (rule Cons.IH) (use Cons.prems in simp_all)
  ultimately show ?case using Cons.prems by (simp add: add.commute)
qed simp

lemma realloc_keeps:
  assumes "m \<le> length b" "m \<le> k" "length (junk k) = k"
  shows "\<exists>post. c_realloc junk (Live b) k = Ret (Live (take m b @ post)) \<and> length post = k - m"
proof -
  let ?b = "take k b @ drop (length b) (junk k)"
  have "length ?b = k" using assms(3) by simp
  moreover have "m - min (length b) k = 0" using assms(1,2) by simp
  then have "take m ?b = take m b" using assms(2) by (simp add: min_def)
  ultimately have "?b = take m b @ drop m ?b" "length (drop m ?b) = k - m"
    by (metis append_take_drop_id, simp)
  then show ?thesis by (metis c_realloc.simps(2))
qed

lemma store_received_eq:
  assumes "buffer_ok buf" "pages_ok pages page" "buf_capability buf < 2 ^ 62"
    and "\<And>n. length (junk n) = n"
  shows "\<exists>b. store_received junk buf pages page =
      Ret \<lparr>buf_block = Live b, buf_capability = length b, buf_start = 0, buf_end = length b\<rparr> \<and>
    b = buffer_content buf @ concat pages @ page"
proof -
  let ?c = "buffer_content buf" and ?n = "buf_end buf - buf_start buf"
  have bounds: "buf_start buf \<le> buf_end buf" "buf_end buf \<le> buf_capability buf"
    using assms(1) by (auto simp: buffer_ok_def split: ptr.splits)
  have len: "length ?c = ?n" by (rule buffer_content_length [OF assms(1)])
  have cap: "?n \<le> buf_capability buf" "buf_capability buf < 2 ^ 63" using bounds assms(3) by simp_all
  have pg: "list_all (\<lambda>p. length p = buffer_page_size) pages" "length page < buffer_page_size"
      "length pages < buffer_list_length"
    using assms(2) by (auto simp: pages_ok_def)
  have lp: "length (concat pages) = length pages * buffer_page_size"
    using pg(1) by (induction pages) simp_all
  have tot: "total_size pages page < 2 ^ 62"
    using pg(2,3) lp by (simp add: total_size_def buffer_page_size_def buffer_list_length_def)
  obtain blk where sh: "shift_buffer buf = Ret (buf\<lparr>buf_block := blk, buf_end := ?n, buf_start := 0\<rparr>)"
      (is "_ = Ret ?buf")
    and blk: "case blk of Null \<Rightarrow> buf_capability buf = 0 \<and> buf_end buf = 0
      | Live b \<Rightarrow> length b = buf_capability buf \<and> take ?n b = ?c | Freed \<Rightarrow> False"
    using shift_buffer_eq [OF assms(1) cap(2)] by blast
  define N where "N = ?n + total_size pages page"
  have newcap: "size_add (buf_capability buf) (size_sub (total_size pages page) (size_sub (buf_capability buf) ?n)) = N"
    unfolding N_def using cap tot assms(3) by (intro new_capability) simp_all
  have "\<exists>post. c_realloc junk blk N = Ret (Live (?c @ post)) \<and> length post = total_size pages page"
  proof (cases blk)
    case Null
    with blk bounds have "?n = 0" "?c = []" using len by simp_all
    then show ?thesis using Null assms(4) by (simp add: N_def)
  next
    case (Live b)
    with blk have b: "length b = buf_capability buf" "take ?n b = ?c" by simp_all
    obtain post where "c_realloc junk (Live b) N = Ret (Live (take ?n b @ post))" "length post = N - ?n"
      using realloc_keeps [of ?n b N junk] b(1) cap(1) assms(4) N_def by auto
    then show ?thesis using Live b(2) by (simp add: N_def)
  qed (use blk in simp)
  then obtain post where post: "c_realloc junk blk N = Ret (Live (?c @ post))" "length post = total_size pages page"
    by blast
  have cp: "copy_pages (?c @ post, ?n) pages =
      Ret (?c @ concat pages @ drop (length (concat pages)) post, ?n + length (concat pages))"
    using copy_pages_eq [OF pg(1), of ?c post] post(2) len by (simp add: total_size_def)
  let ?r = "drop (length (concat pages)) post"
  have r: "length ?r = length page" using post(2) by (simp add: total_size_def)
  have last: "(if length page > 0
      then bindO (memcpy (?c @ concat pages @ ?r) (?n + length (concat pages)) page (length page))
             (\<lambda>b. Ret (b, ?n + length (concat pages) + length page))
      else Ret (?c @ concat pages @ ?r, ?n + length (concat pages))) =
      Ret (?c @ concat pages @ page, N)"
  proof (cases "page = []")
    case True
    then show ?thesis using r by (simp add: N_def total_size_def)
  next
    case False
    have "memcpy (?c @ concat pages @ ?r) (?n + length (concat pages)) page (length page) =
        Ret (?c @ concat pages @ page)"
      using r len by (simp add: memcpy_def)
    then show ?thesis using False by (simp add: N_def total_size_def)
  qed
  have "store_received junk buf pages page =
      Ret (?buf\<lparr>buf_block := Live (?c @ concat pages @ page), buf_capability := N, buf_end := N\<rparr>)"
    unfolding store_received_def sh using newcap post(1) cp last by simp
  moreover have "length (?c @ concat pages @ page) = N" using len by (simp add: N_def total_size_def)
  ultimately show ?thesis by simp
qed

section \<open>Rendering into the buffer\<close>

definition exact_buffer :: "string \<Rightarrow> buffer" where
  "exact_buffer b = \<lparr>buf_block = Live b, buf_capability = length b, buf_start = 0, buf_end = length b\<rparr>"

lemma exact_buffer_simps [simp]:
  "buf_block (exact_buffer b) = Live b" "buf_start (exact_buffer b) = 0" "buf_end (exact_buffer b) = length b"
  "buf_capability (exact_buffer b) = length b" "buffer_ok (exact_buffer b)" "buffer_content (exact_buffer b) = b"
  by (simp_all add: exact_buffer_def buffer_ok_def buffer_content_def Prelude.slice_def)

lemma render_reply_eq:
  assumes "render_ok ndebug r" "buffer_ok buf" "buf_block buf = Live b" "\<And>n. length (junk n) = n"
  shows "\<exists>buf'. render_reply ndebug junk r buf = Ret (with_content_length r, buf') \<and> buffer_ok buf' \<and>
    buffer_content buf' = response_bytes (with_content_length r)"
proof -
  let ?r = "with_content_length r"
  let ?n = "measure_response_size ?r" and ?out = "response_bytes ?r"
  have out: "length ?out = ?n"
    using assms(1) by (intro length_response_bytes with_content_length_ok) (simp add: render_ok_def)
  have len: "length b = buf_capability buf" using assms(2,3) by (simp add: buffer_ok_def)
  show ?thesis
  proof (cases "buf_capability buf < ?n")
    case True
    have same: "with_content_length ?r = ?r"
      using render_getter.after_same [OF assms(1)] by blast
    have "http_response_render ndebug r (Some b) (buf_capability buf) =
        Ret ((HTTP_ERROR_CODE_INSUFFICIENT_BUFFER_SIZE, Some b, ?n), ?r)"
      by (rule render_getter.short [OF assms(1) True])
    moreover have "http_response_render ndebug ?r (Some (junk ?n)) ?n = Ret ((HTTP_ERROR_CODE_SUCCEED, Some ?out, ?n), ?r)"
      using render_getter.fill [OF render_getter.after_ok [OF assms(1)], of ?n "junk ?n"] assms(4) out
      by (simp add: same)
    ultimately have "render_reply ndebug junk r buf =
        Ret (?r, \<lparr>buf_block = Live ?out, buf_capability = ?n, buf_start = 0, buf_end = ?n\<rparr>)"
      by (simp add: render_reply_def assms(3))
    then show ?thesis using out by (simp add: buffer_ok_def buffer_content_def Prelude.slice_def)
  next
    case False
    then have "http_response_render ndebug r (Some b) (buf_capability buf) =
        Ret ((HTTP_ERROR_CODE_SUCCEED, Some (?out @ drop (length ?out) b), ?n), ?r)"
      using len by (intro render_getter.fill [OF assms(1)]) simp_all
    then have "render_reply ndebug junk r buf =
        Ret (?r, buf\<lparr>buf_block := Live (?out @ drop (length ?out) b), buf_start := 0, buf_end := ?n\<rparr>)"
      by (simp add: render_reply_def assms(3))
    then show ?thesis using out len False by (simp add: buffer_ok_def buffer_content_def Prelude.slice_def)
  qed
qed

lemma response_bytes_nonempty: "response_bytes r \<noteq> []"
  by (simp add: response_bytes_def HTTP_VERSION_def)

section \<open>The handler by cases\<close>

definition waiting :: "bool \<Rightarrow> 'w server \<Rightarrow> addr \<Rightarrow> file_descriptor_information \<Rightarrow> connection_information \<Rightarrow> bool" where
  "waiting ndebug s a node c \<longleftrightarrow>
     sv_heap s a = Some node \<and> fd_connection node = Some c \<and> conn_state c = ConnectionStatusWaitingRequest \<and>
     buffer_ok (conn_buffer c) \<and> buf_capability (conn_buffer c) < 2 ^ 62 \<and>
     request_ok (conn_request c) \<and> render_ok ndebug (conn_response c) \<and> conn_transport c \<noteq> No_Transport"

text \<open>All that has arrived is in \<open>pages\<close> and \<open>page\<close>, and it is not nothing.\<close>

definition drains ::
  "'w net \<Rightarrow> connection_information \<Rightarrow> 'w server \<Rightarrow> string \<Rightarrow> transport \<Rightarrow> 'w \<Rightarrow> bool" where
  "drains net c s d transport w \<longleftrightarrow> d \<noteq> [] \<and>
     (\<exists>pages page. receive_loop (conn_recv net (conn_fd c)) [] [] (conn_transport c, sv_world s) =
        Some (Ret (Drained, pages, page, transport, w)) \<and> d = concat pages @ page)"

definition received_connection ::
  "connection_information \<Rightarrow> string \<Rightarrow> transport \<Rightarrow> connection_information" where
  "received_connection c d transport =
     c\<lparr>conn_transport := transport, conn_buffer := exact_buffer (buffer_content (conn_buffer c) @ d)\<rparr>"

definition received_server ::
  "addr \<Rightarrow> connection_information \<Rightarrow> transport \<Rightarrow> 'w \<Rightarrow> 'w server \<Rightarrow> 'w server" where
  "received_server a c transport w s = put_connection a (c\<lparr>conn_transport := transport\<rparr>) (s\<lparr>sv_world := w\<rparr>)"

lemma handle_waiting:
  assumes "waiting ndebug s a node c" "event AND EPOLLIN \<noteq> 0" "drains net c s d transport w"
    and "net_ok net rx tx" "env_ok env"
  shows "handle_connection ndebug env net event a s =
    bindR (Some (answer ndebug env (fd_type node) (file_descriptor node)
                   (received_connection c d transport, received_server a c transport w s)))
      (\<lambda>(c2, s2). if conn_state c2 = ConnectionStatusWritingResponse
                   then send_response net a c2 (put_connection a c2 s2) else Some (Ret (put_connection a c2 s2)))"
proof -
  obtain pages page where loop: "receive_loop (conn_recv net (conn_fd c)) [] [] (conn_transport c, sv_world s) =
      Some (Ret (Drained, pages, page, transport, w))" and d: "d = concat pages @ page" "d \<noteq> []"
    using assms(3) unfolding drains_def by blast
  have pg: "pages_ok pages page"
    using conn_source.receive_loop_taken [OF loop, where rx = rx and tx = tx] assms(1,4) by (simp add: waiting_def)
  have tot: "total_size pages page \<noteq> 0" using d by (auto simp: total_size_def)
  have j: "length (env_junk env n) = n" for n using assms(5) by (simp add: env_ok_def)
  have st: "store_received (env_junk env) (conn_buffer c) pages page =
      Ret (exact_buffer (buffer_content (conn_buffer c) @ d))"
    using store_received_eq [OF _ pg, of "conn_buffer c" "env_junk env"] j assms(1) d(1)
    by (auto simp: waiting_def exact_buffer_def)
  have w: "sv_heap s a = Some node" "fd_connection node = Some c" "conn_state c = ConnectionStatusWaitingRequest"
    using assms(1) by (auto simp: waiting_def)
  show ?thesis
  proof (cases "answer ndebug env (fd_type node) (file_descriptor node)
      (received_connection c d transport, received_server a c transport w s)")
    case (Fault f)
    then show ?thesis
      using w assms(2) loop tot st
      by (simp add: handle_connection_def receive_request_def received_connection_def received_server_def)
  next
    case (Ret x)
    then show ?thesis
      using w assms(2) loop tot st
      by (simp add: handle_connection_def receive_request_def received_connection_def received_server_def
          split: prod.split)
  qed
qed

lemma received_connection_simps [simp]:
  "conn_request (received_connection c d t) = conn_request c"
  "conn_response (received_connection c d t) = conn_response c"
  "conn_state (received_connection c d t) = conn_state c"
  "conn_fd (received_connection c d t) = conn_fd c"
  "conn_transport (received_connection c d t) = t"
  "conn_buffer (received_connection c d t) = exact_buffer (buffer_content (conn_buffer c) @ d)"
  by (simp_all add: received_connection_def)

lemma pages_ok_bound:
  assumes "pages_ok pages page"
  shows "length (concat pages @ page) < 2 ^ 62"
proof -
  have "list_all (\<lambda>p. length p = buffer_page_size) pages" using assms by (simp add: pages_ok_def)
  then have "length (concat pages) = length pages * buffer_page_size" by (induction pages) simp_all
  then show ?thesis using assms by (simp add: pages_ok_def buffer_page_size_def buffer_list_length_def)
qed

lemma received_bound:
  assumes "waiting ndebug s a node c" "drains net c s d transport w" "net_ok net rx tx"
  shows "length (buffer_content (conn_buffer c) @ d) < 2 ^ 63"
    and "rx (conn_fd c) w = rx (conn_fd c) (sv_world s) @ d" and "transport \<noteq> No_Transport"
    and "tx (conn_fd c) w = tx (conn_fd c) (sv_world s)"
proof -
  obtain pages page where loop: "receive_loop (conn_recv net (conn_fd c)) [] [] (conn_transport c, sv_world s) =
      Some (Ret (Drained, pages, page, transport, w))" and d: "d = concat pages @ page"
    using assms(2) unfolding drains_def by blast
  have pg: "pages_ok pages page" "transport \<noteq> No_Transport"
      "rx (conn_fd c) w = rx (conn_fd c) (sv_world s) @ d" "tx (conn_fd c) w = tx (conn_fd c) (sv_world s)"
    using conn_source.receive_loop_taken [OF loop, where rx = rx and tx = tx] assms(1,3) d
    by (simp_all add: waiting_def)
  then show "rx (conn_fd c) w = rx (conn_fd c) (sv_world s) @ d" "transport \<noteq> No_Transport"
    "tx (conn_fd c) w = tx (conn_fd c) (sv_world s)" by simp_all
  have "buffer_ok (conn_buffer c)" "buf_capability (conn_buffer c) < 2 ^ 62"
    using assms(1) by (auto simp: waiting_def)
  moreover from this have "buf_end (conn_buffer c) \<le> buf_capability (conn_buffer c)"
    by (auto simp: buffer_ok_def split: ptr.splits)
  ultimately show "length (buffer_content (conn_buffer c) @ d) < 2 ^ 63"
    using pages_ok_bound [OF pg(1)] d by (simp add: buffer_content_length)
qed

text \<open>The effect of the parse on the whole handler.\<close>

lemma answer_received:
  assumes "conn_buffer c = exact_buffer b" "length b < 2 ^ 63"
    and "http_request_from_buffer (conn_request c) b (length b) = r"
  shows "answer ndebug env type fd (c, s) =
    bindO r (\<lambda>(return_value, q).
      let c = c\<lparr>conn_request := q\<rparr>
      in if return_value = HTTP_ERROR_CODE_INCOMPLETE_REQUEST then Ret (c, s)
         else
           bindO (if return_value \<noteq> HTTP_ERROR_CODE_SUCCEED
                  then bindO (set_code (conn_response c) HTTP_RESPONSE_CODE_BAD_REQUEST) (\<lambda>r.
                         Ret (c\<lparr>conn_response := r\<rparr>, s))
                  else handle_http_transaction ndebug env type fd (c, s)) (\<lambda>(c, s).
           bindO (http_request_destroy (conn_request c)) (\<lambda>(_, q).
             bindO (render_reply ndebug (env_junk env)
                      (with_header (conn_response c) ''Server'' ''hSS/0.0.1-alpha'') (conn_buffer c)) (\<lambda>(r, buf).
                Ret (c\<lparr>conn_request := q, conn_response := r, conn_buffer := buf,
                       conn_state := ConnectionStatusWritingResponse\<rparr>, s)))))"
proof -
  have "size_sub (length b) 0 = length b" using assms(2) by (intro size_sub_eq [THEN trans]) simp_all
  then show ?thesis using assms(1,3) unfolding answer_def Let_def with_header_def by simp
qed

text \<open>A reply \<open>r\<close> to a request that has been parsed or rejected, up to the state before sending.\<close>

lemma reply_rendered:
  assumes "conn_buffer c = exact_buffer b" "request_ok (conn_request c)" "render_ok ndebug (conn_response c)"
    and "env_ok env"
  defines "r \<equiv> with_content_length (with_header (conn_response c) ''Server'' ''hSS/0.0.1-alpha'')"
  shows "\<exists>buf. buffer_ok buf \<and> buffer_content buf = response_bytes r \<and>
    bindO (http_request_destroy (conn_request c)) (\<lambda>(_, q).
      bindO (render_reply ndebug (env_junk env)
               (with_header (conn_response c) ''Server'' ''hSS/0.0.1-alpha'') (conn_buffer c)) (\<lambda>(r, buf).
         Ret (c\<lparr>conn_request := q, conn_response := r, conn_buffer := buf,
                conn_state := ConnectionStatusWritingResponse\<rparr>, s))) =
    Ret (c\<lparr>conn_request := snd (http_request_initialize (conn_request c)), conn_response := r,
           conn_buffer := buf, conn_state := ConnectionStatusWritingResponse\<rparr>, s)"
proof -
  have ok: "render_ok ndebug (with_header (conn_response c) ''Server'' ''hSS/0.0.1-alpha'')"
    using assms(3) by (simp add: render_ok_def with_header_ok)
  have j: "length (env_junk env n) = n" for n using assms(4) by (simp add: env_ok_def)
  obtain buf where "render_reply ndebug (env_junk env)
      (with_header (conn_response c) ''Server'' ''hSS/0.0.1-alpha'') (exact_buffer b) = Ret (r, buf)"
      "buffer_ok buf" "buffer_content buf = response_bytes r"
    using render_reply_eq [OF ok, of "exact_buffer b" b "env_junk env"] j unfolding r_def by auto
  then show ?thesis
    using assms(1,2) by (intro exI [of _ buf]) (simp add: http_request_destroy_eq split: prod.split)
qed

text \<open>The headers of a reply other than the two added on the way out.\<close>

lemma reply_headers:
  assumes "response_ok r" "k \<noteq> ''Server''" "k \<noteq> ''Content-Length''"
  shows "headers_get (res_headers (with_content_length (with_header r ''Server'' ''hSS/0.0.1-alpha''))) k =
    headers_get (res_headers r) k"
proof -
  let ?r = "with_header r ''Server'' ''hSS/0.0.1-alpha''"
  have ok: "response_ok ?r" using assms(1) by (rule with_header_ok)
  have "headers_get (res_headers (with_content_length ?r)) k = headers_get (res_headers ?r) k"
    using with_header_get [OF ok, of "''Content-Length''" "''0''"] assms(3)
    by (simp add: with_content_length_def flip: with_header_def)
  then show ?thesis using with_header_get [OF assms(1), of "''Server''"] assms(2) by simp
qed

section \<open>Sending\<close>

definition writing :: "'w server \<Rightarrow> addr \<Rightarrow> connection_information \<Rightarrow> string \<Rightarrow> bool" where
  "writing s a c unsent \<longleftrightarrow>
     (\<exists>node. sv_heap s a = Some node \<and> fd_connection node = Some c) \<and> buffer_ok (conn_buffer c) \<and>
     buf_block (conn_buffer c) \<noteq> Null \<and> conn_transport c \<noteq> No_Transport \<and>
     buffer_content (conn_buffer c) = unsent \<and>
     conn_state c = (if unsent = [] then ConnectionStatusWaitingRequest else ConnectionStatusWritingResponse)"

lemma put_connection_at:
  "sv_heap s a = Some node \<Longrightarrow>
     sv_heap (put_connection a c s) a = Some (node\<lparr>fd_connection := Some c\<rparr>)"
  by (simp add: put_connection_def)

lemma put_connection_same [simp]:
  "sv_world (put_connection a c s) = sv_world s" "sv_head (put_connection a c s) = sv_head s"
  by (simp_all add: put_connection_def)

lemma destroyed_gone:
  assumes "destroy_file_information net a s = Some (Ret s')"
  shows "sv_heap s' a = None"
  using assms by (auto simp: destroy_file_information_def outcome_simps split: option.splits)

lemma send_response_delivers:
  assumes "net_ok net rx tx" "writing s a c unsent" "unsent \<noteq> []"
    and "send_response net a c s = Some y"
  shows "(\<exists>s1. destroy_file_information net a s1 = Some y \<and> sv_heap s1 a \<noteq> None) \<or>
    (\<exists>s' c' unsent'. y = Ret s' \<and> conn_fd c' = conn_fd c \<and> writing s' a c' unsent' \<and>
       rx (conn_fd c) (sv_world s') = rx (conn_fd c) (sv_world s) \<and>
       tx (conn_fd c) (sv_world s') @ unsent' = tx (conn_fd c) (sv_world s) @ unsent)"
proof -
  obtain node b where n: "sv_heap s a = Some node" and b: "buf_block (conn_buffer c) = Live b"
      "length b = buf_capability (conn_buffer c)" "buf_end (conn_buffer c) \<le> length b"
      "unsent = Prelude.slice b (buf_start (conn_buffer c)) (buf_end (conn_buffer c))"
      "conn_transport c \<noteq> No_Transport" "conn_state c = ConnectionStatusWritingResponse"
    using assms(2,3) by (auto simp: writing_def buffer_ok_def buffer_content_def split: ptr.splits)
  let ?st = "buf_start (conn_buffer c)" and ?e = "buf_end (conn_buffer c)"
  have lt: "?st < ?e" using assms(3) b(4) Prelude.slice_empty [of ?e ?st b] by force
  obtain z where loop: "send_loop (conn_send net (conn_fd c)) b ?st ?e (conn_transport c, sv_world s) = Some z"
    using assms(4) b(1) by (cases "send_loop (conn_send net (conn_fd c)) b ?st ?e (conn_transport c, sv_world s)")
      (auto simp: send_response_def)
  obtain res start' t w where z: "z = Ret (res, start', t, w)" "t \<noteq> No_Transport" "?st \<le> start'" "start' \<le> ?e"
      "tx (conn_fd c) w = tx (conn_fd c) (sv_world s) @ Prelude.slice b ?st start'" "res = Sent \<longleftrightarrow> start' = ?e"
      "rx (conn_fd c) w = rx (conn_fd c) (sv_world s)"
    using conn_sink.send_loop_delivered [OF loop _ lt b(3), where rx = rx and tx = tx] assms(1) b(5) by auto
  let ?c = "c\<lparr>conn_transport := t, conn_buffer := (conn_buffer c)\<lparr>buf_start := start'\<rparr>,
      conn_state := (if res = Sent then ConnectionStatusWaitingRequest else conn_state c)\<rparr>"
  let ?s = "put_connection a ?c (s\<lparr>sv_world := w\<rparr>)"
  have y: "Some y = (if res = Failed then destroy_file_information net a ?s else Some (Ret ?s))"
    using assms(4) b(1) loop z(1) by (simp add: send_response_def Let_def)
  have heap: "sv_heap ?s a = Some (node\<lparr>fd_connection := Some ?c\<rparr>)"
    by (rule put_connection_at) (simp add: n)
  show ?thesis
  proof (cases "res = Failed")
    case True
    with y heap show ?thesis by (metis option.distinct(1))
  next
    case False
    let ?u = "Prelude.slice b start' ?e"
    have ne: "?u = [] \<longleftrightarrow> start' = ?e"
      using z(4) b(3) Prelude.length_slice [of ?e b start'] by fastforce
    have "writing ?s a ?c ?u"
      using heap b z ne assms(2) unfolding writing_def
      by (auto simp: buffer_ok_def buffer_content_def)
    moreover have "Prelude.slice b ?st start' @ ?u = unsent" using slice_join [OF z(3,4)] b(4) by simp
    ultimately show ?thesis
      using False y z(5,7) by (intro disjI2 exI [of _ ?s] exI [of _ ?c] exI [of _ ?u]) simp
  qed
qed

end
