(* ===== verification/Connection_Properties.thy ===== *)
theory Connection_Properties
  imports Connection_Lemmas Request_Properties
begin

text \<open>
  What a connection does over its life: requests are assembled from what arrives in any
  pieces, answered, and the answer leaves in order.
\<close>

section \<open>A scripted world\<close>

text \<open>
  The world holds the pieces still to arrive, what has been read and what has been sent. An
  empty piece is the end of the stream and stays. A call of \<open>send\<close> takes at most 40 bytes.
\<close>

definition script_recv :: "nat \<Rightarrow> string list \<times> string \<times> string \<Rightarrow> (errno, string) transfer \<times> string list \<times> string \<times> string" where
  "script_recv n w =
     (case w of (q, i, out) \<Rightarrow>
        (case q of
           [] \<Rightarrow> (Inl EAGAIN, w)
         | p # ps \<Rightarrow>
             if p = [] then (Inr [], w)
             else (Inr (take n p), (if drop n p = [] then ps else drop n p # ps, i @ take n p, out))))"

definition script_net :: "(string list \<times> string \<times> string) net" where
  "script_net =
     \<lparr>net_recv = (\<lambda>fd. script_recv),
      net_send = (\<lambda>fd b (q, i, out). (Inr (min 40 (length b)), (q, i, out @ take (min 40 (length b)) b))),
      gnutls_handshake = (\<lambda>fd w. (GNUTLS_E_AGAIN, w)),
      gnutls_record_recv = (\<lambda>fd n w. (Inl GNUTLS_E_AGAIN, w)),
      gnutls_record_send = (\<lambda>fd b w. (Inl GNUTLS_E_AGAIN, w)),
      gnutls_bye = (\<lambda>fd w. (GNUTLS_E_SUCCESS, w)), net_close = (\<lambda>fd w. w)\<rparr>"

lemma script_net_ok: "net_ok script_net (\<lambda>fd w. fst (snd w)) (\<lambda>fd w. snd (snd w))"
  by (auto simp: net_ok_def script_net_def script_recv_def transfers_in_def transfers_out_def
      split: list.splits)

definition plain_connection :: connection_information where
  "plain_connection = (sample_connection ''/'' [])
     \<lparr>conn_request := fresh_request, conn_transport := Tcp_Transport\<rparr>"

definition plain_node :: file_descriptor_information where
  "plain_node = \<lparr>fd_type = TCP_SOCKET, file_descriptor = 5, fd_next = None, fd_prev = Head_Link,
     fd_connection = Some plain_connection\<rparr>"

definition plain_server :: "'w \<Rightarrow> 'w server" where
  "plain_server w =
     \<lparr>sv_heap = [9 \<mapsto> plain_node], sv_head = Some 9, sv_closed = [], sv_running = True,
      sv_log_level = LOGGING_LOG_LEVEL_INFORMATION, sv_code = None, sv_cwd = None,
      sv_credentials = credential_start, sv_world = w\<rparr>"

lemma sample_render_ok: "render_ok ndebug sample_response"
  using sample_response_ok by (simp add: render_ok_def sample_response_def http_response_initialize_def)

lemma plain_waiting: "waiting ndebug (plain_server w) 9 plain_node plain_connection"
  using sample_render_ok fresh_request_simps
  by (simp add: waiting_def plain_server_def plain_node_def plain_connection_def sample_connection_def buffer_ok_def)

lemma script_net_recv: "net_recv script_net = (\<lambda>fd. script_recv)"
  by (simp add: script_net_def)

text \<open>One piece, shorter than a page, is read whole.\<close>

lemma scripted_drains:
  assumes "p \<noteq> []" "length p < 4096" and net: "net_recv net = (\<lambda>fd. script_recv)"
  shows "drains net plain_connection (plain_server ([p], i, out)) p Tcp_Transport ([], i @ p, out)"
proof -
  have "conn_recv net 5 (Tcp_Transport, [p], i, out) 4096 = Ret (Inr p, Tcp_Transport, [], i @ p, out)"
    using assms(1,2) by (simp add: tcp_recv_def net script_recv_def)
  moreover have "conn_recv net 5 (Tcp_Transport, [], i @ p, out) n =
      Ret (Inl EAGAIN, Tcp_Transport, [], i @ p, out)" for n
    by (simp add: tcp_recv_def net script_recv_def)
  then have "receive_loop (conn_recv net 5) [] p (Tcp_Transport, [], i @ p, out) =
      Some (Ret (Drained, [], p, Tcp_Transport, [], i @ p, out))"
    by (subst receive_loop.simps) simp
  ultimately have "receive_loop (conn_recv net 5) [] [] (Tcp_Transport, [p], i, out) =
      Some (Ret (Drained, [], p, Tcp_Transport, [], i @ p, out))"
    using assms by (subst receive_loop.simps) (simp add: buffer_page_size_def)
  then show ?thesis
    using assms by (auto simp: drains_def plain_connection_def sample_connection_def plain_server_def)
qed

lemmas script_drains = scripted_drains [where net = script_net, OF _ _ script_net_recv]

section \<open>Properties\<close>

text \<open>
  Events on one connection while its response is being written: any bits, any surroundings, until
  the response is complete or the connection is gone.
\<close>

definition writing_at :: "'w server \<Rightarrow> addr \<Rightarrow> bool" where
  "writing_at s a \<longleftrightarrow>
     (case sv_heap s a of
        None \<Rightarrow> False
      | Some node \<Rightarrow> (case fd_connection node of
          None \<Rightarrow> False
        | Some c \<Rightarrow> conn_state c = ConnectionStatusWritingResponse))"

fun while_writing ::
  "bool \<Rightarrow> 'w net \<Rightarrow> addr \<Rightarrow> (environment \<times> 32 word) list \<Rightarrow> 'w server \<Rightarrow> 'w server run" where
  "while_writing ndebug net a [] s = Some (Ret s)"
| "while_writing ndebug net a ((env, event) # events) s =
     (if writing_at s a
      then bindR (handle_connection ndebug env net event a s) (while_writing ndebug net a events)
      else Some (Ret s))"

lemma writing_at_iff: "writing s a c unsent \<Longrightarrow> writing_at s a \<longleftrightarrow> unsent \<noteq> []"
  by (auto simp: writing_def writing_at_def)

lemma event_bits [simp]:
  "EPOLLOUT AND EPOLLOUT \<noteq> 0" "EPOLLOUT AND EPOLLIN = 0" "EPOLLIN AND EPOLLIN \<noteq> 0" "EPOLLOUT \<noteq> 0"
  by (simp_all add: EPOLLIN_def EPOLLOUT_def)

text \<open>While a response is written an event makes the handler send, if it says so, and never read.\<close>

lemma handle_writing:
  assumes "net_ok net rx tx" "writing s a c unsent" "unsent \<noteq> []"
    and "handle_connection ndebug env net event a s = Some (Ret s')" "sv_heap s' a \<noteq> None"
  shows "\<exists>c' unsent'. conn_fd c' = conn_fd c \<and> writing s' a c' unsent' \<and>
    rx (conn_fd c) (sv_world s') = rx (conn_fd c) (sv_world s) \<and>
    tx (conn_fd c) (sv_world s') @ unsent' = tx (conn_fd c) (sv_world s) @ unsent"
proof -
  obtain node where n: "sv_heap s a = Some node" "fd_connection node = Some c"
    using assms(2) by (auto simp: writing_def)
  have st: "conn_state c = ConnectionStatusWritingResponse" using assms(2,3) by (simp add: writing_def)
  show ?thesis
  proof (cases "event AND EPOLLOUT = 0")
    case True
    then have "s' = s" using assms(4) n st by (simp add: handle_connection_def)
    then show ?thesis using assms(2) by blast
  next
    case False
    then have "send_response net a c s = Some (Ret s')" using assms(4) n st by (simp add: handle_connection_def)
    from send_response_delivers [OF assms(1,2,3) this] assms(5) show ?thesis
      by (auto dest: destroyed_gone)
  qed
qed

text \<open>
  C12. The response leaves in order and completely. From the moment a response is ready, through any
  sequence of events on the connection, whatever their bits, up to the one with which the
  response is complete: while the connection lives, what has been sent since, followed by what
  is still in the buffer, is the response, byte for byte, however the peer or the TLS layer cut
  the transfers; no event makes the server read from the connection, \<open>EPOLLIN\<close> included; and the
  connection waits for the next request exactly when all of it is sent.
\<close>

theorem response_delivered_in_order:
  assumes "net_ok net rx tx" "writing s a c response"
    and "while_writing ndebug net a events s = Some (Ret s')" "sv_heap s' a \<noteq> None"
  shows "\<exists>c' unsent. writing s' a c' unsent \<and> conn_fd c' = conn_fd c \<and>
    tx (conn_fd c) (sv_world s') @ unsent = tx (conn_fd c) (sv_world s) @ response \<and>
    rx (conn_fd c) (sv_world s') = rx (conn_fd c) (sv_world s) \<and>
    (conn_state c' = ConnectionStatusWaitingRequest \<longleftrightarrow> unsent = [])"
proof -
  have "\<exists>c' unsent. writing s' a c' unsent \<and> conn_fd c' = conn_fd c \<and>
    tx (conn_fd c) (sv_world s') @ unsent = tx (conn_fd c) (sv_world s) @ response \<and>
    rx (conn_fd c) (sv_world s') = rx (conn_fd c) (sv_world s)"
    using assms(2,3)
  proof (induction events arbitrary: s c response)
    case (Cons x events)
    obtain env event where x: "x = (env, event)" by (rule prod.exhaust)
    note at = writing_at_iff [OF Cons.prems(1)]
    show ?case
    proof (cases "response = []")
      case True
      then have "s' = s" using Cons.prems(2) x at by simp
      then show ?thesis using Cons.prems(1) by blast
    next
      case False
      then obtain s1 where s1: "handle_connection ndebug env net event a s = Some (Ret s1)"
          "while_writing ndebug net a events s1 = Some (Ret s')"
        using Cons.prems(2) x at by (auto simp: outcome_simps)
      have "sv_heap s1 a \<noteq> None"
      proof
        assume "sv_heap s1 a = None"
        then have "s' = s1" using s1(2) by (cases events) (auto simp: writing_at_def)
        with \<open>sv_heap s1 a = None\<close> assms(4) show False by simp
      qed
      from handle_writing [OF assms(1) Cons.prems(1) False s1(1) this] obtain c1 u1 where
        c1: "conn_fd c1 = conn_fd c" "writing s1 a c1 u1"
          "rx (conn_fd c) (sv_world s1) = rx (conn_fd c) (sv_world s)"
          "tx (conn_fd c) (sv_world s1) @ u1 = tx (conn_fd c) (sv_world s) @ response"
        by blast
      from Cons.IH [OF c1(2) s1(2)] c1(1,3,4) show ?thesis by auto
    qed
  qed auto
  then show ?thesis by (auto simp: writing_def split: if_splits)
qed

text \<open>
  A response of 50 bytes, of which the socket takes 40 at a time. The first event says that there
  is something to read, the second that the socket is writable.
\<close>

definition writing_server :: "(string list \<times> string \<times> string) server" where
  "writing_server = put_connection 9
     (plain_connection\<lparr>conn_buffer := exact_buffer (replicate 50 (CHR ''r'')),
        conn_state := ConnectionStatusWritingResponse\<rparr>) (plain_server ([], [], []))"

lemma response_delivered_in_order_witness:
  "\<exists>s' c' unsent.
     while_writing False script_net 9 [(sample_env, EPOLLIN), (sample_env, EPOLLOUT)] writing_server = Some (Ret s') \<and>
     writing s' 9 c' unsent \<and> snd (snd (sv_world s')) @ unsent = replicate 50 (CHR ''r'') \<and> fst (snd (sv_world s')) = []"
proof -
  let ?r = "replicate 50 (CHR ''r'')"
  let ?c = "plain_connection\<lparr>conn_buffer := exact_buffer ?r, conn_state := ConnectionStatusWritingResponse\<rparr>"
  have w: "writing writing_server 9 ?c ?r"
    by (simp add: writing_def writing_server_def put_connection_def plain_server_def plain_connection_def)
  have first: "conn_send script_net 5 (Tcp_Transport, [], [], []) (Prelude.slice ?r 0 50) =
      Ret (Inr 40, Tcp_Transport, [], [], take 40 ?r)"
    by (simp add: tcp_send_def script_net_def Prelude.slice_def)
  have second: "conn_send script_net 5 (Tcp_Transport, [], [], take 40 ?r) (Prelude.slice ?r 40 50) =
      Ret (Inr 10, Tcp_Transport, [], [], ?r)"
    by (simp add: tcp_send_def script_net_def Prelude.slice_def flip: replicate_add)
  have "send_loop (conn_send script_net 5) ?r 40 50 (Tcp_Transport, [], [], take 40 ?r) =
      Some (Ret (Sent, 50, Tcp_Transport, [], [], ?r))"
    by (subst send_loop.simps) (simp add: second del: conn_send.simps take_replicate)
  then have "send_loop (conn_send script_net 5) ?r 0 50 (Tcp_Transport, [], [], []) =
      Some (Ret (Sent, 50, Tcp_Transport, [], [], ?r))"
    by (subst send_loop.simps) (simp add: first del: conn_send.simps take_replicate)
  then obtain s' where s': "handle_connection False sample_env script_net EPOLLOUT 9 writing_server = Some (Ret s')"
      "sv_heap s' 9 \<noteq> None"
    by (simp add: handle_connection_def writing_server_def put_connection_def plain_server_def plain_node_def
        plain_connection_def sample_connection_def send_response_def Let_def)
  have "EPOLLIN AND EPOLLOUT = 0" by (simp add: EPOLLIN_def EPOLLOUT_def)
  then have "handle_connection False sample_env script_net EPOLLIN 9 writing_server = Some (Ret writing_server)"
    by (simp add: handle_connection_def writing_server_def put_connection_def plain_server_def plain_node_def)
  with s'(1) have r:
    "while_writing False script_net 9 [(sample_env, EPOLLIN), (sample_env, EPOLLOUT)] writing_server = Some (Ret s')"
    using writing_at_iff [OF w] by simp
  from response_delivered_in_order [OF script_net_ok w r s'(2)] obtain c' unsent where
    "writing s' 9 c' unsent" "snd (snd (sv_world s')) @ unsent = ?r" "fst (snd (sv_world s')) = []"
    by (auto simp: writing_server_def plain_server_def)
  with r show ?thesis by blast
qed

text \<open>
  C37. A request that arrives in pieces. When what has arrived is a proper prefix of a well-formed
  request, the handler keeps exactly these bytes and waits for more, unless the cut is inside
  the method or the URL: the buffer is as long as its content, and the parser reads behind it.
\<close>

theorem partial_request_waits:
  assumes "waiting ndebug s a node c" "event AND EPOLLIN \<noteq> 0" "drains net c s d transport w"
    and "net_ok net rx tx" "env_ok env"
    and "request_text_ok g" "k < length (request_text_of g)" "length (request_text_of g) < 2 ^ 62"
    and "buffer_content (conn_buffer c) @ d = take k (request_text_of g)"
  shows "if inside_token g k
    then handle_connection ndebug env net event a s = Some (Fault Out_Of_Bounds)
    else \<exists>s' node' c'. handle_connection ndebug env net event a s = Some (Ret s') \<and>
      waiting ndebug s' a node' c' \<and> conn_fd c' = conn_fd c \<and>
      buffer_content (conn_buffer c') = take k (request_text_of g) \<and>
      sv_world s' = w \<and> rx (conn_fd c) w = rx (conn_fd c) (sv_world s) @ d"
proof -
  let ?b = "take k (request_text_of g)"
  let ?c = "received_connection c d transport" and ?s = "received_server a c transport w s"
  note eq = handle_waiting [OF assms(1-5)]
  note bound = received_bound [OF assms(1,3,4)]
  have len: "length ?b < 2 ^ 63" "length ?b = k" using bound(1) assms(7,9) by simp_all
  have c: "conn_buffer ?c = exact_buffer ?b" using assms(9) by simp
  have q: "request_ok (conn_request c)" using assms(1) by (simp add: waiting_def)
  note parse = from_buffer_exact_prefix [OF q assms(6,7)]
  show ?thesis
  proof (cases "inside_token g k")
    case True
    then have "http_request_from_buffer (conn_request c) ?b (length ?b) = Fault Out_Of_Bounds"
      using parse len by simp
    then have "answer ndebug env (fd_type node) (file_descriptor node) (?c, ?s) = Fault Out_Of_Bounds"
      using answer_received [OF c len(1), of "Fault Out_Of_Bounds"] by simp
    with eq True show ?thesis by simp
  next
    case False
    then obtain r where r: "http_request_from_buffer (conn_request c) ?b (length ?b) =
        Ret (HTTP_ERROR_CODE_INCOMPLETE_REQUEST, r)" "request_ok r"
      using parse len by auto
    have "answer ndebug env (fd_type node) (file_descriptor node) (?c, ?s) = Ret (?c\<lparr>conn_request := r\<rparr>, ?s)"
      using answer_received [OF c len(1), of "Ret (HTTP_ERROR_CODE_INCOMPLETE_REQUEST, r)"] r(1) by simp
    then have h: "handle_connection ndebug env net event a s =
        Some (Ret (put_connection a (?c\<lparr>conn_request := r\<rparr>) ?s))"
      using eq assms(1) by (simp add: waiting_def)
    have "waiting ndebug (put_connection a (?c\<lparr>conn_request := r\<rparr>) ?s) a
        (node\<lparr>fd_connection := Some (?c\<lparr>conn_request := r\<rparr>)\<rparr>) (?c\<lparr>conn_request := r\<rparr>)"
      using assms(1,7-9) r(2) bound(3)
      by (simp add: waiting_def received_server_def put_connection_def)
    moreover have "sv_world (put_connection a (?c\<lparr>conn_request := r\<rparr>) ?s) = w"
      by (simp add: received_server_def)
    ultimately show ?thesis
      using h False bound(2) assms(9)
      by (simp del: put_connection_same)
        (rule exI, rule exI [of _ "?c\<lparr>conn_request := r\<rparr>"], rule conjI, assumption, simp)
  qed
qed

lemma partial_request_waits_witness:
  "handle_connection False sample_env script_net EPOLLIN 9 (plain_server ([''GET /a.t''], [], [])) =
     Some (Fault Out_Of_Bounds)"
proof -
  have "take 8 (request_text_of sample) = ''GET /a.t''" "8 < length (request_text_of sample)"
      "length (request_text_of sample) < 2 ^ 62"
    by (simp_all add: message_sample)
  moreover have "inside_token sample 8" by (simp add: inside_token_def sample_def)
  moreover have "buffer_content (conn_buffer plain_connection) = []"
    by (simp add: plain_connection_def sample_connection_def buffer_content_def)
  ultimately show ?thesis
    using partial_request_waits [OF plain_waiting [of False] event_bits(3) script_drains [of "''GET /a.t''" "[]" "[]"]
        script_net_ok sample_env_ok sample_ok, of 8]
    by simp
qed

text \<open>
  The state just before a reply is sent, whatever the transaction has put into the response: the
  bytes that have arrived form the message \<open>g\<close>, and the reply is the response \<open>r\<close> of the
  transaction with the two headers added on the way out.
\<close>

definition finished :: "http_response \<Rightarrow> http_response" where
  "finished r = with_content_length (with_header r ''Server'' ''hSS/0.0.1-alpha'')"

definition arrived_connection :: "connection_information \<Rightarrow> request_text \<Rightarrow> transport \<Rightarrow> connection_information" where
  "arrived_connection c g transport =
     c\<lparr>conn_transport := transport, conn_buffer := exact_buffer (request_text_of g), conn_request := request_of g\<rparr>"

lemma reply_ready:
  assumes "waiting ndebug s a node c" "event AND EPOLLIN \<noteq> 0" "drains net c s d transport w"
    and "net_ok net rx tx" "env_ok env"
    and "request_text_ok g" "buffer_content (conn_buffer c) @ d = request_text_of g"
    and tr: "handle_http_transaction ndebug env (fd_type node) (file_descriptor node)
        (arrived_connection c g transport, received_server a c transport w s) =
      Ret ((arrived_connection c g transport)\<lparr>conn_response := r\<rparr>, s2)"
    and r: "render_ok ndebug r"
    and s2: "sv_heap s2 = sv_heap (received_server a c transport w s)" "sv_world s2 = w"
  shows "\<exists>s1 c1. handle_connection ndebug env net event a s = send_response net a c1 s1 \<and>
    writing s1 a c1 (response_bytes (finished r)) \<and> conn_fd c1 = conn_fd c \<and> conn_transport c1 = transport \<and>
    sv_world s1 = w \<and> tx (conn_fd c) w = tx (conn_fd c) (sv_world s)"
proof -
  let ?b = "request_text_of g" and ?fd = "file_descriptor node"
  let ?c = "received_connection c d transport" and ?s = "received_server a c transport w s"
  let ?c1 = "arrived_connection c g transport"
  note bound = received_bound [OF assms(1,3,4)]
  have len: "length ?b < 2 ^ 63" using bound(1) assms(7) by simp
  have c: "conn_buffer ?c = exact_buffer ?b" "?c\<lparr>conn_request := request_of g\<rparr> = ?c1"
    using assms(7) by (simp_all add: received_connection_def arrived_connection_def)
  have wt: "request_ok (conn_request c)" "sv_heap s a = Some node" using assms(1) by (auto simp: waiting_def)
  have p: "http_request_from_buffer (conn_request ?c) ?b (length ?b) = Ret (HTTP_ERROR_CODE_SUCCEED, request_of g)"
    using from_buffer_message [OF wt(1) assms(6), of "[]"] by simp
  have q: "request_ok (request_of g)" using parsed_request_of [OF assms(6)] by (simp add: parsed_def)
  let ?c2 = "?c1\<lparr>conn_response := r\<rparr>"
  have pre: "conn_buffer ?c2 = exact_buffer ?b" "request_ok (conn_request ?c2)" "render_ok ndebug (conn_response ?c2)"
    using q r by (simp_all add: arrived_connection_def)
  obtain buf where buf: "buffer_ok buf" "buffer_content buf = response_bytes (finished r)"
    and rep: "bindO (http_request_destroy (conn_request ?c2)) (\<lambda>(_, q).
      bindO (render_reply ndebug (env_junk env)
               (with_header (conn_response ?c2) ''Server'' ''hSS/0.0.1-alpha'') (conn_buffer ?c2)) (\<lambda>(r, buf).
         Ret (?c2\<lparr>conn_request := q, conn_response := r, conn_buffer := buf,
                conn_state := ConnectionStatusWritingResponse\<rparr>, s2))) =
      Ret (?c2\<lparr>conn_request := snd (http_request_initialize (conn_request ?c2)), conn_response := finished r,
           conn_buffer := buf, conn_state := ConnectionStatusWritingResponse\<rparr>, s2)"
    using reply_rendered [OF pre assms(5), of s2] by (auto simp: finished_def)
  define c3 where "c3 = ?c2\<lparr>conn_request := snd (http_request_initialize (conn_request ?c2)),
    conn_response := finished r, conn_buffer := buf, conn_state := ConnectionStatusWritingResponse\<rparr>"
  have ans: "answer ndebug env (fd_type node) ?fd (?c, ?s) = Ret (c3, s2)"
    using answer_received [OF c(1) len p, of ndebug env "fd_type node" ?fd ?s] tr rep
    unfolding Let_def c3_def by (simp add: c(2))
  then have send: "handle_connection ndebug env net event a s = send_response net a c3 (put_connection a c3 s2)"
    using handle_waiting [OF assms(1-5)] by (simp add: c3_def)
  have c3: "conn_fd c3 = conn_fd c" "conn_transport c3 = transport" "conn_buffer c3 = buf"
    "conn_state c3 = ConnectionStatusWritingResponse"
    by (simp_all add: c3_def arrived_connection_def)
  have "writing (put_connection a c3 s2) a c3 (response_bytes (finished r))"
    using buf bound(3) wt(2) s2(1) response_bytes_nonempty [of "finished r"] c3
    by (auto simp: writing_def received_server_def put_connection_def buffer_content_def)
  then show ?thesis
    using send c3(1,2) s2(2) bound(4) by (intro exI [of _ "put_connection a c3 s2"] exI [of _ c3]) simp
qed

text \<open>The state of a plain connection just before its redirection is sent.\<close>

lemma plain_reply_ready:
  assumes "waiting ndebug s a node c" "event AND EPOLLIN \<noteq> 0" "drains net c s d transport w"
    and "net_ok net rx tx" "env_ok env" "fd_type node = TCP_SOCKET"
    and "request_text_ok g" "buffer_content (conn_buffer c) @ d = request_text_of g"
  shows "\<exists>s1 c1 r. handle_connection ndebug env net event a s = send_response net a c1 s1 \<and>
    writing s1 a c1 (response_bytes r) \<and> conn_fd c1 = conn_fd c \<and> conn_transport c1 = transport \<and>
    sv_world s1 = w \<and> tx (conn_fd c) w = tx (conn_fd c) (sv_world s) \<and>
    st_code (state_line r) = HTTP_RESPONSE_CODE_MOVE_MOVED_PERMANENTLY \<and>
    headers_get (res_headers r) ''Location'' =
      Some (redirect_location ndebug env (file_descriptor node) (cstr (rt_url g)))"
proof -
  let ?c1 = "arrived_connection c g transport" and ?fd = "file_descriptor node"
  let ?r = "redirected ndebug env ?fd ?c1"
  have wt: "render_ok ndebug (conn_response c)" using assms(1) by (simp add: waiting_def)
  then have rok: "response_ok (conn_response c)" by (simp add: render_ok_def)
  have q: "parsed (request_of g)" "request_url (request_of g) = rt_url g" using parsed_request_of [OF assms(7)] .
  have c1: "conn_request ?c1 = request_of g" "conn_response ?c1 = conn_response c"
    by (simp_all add: arrived_connection_def)
  note r = redirected_response [OF assms(5), of ?c1 ndebug ?fd]
  have "handle_http_transaction ndebug env (fd_type node) ?fd (?c1, received_server a c transport w s) =
      Ret (?c1\<lparr>conn_response := ?r\<rparr>, received_server a c transport w s)"
    using transaction_tcp [OF assms(5), of ?c1] q rok c1 assms(6) by simp
  moreover have "render_ok ndebug ?r" using r rok wt c1 by (simp add: render_ok_def)
  moreover have "sv_world (received_server a c transport w s) = w" by (simp add: received_server_def)
  ultimately obtain s1 c2 where ready: "handle_connection ndebug env net event a s = send_response net a c2 s1"
    "writing s1 a c2 (response_bytes (finished ?r))" "conn_fd c2 = conn_fd c" "conn_transport c2 = transport"
    "sv_world s1 = w" "tx (conn_fd c) w = tx (conn_fd c) (sv_world s)"
    using reply_ready [OF assms(1-5,7,8)] by blast
  have loc: "headers_get (res_headers (finished ?r)) ''Location'' = headers_get (res_headers ?r) ''Location''"
    using reply_headers [of ?r "''Location''"] r rok c1 by (simp add: finished_def)
  have code: "st_code (state_line (finished ?r)) = HTTP_RESPONSE_CODE_MOVE_MOVED_PERMANENTLY"
    using r rok c1 by (simp add: finished_def)
  show ?thesis
    by (rule exI [of _ s1], rule exI [of _ c2], rule exI [of _ "finished ?r"])
      (use ready loc code r rok q(2) c1 in simp)
qed

text \<open>
  C13. A request on the plain port is answered with a redirection. Once the bytes that have arrived,
  over any number of events, form a well-formed request, the handler sends a response whose
  code is 301 and whose \<open>Location\<close> is the URL of the request on the TLS port: what has gone out
  when it returns, with what is left in the buffer, is this response, and the request object is
  ready for the next request.
\<close>

theorem plain_request_redirected:
  assumes "waiting ndebug s a node c" "event AND EPOLLIN \<noteq> 0" "drains net c s d transport w"
    and "net_ok net rx tx" "env_ok env" "fd_type node = TCP_SOCKET"
    and "request_text_ok g" "buffer_content (conn_buffer c) @ d = request_text_of g"
    and "handle_connection ndebug env net event a s = Some (Ret s')" "sv_heap s' a \<noteq> None"
  shows "\<exists>c' r unsent. writing s' a c' unsent \<and> conn_fd c' = conn_fd c \<and>
    tx (conn_fd c) (sv_world s') @ unsent = tx (conn_fd c) (sv_world s) @ response_bytes r \<and>
    st_code (state_line r) = HTTP_RESPONSE_CODE_MOVE_MOVED_PERMANENTLY \<and>
    headers_get (res_headers r) ''Location'' =
      Some (redirect_location ndebug env (file_descriptor node) (cstr (rt_url g)))"
proof -
  obtain s1 c1 r where r: "handle_connection ndebug env net event a s = send_response net a c1 s1"
    "writing s1 a c1 (response_bytes r)" "conn_fd c1 = conn_fd c" "sv_world s1 = w"
    "tx (conn_fd c) w = tx (conn_fd c) (sv_world s)"
    "st_code (state_line r) = HTTP_RESPONSE_CODE_MOVE_MOVED_PERMANENTLY"
    "headers_get (res_headers r) ''Location'' =
      Some (redirect_location ndebug env (file_descriptor node) (cstr (rt_url g)))"
    using plain_reply_ready [OF assms(1-8)] by blast
  have "send_response net a c1 s1 = Some (Ret s')" using r(1) assms(9) by simp
  from send_response_delivers [OF assms(4) r(2) response_bytes_nonempty this] r(3-5) assms(10)
  obtain c' unsent where "writing s' a c' unsent" "conn_fd c' = conn_fd c"
      "tx (conn_fd c) (sv_world s') @ unsent = tx (conn_fd c) (sv_world s) @ response_bytes r"
    by (auto dest: destroyed_gone)
  then show ?thesis using r(6,7) by blast
qed

text \<open>A world whose socket takes nothing for now.\<close>

definition blocked_net :: "(string list \<times> string \<times> string) net" where
  "blocked_net = script_net\<lparr>net_send := (\<lambda>fd b w. (Inl EAGAIN, w))\<rparr>"

lemma blocked_net_ok: "net_ok blocked_net (\<lambda>fd w. fst (snd w)) (\<lambda>fd w. snd (snd w))"
  using script_net_ok by (simp add: net_ok_def blocked_net_def transfers_out_def)

lemmas blocked_drains = scripted_drains [where net = blocked_net]

text \<open>If nothing is taken, the reply stays in the buffer and the connection stays.\<close>

lemma send_blocked:
  assumes "writing s a c unsent"
    and "\<And>x. conn_send net (conn_fd c) (conn_transport c, sv_world s) x = Ret (Inl EAGAIN, conn_transport c, sv_world s)"
  shows "\<exists>s'. send_response net a c s = Some (Ret s') \<and> sv_heap s' a \<noteq> None \<and> sv_world s' = sv_world s"
proof -
  obtain b where b: "buf_block (conn_buffer c) = Live b" "buf_end (conn_buffer c) \<le> length b"
    using assms(1) by (auto simp: writing_def buffer_ok_def split: ptr.splits)
  obtain node where node: "sv_heap s a = Some node" using assms(1) by (auto simp: writing_def)
  have "send_loop (conn_send net (conn_fd c)) b st (buf_end (conn_buffer c)) (conn_transport c, sv_world s) =
      Some (Ret (Blocked, st, conn_transport c, sv_world s))" for st
    using b(2) assms(2) by (subst send_loop.simps) simp
  then show ?thesis using b(1) node by (simp add: send_response_def Let_def put_connection_def)
qed

lemma plain_request_redirected_witness:
  "\<exists>s' c' r unsent. handle_connection False sample_env blocked_net EPOLLIN 9
       (plain_server ([request_text_of sample], [], [])) = Some (Ret s') \<and>
     writing s' 9 c' unsent \<and> snd (snd (sv_world s')) @ unsent = response_bytes r \<and>
     st_code (state_line r) = HTTP_RESPONSE_CODE_MOVE_MOVED_PERMANENTLY"
proof -
  let ?s = "plain_server ([request_text_of sample], [], [])"
  have empty: "buffer_content (conn_buffer plain_connection) = []"
    by (simp add: plain_connection_def sample_connection_def buffer_content_def)
  have dr: "drains blocked_net plain_connection ?s (request_text_of sample) Tcp_Transport
      ([], request_text_of sample, [])"
    using blocked_drains [of "request_text_of sample" "[]" "[]"] script_net_recv
    by (simp add: message_sample blocked_net_def)
  have tcp: "fd_type plain_node = TCP_SOCKET" by (simp add: plain_node_def)
  have full: "buffer_content (conn_buffer plain_connection) @ request_text_of sample = request_text_of sample"
    using empty by simp
  note ready = plain_waiting event_bits(3) dr blocked_net_ok sample_env_ok tcp sample_ok full
  obtain s1 c1 r where r: "handle_connection False sample_env blocked_net EPOLLIN 9 ?s = send_response blocked_net 9 c1 s1"
    "writing s1 9 c1 (response_bytes r)" "conn_transport c1 = Tcp_Transport"
    using plain_reply_ready [OF ready, of False] by blast
  have "conn_send blocked_net fd (Tcp_Transport, w) x = Ret (Inl EAGAIN, Tcp_Transport, w)" for fd w x
    by (simp add: tcp_send_def blocked_net_def)
  with send_blocked [OF r(2), of blocked_net] r(1,3)
  obtain s' where s': "handle_connection False sample_env blocked_net EPOLLIN 9 ?s = Some (Ret s')"
      "sv_heap s' 9 \<noteq> None"
    by auto
  from plain_request_redirected [OF ready s'] s'(1) show ?thesis by (auto simp: plain_server_def)
qed

end
