(* ===== verification/Connection_Loops.thy ===== *)
theory Connection_Loops
  imports Connection_Properties
begin

text \<open>
  When the loops of \<open>handle_connection\<close> end, when they do not, and when they leave the array of
  pages; and what is left in the response object between two requests.
\<close>

section \<open>Ending\<close>

text \<open>
  The peer has sent finitely much and has not closed its side: \<open>left\<close> bounds what it has sent and
  the server has not read, and a successful read gives some of it. A successful write of
  something writes something.
\<close>

definition progresses :: "'w net \<Rightarrow> int \<Rightarrow> ('w \<Rightarrow> nat) \<Rightarrow> bool" where
  "progresses net fd left \<longleftrightarrow>
     (\<forall>s n d s'. 0 < n \<and> conn_recv net fd s n = Ret (Inr d, s') \<longrightarrow>
        d \<noteq> [] \<and> left (snd s') + length d \<le> left (snd s)) \<and>
     (\<forall>s b n s'. b \<noteq> [] \<and> conn_send net fd s b = Ret (Inr n, s') \<longrightarrow> 0 < n)"

lemma receive_loop_returns:
  assumes "progresses net fd left" "net_ok net rx tx"
  shows "fst s \<noteq> No_Transport \<Longrightarrow> pages_ok pages page \<Longrightarrow>
    total_size pages page + left (snd s) < buffer_list_length * buffer_page_size \<Longrightarrow>
    \<exists>x. receive_loop (conn_recv net fd) pages page s = Some (Ret x)"
proof (induction "left (snd s)" arbitrary: s pages page rule: less_induct)
  case less
  let ?n = "buffer_page_size - length page"
  have n: "0 < ?n" and pg: "list_all (\<lambda>p. length p = buffer_page_size) pages"
    using less.prems(2) by (auto simp: pages_ok_def)
  have ok: "net_ok net rx tx \<and> fst s \<noteq> No_Transport" using assms(2) less.prems(1) by simp
  show ?case
  proof (cases rule: conn_source.recv_cases [OF ok, of fd ?n, case_names failed data])
    case (failed e s')
    then show ?thesis by (subst receive_loop.simps) simp
  next
    case (data d s')
    have d: "d \<noteq> []" "left (snd s') + length d \<le> left (snd s)"
      using assms(1) n data(1) unfolding progresses_def by blast+
    then have fewer: "left (snd s') < left (snd s)" by (cases d) simp_all
    have full: "length (concat pages) = length pages * buffer_page_size" using pg by (induction pages) simp_all
    show ?thesis
    proof (cases "length d < ?n")
      case True
      have "pages_ok pages (page @ d)" using less.prems(2) True by (simp add: pages_ok_def)
      moreover have "total_size pages (page @ d) + left (snd s') < buffer_list_length * buffer_page_size"
        using d(2) less.prems(3) by (simp add: total_size_def)
      ultimately have "\<exists>x. receive_loop (conn_recv net fd) pages (page @ d) s' = Some (Ret x)"
        using data(2) fewer by (intro less.hyps) simp_all
      then show ?thesis using True data(1) d(1) by (subst receive_loop.simps) simp
    next
      case False
      then have len: "length d = ?n" using data(3) by simp
      have "(length pages + 1) * buffer_page_size = total_size pages page + length d"
        using len n full by (simp add: total_size_def)
      also have "\<dots> < buffer_list_length * buffer_page_size" using d(2) less.prems(3) by simp
      finally have more: "length pages + 1 < buffer_list_length" by (simp only: mult_less_cancel2)
      have "pages_ok (pages @ [page @ d]) []"
        using pg len n more by (simp add: pages_ok_def buffer_page_size_def)
      moreover have "total_size (pages @ [page @ d]) [] + left (snd s') < buffer_list_length * buffer_page_size"
        using d(2) less.prems(3) by (simp add: total_size_def)
      ultimately have "\<exists>x. receive_loop (conn_recv net fd) (pages @ [page @ d]) [] s' = Some (Ret x)"
        using data(2) fewer by (intro less.hyps) simp_all
      then show ?thesis using False data(1) d(1) more by (subst receive_loop.simps) simp
    qed
  qed
qed

lemma send_loop_ends:
  assumes "progresses net fd left" "net_ok net rx tx"
  shows "fst s \<noteq> No_Transport \<Longrightarrow> start < e \<Longrightarrow> send_loop (conn_send net fd) b start e s \<noteq> None"
proof (induction "e - start" arbitrary: s start rule: less_induct)
  case less
  show ?case
  proof (cases "e > length b")
    case True
    then show ?thesis by (subst send_loop.simps) simp
  next
    case False
    then have ne: "Prelude.slice b start e \<noteq> []" "length (Prelude.slice b start e) = e - start"
      using less.prems(2) Prelude.length_slice [of e b start] by force+
    have ok: "net_ok net rx tx \<and> fst s \<noteq> No_Transport" using assms(2) less.prems(1) by simp
    show ?thesis
    proof (cases rule: conn_sink.send_cases [OF ok, of fd "Prelude.slice b start e", case_names refused sent])
      case (refused x s')
      then show ?thesis using False by (subst send_loop.simps) simp
    next
      case (sent n s')
      have n: "0 < n" using assms(1) ne(1) sent(1) unfolding progresses_def by blast
      show ?thesis
      proof (cases "n = e - start")
        case True
        then show ?thesis using False sent(1) by (subst send_loop.simps) simp
      next
        case more: False
        have "n < e - start" using more sent(3) ne(2) by simp
        then have "send_loop (conn_send net fd) b (start + n) e s' \<noteq> None"
          using n sent(2) less.hyps [of "start + n" s'] by simp
        then show ?thesis using False sent(1) more by (subst send_loop.simps) simp
      qed
    qed
  qed
qed

lemma render_reply_window:
  assumes "render_reply ndebug junk r buf = Ret (r', buf')"
  shows "buf_start buf' = 0 \<and> 0 < buf_end buf'"
proof -
  have "n = measure_response_size r1"
    if "http_response_render ndebug q (Some b) l = Ret ((code, b', n), r1)" for q b l code b' n r1
    using that by (auto simp: http_response_render_def Let_def bindO_Ret_iff split: if_splits)
  moreover have "0 < measure_response_size q" for q by (simp add: measure_response_size_def)
  ultimately have "0 < n" if "http_response_render ndebug q (Some b) l = Ret ((code, b', n), r1)" for q b l code b' n r1
    using that by metis
  then show ?thesis
    using assms unfolding render_reply_def by (auto simp: bindO_Ret_iff split: if_splits)
qed

lemma handle_http_transaction_fields:
  "handle_http_transaction ndebug env type fd (c, s) = Ret (c', s') \<Longrightarrow>
     \<exists>r. c' = c\<lparr>conn_response := r\<rparr>"
  by (auto simp: handle_http_transaction_def Let_def bindO_Ret_iff split: prod.splits)

lemma answer_fields:
  assumes "answer ndebug env type fd (c, s) = Ret (c', s')"
  shows "conn_fd c' = conn_fd c \<and> conn_transport c' = conn_transport c \<and>
    (conn_state c' = conn_state c \<or> buf_start (conn_buffer c') = 0 \<and> 0 < buf_end (conn_buffer c'))"
  using assms unfolding answer_def Let_def
  by (auto simp: bindO_Ret_iff split: prod.splits if_splits
      dest!: handle_http_transaction_fields render_reply_window)

section \<open>Not ending\<close>

lemma receive_loop_eof:
  assumes "\<And>n. net_recv net fd n w = (Inr [], w)"
  shows "length page < buffer_page_size \<Longrightarrow> total_size pages page \<noteq> 0 \<Longrightarrow>
    receive_loop (conn_recv net fd) pages page (Tcp_Transport, w) = None"
proof -
  have eof: "conn_recv net fd (Tcp_Transport, w) n = Ret (Inr [], Tcp_Transport, w)" for n
    using assms by (simp add: tcp_recv_def)
  have "rv = conn_recv net fd \<longrightarrow> s = (Tcp_Transport, w) \<longrightarrow> length page < buffer_page_size \<longrightarrow>
      total_size pages page \<noteq> 0 \<longrightarrow> False"
    if "receive_loop rv pages page s = Some y" for rv pages page s y
    by (rule receive_loop.raw_induct [OF _ that, where P = "\<lambda>rv pages page s y.
        rv = conn_recv net fd \<longrightarrow> s = (Tcp_Transport, w) \<longrightarrow> length page < buffer_page_size \<longrightarrow>
        total_size pages page \<noteq> 0 \<longrightarrow> False"])
      (auto simp: eof simp del: conn_recv.simps split: if_splits)
  then show "length page < buffer_page_size \<Longrightarrow> total_size pages page \<noteq> 0 \<Longrightarrow>
      receive_loop (conn_recv net fd) pages page (Tcp_Transport, w) = None"
    by (cases "receive_loop (conn_recv net fd) pages page (Tcp_Transport, w)") auto
qed

text \<open>A plain socket that fills every request.\<close>

lemma receive_loop_overflows:
  assumes "\<And>n w. \<exists>d w'. net_recv net fd n w = (Inr d, w') \<and> length d = n"
  shows "length pages < buffer_list_length \<Longrightarrow>
    receive_loop (conn_recv net fd) pages [] (Tcp_Transport, w) = Some (Fault Out_Of_Bounds)"
proof (induction "buffer_list_length - length pages" arbitrary: pages w rule: less_induct)
  case less
  obtain d w' where d: "net_recv net fd buffer_page_size w = (Inr d, w')" "length d = buffer_page_size"
    using assms by blast
  have ne: "d \<noteq> []" using d(2) by (auto simp: buffer_page_size_def)
  show ?case
  proof (cases "length pages + 1 < buffer_list_length")
    case True
    then have "receive_loop (conn_recv net fd) (pages @ [d]) [] (Tcp_Transport, w') = Some (Fault Out_Of_Bounds)"
      by (intro less.hyps) simp_all
    then show ?thesis using d ne True by (subst receive_loop.simps) (simp add: tcp_recv_def)
  next
    case False
    then show ?thesis using d ne by (subst receive_loop.simps) (simp add: tcp_recv_def)
  qed
qed

section \<open>Properties\<close>

text \<open>
  C38. A peer that closes its side after sending hangs the server. When some bytes of a request have
  been read in an event and the stream is at its end, \<open>recv\<close> gives 0 for ever, and the receive
  loop, which treats this as the end only when nothing has been read, does not end: the call
  of \<open>handle_connection\<close>, and with it the server, never returns.
\<close>

theorem eof_after_data_hangs:
  assumes "sv_heap s a = Some node" "fd_connection node = Some c" "conn_transport c = Tcp_Transport"
    and "conn_state c = ConnectionStatusWaitingRequest" "event AND EPOLLIN \<noteq> 0"
    and "net_recv net (conn_fd c) buffer_page_size (sv_world s) = (Inr d, w)" "d \<noteq> []" "length d < buffer_page_size"
    and "\<forall>n. net_recv net (conn_fd c) n w = (Inr [], w)"
  shows "handle_connection ndebug env net event a s = None"
proof -
  have "receive_loop (conn_recv net (conn_fd c)) [] d (Tcp_Transport, w) = None"
    using assms(7-9) by (intro receive_loop_eof) (simp_all add: total_size_def)
  then have "receive_loop (conn_recv net (conn_fd c)) [] [] (conn_transport c, sv_world s) = None"
    using assms(3,6-8) by (subst receive_loop.simps) (simp add: tcp_recv_def)
  then show ?thesis
    using assms(1,2,4,5) by (simp add: handle_connection_def receive_request_def)
qed

lemma eof_after_data_hangs_witness:
  "handle_connection False sample_env script_net EPOLLIN 9 (plain_server ([''GET'', ''''], [], [])) = None"
  by (rule eof_after_data_hangs [where node = plain_node and c = plain_connection and d = "''GET''"
        and w = "([''''], ''GET'', '''')"])
    (simp_all add: plain_server_def plain_node_def plain_connection_def sample_connection_def
      script_net_def script_recv_def buffer_page_size_def EPOLLIN_def)

text \<open>
  C39. A peer that sends 512 KiB without a pause overruns the array of pages. If every read is filled,
  the receive loop goes on to a page with index 128 and writes its pointer behind the array on
  the stack.
\<close>

theorem flood_overruns_pages:
  assumes "sv_heap s a = Some node" "fd_connection node = Some c"
    and "conn_state c = ConnectionStatusWaitingRequest" "event AND EPOLLIN \<noteq> 0"
    and "conn_transport c = Tcp_Transport"
    and "\<forall>n w. \<exists>d w'. net_recv net (conn_fd c) n w = (Inr d, w') \<and> length d = n"
  shows "handle_connection ndebug env net event a s = Some (Fault Out_Of_Bounds)"
proof -
  have "receive_loop (conn_recv net (conn_fd c)) [] [] (conn_transport c, sv_world s) = Some (Fault Out_Of_Bounds)"
    using assms(5,6) by (simp add: receive_loop_overflows buffer_list_length_def)
  then show ?thesis
    using assms(1-4) by (simp add: handle_connection_def receive_request_def)
qed

lemma flood_overruns_pages_witness:
  "handle_connection False sample_env (quiet_net\<lparr>net_recv := (\<lambda>fd n w. (Inr (replicate n (CHR ''x'')), w))\<rparr>)
     EPOLLIN 9 (plain_server ()) = Some (Fault Out_Of_Bounds)"
  by (rule flood_overruns_pages [where node = plain_node and c = plain_connection])
    (simp_all add: plain_server_def plain_node_def plain_connection_def sample_connection_def EPOLLIN_def)

text \<open>
  C40. A response object is not cleared between two requests. A request that is rejected after an
  earlier answer on the same connection gets the code 400, with the body of the earlier answer
  and all of its headers: \<open>handle_connection\<close> never calls \<open>http_response_destroy\<close>.
\<close>

theorem rejection_repeats_old_body:
  assumes "waiting ndebug s a node c" "event AND EPOLLIN \<noteq> 0" "drains net c s d transport w"
    and "net_ok net rx tx" "env_ok env"
    and "http_request_from_buffer (conn_request c) (buffer_content (conn_buffer c) @ d)
           (length (buffer_content (conn_buffer c) @ d)) = Ret (code, q)"
    and "code \<notin> {HTTP_ERROR_CODE_SUCCEED, HTTP_ERROR_CODE_INCOMPLETE_REQUEST}"
  shows "\<exists>s1 c1 r. handle_connection ndebug env net event a s = send_response net a c1 s1 \<and>
    writing s1 a c1 (response_bytes r) \<and> conn_response c1 = r \<and>
    st_code (state_line r) = HTTP_RESPONSE_CODE_BAD_REQUEST \<and>
    res_body r = res_body (conn_response c) \<and>
    (\<forall>k. k \<noteq> ''Server'' \<and> k \<noteq> ''Content-Length'' \<longrightarrow>
       headers_get (res_headers r) k = headers_get (res_headers (conn_response c)) k)"
proof -
  let ?b = "buffer_content (conn_buffer c) @ d" and ?fd = "file_descriptor node"
  let ?c = "received_connection c d transport" and ?s = "received_server a c transport w s"
  note bound = received_bound [OF assms(1,3,4)]
  have wt: "request_ok (conn_request c)" "render_ok ndebug (conn_response c)" "sv_heap s a = Some node"
    using assms(1) by (auto simp: waiting_def)
  have rok: "response_ok (conn_response c)" using wt(2) by (simp add: render_ok_def)
  let ?r = "with_code (conn_response c) HTTP_RESPONSE_CODE_BAD_REQUEST"
  have bad: "response_ok ?r" "render_ok ndebug ?r"
    using rok wt(2) by (simp_all add: with_code_ok render_ok_def)
  have p: "http_request_from_buffer (conn_request ?c) ?b (length ?b) = Ret (code, q)"
    using assms(6) by simp
  have q: "request_ok q" using from_buffer_returns_ok [OF wt(1) refl assms(6)] by simp
  let ?c2 = "?c\<lparr>conn_request := q, conn_response := ?r\<rparr>"
  let ?final = "with_content_length (with_header ?r ''Server'' ''hSS/0.0.1-alpha'')"
  obtain buf where buf: "buffer_ok buf" "buffer_content buf = response_bytes ?final"
    "answer ndebug env (fd_type node) ?fd (?c, ?s) =
       Ret (?c2\<lparr>conn_request := snd (http_request_initialize q), conn_response := ?final,
              conn_buffer := buf, conn_state := ConnectionStatusWritingResponse\<rparr>, ?s)"
    using reply_rendered [of ?c2 ?b ndebug env ?s] q bad(2) assms(5,7) rok
      answer_received [OF _ bound(1) p, of ndebug env "fd_type node" ?fd ?s]
    by (auto simp: Let_def set_code_eq)
  let ?c3 = "?c2\<lparr>conn_request := snd (http_request_initialize q), conn_response := ?final,
              conn_buffer := buf, conn_state := ConnectionStatusWritingResponse\<rparr>"
  have send: "handle_connection ndebug env net event a s = send_response net a ?c3 (put_connection a ?c3 ?s)"
    using handle_waiting [OF assms(1-5)] buf(3) by simp
  have w: "writing (put_connection a ?c3 ?s) a ?c3 (response_bytes ?final)"
    using buf(1,2) bound(3) wt(3) response_bytes_nonempty [of ?final]
    by (auto simp: writing_def received_server_def put_connection_def buffer_content_def)
  have h: "headers_get (res_headers ?final) k = headers_get (res_headers (conn_response c)) k"
    if "k \<noteq> ''Server''" "k \<noteq> ''Content-Length''" for k
    using reply_headers [OF bad(1) that] by simp
  show ?thesis
    by (rule exI [of _ "put_connection a ?c3 ?s"], rule exI [of _ ?c3], rule exI [of _ ?final])
      (use send w h in simp)
qed

text \<open>A connection that has sent a file and now receives a request with another method.\<close>

lemma rejection_repeats_old_body_witness:
  "\<exists>s1 c1 r.
     handle_connection False sample_env script_net EPOLLIN 9
       (put_connection 9 (plain_connection\<lparr>conn_response := with_body sample_response ''old''\<rparr>)
          (plain_server ([''POST / ''], [], []))) = send_response script_net 9 c1 s1 \<and>
     writing s1 9 c1 (response_bytes r) \<and> st_code (state_line r) = HTTP_RESPONSE_CODE_BAD_REQUEST \<and>
     body_bytes (res_body r) = ''old''"
proof -
  let ?c = "plain_connection\<lparr>conn_response := with_body sample_response ''old''\<rparr>"
  let ?s = "put_connection 9 ?c (plain_server ([''POST / ''], [], []))"
  let ?n = "plain_node\<lparr>fd_connection := Some ?c\<rparr>"
  have wt: "waiting False ?s 9 ?n ?c"
    using plain_waiting [of False "([''POST / ''], [], [])"] sample_response_ok
    by (simp add: waiting_def put_connection_def plain_server_def render_ok_def with_body_ok)
  have dr: "drains script_net ?c ?s ''POST / '' Tcp_Transport ([], ''POST / '', [])"
    using script_drains [of "''POST / ''" "[]" "[]"] by (simp add: drains_def put_connection_def)
  have empty: "buffer_content (conn_buffer ?c) = []"
    by (simp add: plain_connection_def sample_connection_def buffer_content_def)
  have "http_request_from_buffer fresh_request ''POST / '' 7 = Ret (HTTP_ERROR_CODE_UNSUPPORTED_METHOD, fresh_request)"
    by code_simp
  then have "http_request_from_buffer (conn_request ?c) (buffer_content (conn_buffer ?c) @ ''POST / '')
      (length (buffer_content (conn_buffer ?c) @ ''POST / '')) = Ret (HTTP_ERROR_CODE_UNSUPPORTED_METHOD, fresh_request)"
    using empty by (simp add: plain_connection_def eval_nat_numeral)
  from rejection_repeats_old_body [OF wt event_bits(3) dr script_net_ok sample_env_ok this]
  obtain s1 c1 r where "handle_connection False sample_env script_net EPOLLIN 9 ?s = send_response script_net 9 c1 s1"
    "writing s1 9 c1 (response_bytes r)" "st_code (state_line r) = HTTP_RESPONSE_CODE_BAD_REQUEST"
    "res_body r = res_body (conn_response ?c)"
    by auto
  then show ?thesis by (intro exI [of _ s1] exI [of _ c1] exI [of _ r]) (simp add: body_bytes_def)
qed

end
