(* ===== verification/Exchange.thy ===== *)
theory Exchange
  imports Connection_Properties
begin

text \<open>
  A whole exchange on a TLS connection: the bytes of a request for a file arrive in any pieces,
  and the file goes out. This composes the receive loop, the buffer, the parser, the
  transaction, rendering and the send loop.
\<close>

section \<open>Lemmas\<close>

text \<open>A response with a body needs no change of its \<open>Content-Length\<close> on the way out.\<close>

lemma finished_with_body:
  assumes "response_ok r" "body_bytes (res_body r) \<noteq> []"
  shows "render_ok ndebug r" "state_line (finished r) = state_line r" "res_body (finished r) = res_body r"
    "k \<noteq> ''Server'' \<Longrightarrow> headers_get (res_headers (finished r)) k = headers_get (res_headers r) k"
    "headers_get (res_headers (finished r)) ''Server'' = Some ''hSS/0.0.1-alpha''"
proof -
  have len: "body_length (res_body r) \<noteq> 0"
    using assms by (auto simp: response_ok_def body_ok_def body_bytes_def)
  then show "render_ok ndebug r" using assms(1) by (simp add: render_ok_def)
  have fin: "finished r = with_header r ''Server'' ''hSS/0.0.1-alpha''"
    using len by (simp add: finished_def with_content_length_def)
  show "state_line (finished r) = state_line r" "res_body (finished r) = res_body r"
    by (simp_all add: fin)
  show "headers_get (res_headers (finished r)) k = headers_get (res_headers r) k" if "k \<noteq> ''Server''"
    using with_header_get [OF assms(1), of "''Server''" "''hSS/0.0.1-alpha''"] that by (simp add: fin)
  show "headers_get (res_headers (finished r)) ''Server'' = Some ''hSS/0.0.1-alpha''"
    using with_header_get [OF assms(1), of "''Server''" "''hSS/0.0.1-alpha''"] by (simp add: fin)
qed

text \<open>The state just before the file is sent.\<close>

lemma file_reply_ready:
  assumes "waiting ndebug s a node c" "event AND EPOLLIN \<noteq> 0" "drains net c s d transport w"
    and "net_ok net rx tx" "fd_type node = TLS_SOCKET"
    and "request_text_ok g" "buffer_content (conn_buffer c) @ d = request_text_of g"
    and "finds_file env (c\<lparr>conn_request := request_of g\<rparr>) s (Regular_File content) st"
    and "request_header (request_of g) ''Range'' = None" "content \<noteq> []" "length content < 2 ^ 63"
  shows "\<exists>s1 c1 r. handle_connection ndebug env net event a s = send_response net a c1 s1 \<and>
    writing s1 a c1 (response_bytes r) \<and> conn_fd c1 = conn_fd c \<and> conn_transport c1 = transport \<and>
    sv_world s1 = w \<and> tx (conn_fd c) w = tx (conn_fd c) (sv_world s) \<and>
    st_code (state_line r) = HTTP_RESPONSE_CODE_OK \<and> body_bytes (res_body r) = content \<and>
    headers_get (res_headers r) ''Content-Length'' = Some (show_lu (length content)) \<and>
    headers_get (res_headers r) ''Server'' = Some ''hSS/0.0.1-alpha''"
proof -
  let ?c1 = "arrived_connection c g transport" and ?s1 = "received_server a c transport w s"
  have env: "env_ok env" using assms(8) by (simp add: finds_file_def)
  have "finds_file env ?c1 ?s1 (Regular_File content) st"
    using assms(8) by (simp add: finds_file_def arrived_connection_def received_server_def put_connection_def)
  from whole_file_served [OF this assms(11), of ndebug "file_descriptor node"] assms(9)
  obtain r where r: "handle_http_transaction ndebug env TLS_SOCKET (file_descriptor node) (?c1, ?s1) =
      Ret (?c1\<lparr>conn_response := r\<rparr>, ?s1\<lparr>sv_cwd := st\<rparr>)" "response_ok r"
    "st_code (state_line r) = HTTP_RESPONSE_CODE_OK" "body_bytes (res_body r) = content"
    "headers_get (res_headers r) ''Content-Length'' = Some (show_lu (length content))"
    by (auto simp: arrived_connection_def)
  note fin = finished_with_body [OF r(2)]
  have tr: "handle_http_transaction ndebug env (fd_type node) (file_descriptor node) (?c1, ?s1) =
      Ret (?c1\<lparr>conn_response := r\<rparr>, ?s1\<lparr>sv_cwd := st\<rparr>)" using r(1) assms(5) by simp
  have s2: "sv_heap (?s1\<lparr>sv_cwd := st\<rparr>) = sv_heap ?s1" "sv_world (?s1\<lparr>sv_cwd := st\<rparr>) = w"
    by (simp_all add: received_server_def)
  have ok: "render_ok ndebug r" using fin(1) r(4) assms(10) by simp
  obtain s1 c1 where ready: "handle_connection ndebug env net event a s = send_response net a c1 s1"
    "writing s1 a c1 (response_bytes (finished r))" "conn_fd c1 = conn_fd c" "conn_transport c1 = transport"
    "sv_world s1 = w" "tx (conn_fd c) w = tx (conn_fd c) (sv_world s)"
    using reply_ready [OF assms(1-4) env assms(6,7) tr ok s2] by blast
  show ?thesis
    by (rule exI [of _ s1], rule exI [of _ c1], rule exI [of _ "finished r"])
      (use ready r(3-5) fin(2-5) assms(10) in simp)
qed

section \<open>Properties\<close>

text \<open>
  C6. A file that is asked for goes out. When the bytes that have arrived on a TLS connection, over
  any number of events, form a well-formed request without a \<open>Range\<close> header for a non-empty file
  below the working directory, and the connection is still there when \<open>handle_connection\<close> returns,
  then what has been sent, followed by what is left in the buffer, is what had been sent
  before followed by a response with the code 200, the content of the file as body, its length
  as \<open>Content-Length\<close> and the name of the server; the working directory is cached.
\<close>

theorem file_request_answered:
  assumes "waiting ndebug s a node c" "event AND EPOLLIN \<noteq> 0" "drains net c s d transport w"
    and "net_ok net rx tx" "fd_type node = TLS_SOCKET"
    and "request_text_ok g" "buffer_content (conn_buffer c) @ d = request_text_of g"
    and "finds_file env (c\<lparr>conn_request := request_of g\<rparr>) s (Regular_File content) st"
    and "request_header (request_of g) ''Range'' = None" "content \<noteq> []" "length content < 2 ^ 63"
    and "handle_connection ndebug env net event a s = Some (Ret s')" "sv_heap s' a \<noteq> None"
  shows "\<exists>c' r unsent. writing s' a c' unsent \<and> conn_fd c' = conn_fd c \<and>
    tx (conn_fd c) (sv_world s') @ unsent = tx (conn_fd c) (sv_world s) @ response_bytes r \<and>
    st_code (state_line r) = HTTP_RESPONSE_CODE_OK \<and> body_bytes (res_body r) = content \<and>
    headers_get (res_headers r) ''Content-Length'' = Some (show_lu (length content)) \<and>
    headers_get (res_headers r) ''Server'' = Some ''hSS/0.0.1-alpha''"
proof -
  obtain s1 c1 r where ready: "handle_connection ndebug env net event a s = send_response net a c1 s1"
    "writing s1 a c1 (response_bytes r)" "conn_fd c1 = conn_fd c" "sv_world s1 = w"
    "tx (conn_fd c) w = tx (conn_fd c) (sv_world s)"
    and r: "st_code (state_line r) = HTTP_RESPONSE_CODE_OK" "body_bytes (res_body r) = content"
    "headers_get (res_headers r) ''Content-Length'' = Some (show_lu (length content))"
    "headers_get (res_headers r) ''Server'' = Some ''hSS/0.0.1-alpha''"
    using file_reply_ready [OF assms(1-11)] by blast
  have "send_response net a c1 s1 = Some (Ret s')" using ready(1) assms(12) by simp
  from send_response_delivers [OF assms(4) ready(2) response_bytes_nonempty this] ready(3-5) assms(13)
  obtain c' unsent where "writing s' a c' unsent" "conn_fd c' = conn_fd c"
      "tx (conn_fd c) (sv_world s') @ unsent = tx (conn_fd c) (sv_world s) @ response_bytes r"
    by (auto dest: destroyed_gone)
  then show ?thesis using r by blast
qed

section \<open>A concrete exchange\<close>

text \<open>The records of an established session: a script to read, nothing taken.\<close>

definition record_net :: "(string list \<times> string \<times> string) net" where
  "record_net = script_net
     \<lparr>gnutls_record_recv := (\<lambda>fd n w. case script_recv n w of
         (Inl e, w') \<Rightarrow> (Inl GNUTLS_E_AGAIN, w') | (Inr x, w') \<Rightarrow> (Inr x, w'))\<rparr>"

lemma record_net_ok: "net_ok record_net (\<lambda>fd w. fst (snd w)) (\<lambda>fd w. snd (snd w))"
  using script_net_ok
  by (auto simp: net_ok_def record_net_def script_net_def script_recv_def transfers_in_def transfers_out_def
      split: list.splits)

definition file_text :: request_text where
  "file_text = \<lparr>rt_method = ''GET'', rt_sep1 = '' '', rt_url = ''/a'', rt_sep2 = '' '', rt_version = ''HTTP/1.1'',
     rt_headers = [\<lparr>ht_key = ''Host'', ht_lead = '' '', ht_value = ''h'', ht_trail = []\<rparr>]\<rparr>"

lemma file_text_ok: "request_text_ok file_text"
  by code_simp

lemma file_text_bytes:
  "request_text_of file_text = ''GET /a HTTP/1.1'' @ [CR, LF] @ ''Host: h'' @ [CR, LF, CR, LF]"
  by code_simp

definition tls_connection :: connection_information where
  "tls_connection = (sample_connection ''/'' [])\<lparr>conn_request := fresh_request\<rparr>"

definition tls_node :: file_descriptor_information where
  "tls_node = \<lparr>fd_type = TLS_SOCKET, file_descriptor = 5, fd_next = None, fd_prev = Head_Link,
     fd_connection = Some tls_connection\<rparr>"

definition tls_server :: "'w \<Rightarrow> 'w server" where
  "tls_server w = (plain_server w)\<lparr>sv_heap := [9 \<mapsto> tls_node]\<rparr>"

lemma tls_waiting: "waiting ndebug (tls_server w) 9 tls_node tls_connection"
  using sample_render_ok fresh_request_simps
  by (simp add: waiting_def tls_server_def tls_node_def tls_connection_def sample_connection_def buffer_ok_def
      plain_server_def)

lemma record_drains:
  "drains record_net tls_connection (tls_server ([request_text_of file_text], [], [])) (request_text_of file_text)
     (Tls_Transport TLS_STATE_Established) ([], request_text_of file_text, [])"
proof -
  let ?p = "request_text_of file_text" and ?t = "Tls_Transport TLS_STATE_Established"
  have p: "?p \<noteq> []" "length ?p < 4096" by (simp_all add: file_text_bytes)
  have "conn_recv record_net 5 (?t, [?p], [], []) 4096 = Ret (Inr ?p, ?t, [], ?p, [])"
    using p by (simp add: tls_recv_def tls_recv_send_def record_net_def script_recv_def)
  moreover have "conn_recv record_net 5 (?t, [], ?p, []) n = Ret (Inl EAGAIN, ?t, [], ?p, [])" for n
    by (simp add: tls_recv_def tls_recv_send_def record_net_def script_recv_def)
  then have "receive_loop (conn_recv record_net 5) [] ?p (?t, [], ?p, []) = Some (Ret (Drained, [], ?p, ?t, [], ?p, []))"
    by (subst receive_loop.simps) simp
  ultimately have "receive_loop (conn_recv record_net 5) [] [] (?t, [?p], [], []) =
      Some (Ret (Drained, [], ?p, ?t, [], ?p, []))"
    using p by (subst receive_loop.simps) (simp add: buffer_page_size_def)
  then show ?thesis
    using p by (auto simp: drains_def tls_connection_def sample_connection_def tls_server_def plain_server_def)
qed

lemma file_text_found:
  "finds_file sample_env (tls_connection\<lparr>conn_request := request_of file_text\<rparr>) (tls_server w)
     (Regular_File ''0123456789'') (Some ''/srv/'')"
proof -
  have "request_url (request_of file_text) = ''/a''"
    using parsed_request_of [OF file_text_ok] by (simp add: file_text_def)
  then show ?thesis
    using sample_env_ok sample_response_ok parsed_request_of [OF file_text_ok]
    by (auto simp: finds_file_def tls_connection_def tls_server_def plain_server_def cwd_ok_def magic_prefix_def
        sample_env_def current_working_directory_def)
qed

lemma file_request_answered_witness:
  "\<exists>s' c' r unsent. handle_connection False sample_env record_net EPOLLIN 9
       (tls_server ([request_text_of file_text], [], [])) = Some (Ret s') \<and>
     writing s' 9 c' unsent \<and> snd (snd (sv_world s')) @ unsent = response_bytes r \<and>
     body_bytes (res_body r) = ''0123456789''"
proof -
  let ?s = "tls_server ([request_text_of file_text], [], [])"
  have start: "fd_type tls_node = TLS_SOCKET" "''0123456789'' \<noteq> []" "length ''0123456789'' < 2 ^ 63"
    by (simp_all add: tls_node_def)
  have full: "buffer_content (conn_buffer tls_connection) @ request_text_of file_text = request_text_of file_text"
    by (simp add: tls_connection_def sample_connection_def buffer_content_def)
  have range: "request_header (request_of file_text) ''Range'' = None"
    by (simp add: request_header_def request_of_def file_text_def header_of_def)
  note ready = tls_waiting event_bits(3) record_drains record_net_ok start(1) file_text_ok full file_text_found range start(2,3)
  obtain s1 c1 r where r: "handle_connection False sample_env record_net EPOLLIN 9 ?s = send_response record_net 9 c1 s1"
    "writing s1 9 c1 (response_bytes r)" "conn_transport c1 = Tls_Transport TLS_STATE_Established"
    using file_reply_ready [OF ready, of False] by blast
  have "conn_send record_net fd (Tls_Transport TLS_STATE_Established, w) x =
      Ret (Inl EAGAIN, Tls_Transport TLS_STATE_Established, w)" for fd w x
    by (simp add: tls_send_def tls_recv_send_def record_net_def script_net_def)
  with send_blocked [OF r(2), of record_net] r(1,3)
  obtain s' where s': "handle_connection False sample_env record_net EPOLLIN 9 ?s = Some (Ret s')"
      "sv_heap s' 9 \<noteq> None"
    by auto
  from file_request_answered [OF ready s'] s'(1) show ?thesis by (auto simp: tls_server_def plain_server_def)
qed

end
