(* ===== verification/Header_Heap.thy ===== *)
theory Header_Heap
  imports Header_List
begin

text \<open>
  The header list of \<open>http.c\<close> at the level of its pointers: nodes and texts are cells of one
  heap, links are the places a node pointer is stored in, \<open>malloc\<close> gives an unused address
  and \<open>free\<close> of anything but an allocated cell is a fault. The loops follow \<open>next\<close> pointers
  and may run forever on a cyclic list (\<open>None\<close>).

  \<open>Header_Refinement\<close> shows that on a heap that represents a list of \<open>Header_List\<close> each operation
  ends, is safe and computes what its list version computes, and accounts for every cell it
  allocates.
\<close>

section \<open>Memory\<close>

record header_node =
  nd_key :: "nat option"
  nd_value :: "nat option"
  nd_next :: "nat option"

datatype cell = Header_Cell header_node | Text_Cell string

type_synonym heap = "nat \<Rightarrow> cell option"

text \<open>The heap and \<open>headers->header_list\<close>.\<close>

record header_memory =
  hm_heap :: heap
  hm_list :: "nat option"

definition node_at :: "nat \<Rightarrow> header_memory \<Rightarrow> header_node outcome" where
  "node_at a m = (case hm_heap m a of Some (Header_Cell n) \<Rightarrow> Ret n | _ \<Rightarrow> Fault Use_After_Free)"

definition write_node :: "nat \<Rightarrow> header_node \<Rightarrow> header_memory \<Rightarrow> header_memory outcome" where
  "write_node a n m =
     (case hm_heap m a of
        Some (Header_Cell _) \<Rightarrow> Ret (m\<lparr>hm_heap := (hm_heap m)(a \<mapsto> Header_Cell n)\<rparr>)
      | _ \<Rightarrow> Fault Use_After_Free)"

text \<open>The C string at a pointer.\<close>

definition text_at :: "nat option \<Rightarrow> header_memory \<Rightarrow> cstring outcome" where
  "text_at p m =
     (case p of
        None \<Rightarrow> Fault Null_Dereference
      | Some a \<Rightarrow>
          (case hm_heap m a of
             Some (Text_Cell b) \<Rightarrow> if NUL \<in> set b then Ret (cstr b) else Fault Out_Of_Bounds
           | _ \<Rightarrow> Fault Use_After_Free))"

text \<open>The allocator: the address it gives for a new cell.\<close>

type_synonym allocator = "heap \<Rightarrow> nat"

definition new_cell :: "allocator \<Rightarrow> cell \<Rightarrow> header_memory \<Rightarrow> nat \<times> header_memory" where
  "new_cell al c m = (let a = al (hm_heap m) in (a, m\<lparr>hm_heap := (hm_heap m)(a \<mapsto> c)\<rparr>))"

definition free_cell :: "nat option \<Rightarrow> header_memory \<Rightarrow> header_memory outcome" where
  "free_cell p m =
     (case p of
        None \<Rightarrow> Ret m
      | Some a \<Rightarrow> if hm_heap m a = None then Fault Bad_Free else Ret (m\<lparr>hm_heap := (hm_heap m)(a := None)\<rparr>))"

section \<open>Model\<close>

text \<open>Where a node pointer is stored: \<open>struct header **\<close>.\<close>

datatype header_link = List_Field | Next_Field nat

fun read_link :: "header_link \<Rightarrow> header_memory \<Rightarrow> nat option outcome" where
  "read_link List_Field m = Ret (hm_list m)"
| "read_link (Next_Field a) m = bindO (node_at a m) (\<lambda>n. Ret (nd_next n))"

fun write_header_link :: "header_link \<Rightarrow> nat option \<Rightarrow> header_memory \<Rightarrow> header_memory outcome" where
  "write_header_link List_Field p m = Ret (m\<lparr>hm_list := p\<rparr>)"
| "write_header_link (Next_Field a) p m = bindO (node_at a m) (\<lambda>n. write_node a (n\<lparr>nd_next := p\<rparr>) m)"

text \<open>The key behind a link, if the link is not null.\<close>

definition key_behind :: "header_link \<Rightarrow> header_memory \<Rightarrow> (nat \<times> cstring) option outcome" where
  "key_behind l m =
     bindO (read_link l m) (\<lambda>p.
       case p of
         None \<Rightarrow> Ret None
       | Some a \<Rightarrow> bindO (node_at a m) (\<lambda>n. bindO (text_at (nd_key n) m) (\<lambda>k. Ret (Some (a, k)))))"

partial_function (option) lookup_from :: "header_link \<Rightarrow> cstring \<Rightarrow> header_memory \<Rightarrow> (nat option \<times> header_link) run" where
  "lookup_from prev name m =
     (case key_behind prev m of
        Fault f \<Rightarrow> Some (Fault f)
      | Ret None \<Rightarrow> Some (Ret (None, prev))
      | Ret (Some (a, k)) \<Rightarrow>
          if strcmp k name < 0 then lookup_from (Next_Field a) name m
          else Some (Ret (if strcmp k name = 0 then Some a else None, prev)))"

definition lookup_header_at :: "cstring \<Rightarrow> header_memory \<Rightarrow> (nat option \<times> header_link) run" where
  "lookup_header_at = lookup_from List_Field"

definition splice_header :: "header_link \<Rightarrow> nat \<Rightarrow> header_memory \<Rightarrow> header_memory outcome" where
  "splice_header prev header m =
     bindO (read_link prev m) (\<lambda>p.
     bindO (node_at header m) (\<lambda>n.
     bindO (write_node header (n\<lparr>nd_next := p\<rparr>) m) (\<lambda>m.
       write_header_link prev (Some header) m)))"

definition insert_header_at :: "nat \<Rightarrow> header_memory \<Rightarrow> (http_error_code \<times> header_memory) run" where
  "insert_header_at header m =
     bindR (Some (bindO (node_at header m) (\<lambda>n. text_at (nd_key n) m))) (\<lambda>key.
     bindR (lookup_header_at key m) (\<lambda>(target, prev).
       if target \<noteq> None then Some (Ret (HTTP_ERROR_CODE_DUPLICATE_HEADER_KEY, m))
       else Some (bindO (splice_header prev header m) (\<lambda>m. Ret (HTTP_ERROR_CODE_SUCCEED, m)))))"

text \<open>
  Building a header in new memory. The fields of the node are null until they are set; they
  are not read before.
\<close>

definition new_header :: "allocator \<Rightarrow> cstring \<Rightarrow> cstring \<Rightarrow> header_memory \<Rightarrow> nat \<times> header_memory" where
  "new_header al key val m0 =
     (let (h, m1) = new_cell al (Header_Cell \<lparr>nd_key = None, nd_value = None, nd_next = None\<rparr>) m0;
          (k, m2) = new_cell al (Text_Cell (key @ [NUL])) m1;
          (v, m3) = new_cell al (Text_Cell (val @ [NUL])) m2
      in (h, m3\<lparr>hm_heap := (hm_heap m3)(h \<mapsto> Header_Cell \<lparr>nd_key = Some k, nd_value = Some v, nd_next = None\<rparr>)\<rparr>))"

text \<open>The parser stores a header line; a rejected header stays where it is.\<close>

definition store_header_at ::
  "allocator \<Rightarrow> cstring \<Rightarrow> cstring \<Rightarrow> header_memory \<Rightarrow> (http_error_code \<times> header_memory) run" where
  "store_header_at al key val m =
     (let (header, m1) = new_header al key val m in insert_header_at header m1)"

definition set_header_at :: "allocator \<Rightarrow> cstring \<Rightarrow> cstring \<Rightarrow> header_memory \<Rightarrow> header_memory run" where
  "set_header_at al key val m =
     bindR (lookup_header_at key m) (\<lambda>(target, prev).
       case target of
         Some t \<Rightarrow>
           Some (bindO (node_at t m) (\<lambda>n.
                 bindO (free_cell (nd_value n) m) (\<lambda>m1.
                   let (v, m2) = new_cell al (Text_Cell (cstr val @ [NUL])) m1
                   in write_node t (n\<lparr>nd_value := Some v\<rparr>) m2)))
       | None \<Rightarrow>
           (let (header, m1) = new_header al (cstr key) (cstr val) m
            in Some (splice_header prev header m1)))"

text \<open>One turn of the loop of \<open>destroy_headers\<close>; the result is the next node.\<close>

definition destroy_one :: "nat \<Rightarrow> header_memory \<Rightarrow> (nat option \<times> header_memory) outcome" where
  "destroy_one a m =
     bindO (node_at a m) (\<lambda>n.
     bindO (free_cell (nd_key n) m) (\<lambda>m.
     bindO (free_cell (nd_value n) m) (\<lambda>m.
     bindO (write_node a (n\<lparr>nd_key := None, nd_value := None\<rparr>) m) (\<lambda>m.
     bindO (node_at a m) (\<lambda>n.
     bindO (free_cell (Some a) m) (\<lambda>m.
       Ret (nd_next n, m)))))))"

partial_function (option) destroy_from :: "nat option \<Rightarrow> header_memory \<Rightarrow> header_memory run" where
  "destroy_from target m =
     (case target of
        None \<Rightarrow> Some (Ret m)
      | Some a \<Rightarrow>
          (case destroy_one a m of
             Fault f \<Rightarrow> Some (Fault f)
           | Ret (p, m') \<Rightarrow> destroy_from p m'))"

definition destroy_headers_at :: "header_memory \<Rightarrow> header_memory run" where
  "destroy_headers_at m = destroy_from (hm_list m) (m\<lparr>hm_list := None\<rparr>)"

text \<open>The loop of \<open>http_request_get_header\<close>, and the value it ends at.\<close>

partial_function (option) find_from :: "nat option \<Rightarrow> cstring \<Rightarrow> header_memory \<Rightarrow> nat option run" where
  "find_from header name m =
     (case header of
        None \<Rightarrow> Some (Ret None)
      | Some a \<Rightarrow>
          (case bindO (node_at a m) (\<lambda>n. bindO (text_at (nd_key n) m) (\<lambda>k. Ret (nd_next n, k))) of
             Fault f \<Rightarrow> Some (Fault f)
           | Ret (p, k) \<Rightarrow>
               if strcmp k name < 0 then find_from p name m
               else Some (Ret (if strcmp k name \<noteq> 0 then None else Some a))))"

definition value_at :: "cstring \<Rightarrow> header_memory \<Rightarrow> cstring option run" where
  "value_at name m =
     bindR (find_from (hm_list m) name m) (\<lambda>header.
       case header of
         None \<Rightarrow> Some (Ret None)
       | Some a \<Rightarrow> Some (bindO (node_at a m) (\<lambda>n. bindO (text_at (nd_value n) m) (\<lambda>v. Ret (Some v)))))"

end
