(* ===== verification/Header_Refinement.thy ===== *)
theory Header_Refinement
  imports Header_Heap Request
begin

text \<open>
  The pointer program of \<open>Header_Heap\<close> refines the list functions of \<open>Header_List\<close> and
  \<open>Request\<close>: every operation is simulated, cell by cell.
\<close>

section \<open>Lists in the heap\<close>

text \<open>The addresses of a node, its key and its value.\<close>

type_synonym footprint = "(nat \<times> nat \<times> nat) list"

definition cells :: "footprint \<Rightarrow> nat list" where
  "cells fp = concat (map (\<lambda>(a, k, v). [a, k, v]) fp)"

lemma cells_simps [simp]:
  "cells [] = []" "cells ((a, k, v) # fp) = a # k # v # cells fp" "cells (fp @ gp) = cells fp @ cells gp"
  by (simp_all add: cells_def)

text \<open>The segment of the list from \<open>p\<close> up to a node pointer \<open>q\<close>.\<close>

fun segment :: "heap \<Rightarrow> nat option \<Rightarrow> headers \<Rightarrow> footprint \<Rightarrow> nat option \<Rightarrow> bool" where
  "segment h p [] [] q \<longleftrightarrow> p = q"
| "segment h p (x # xs) ((a, k, v) # fp) q \<longleftrightarrow> p = Some a \<and>
     h k = Some (Text_Cell (hkey x @ [NUL])) \<and> h v = Some (Text_Cell (hvalue x @ [NUL])) \<and>
     (\<exists>n. h a = Some (Header_Cell \<lparr>nd_key = Some k, nd_value = Some v, nd_next = n\<rparr>) \<and> segment h n xs fp q)"
| "segment h p _ _ q \<longleftrightarrow> False"

definition represents :: "header_memory \<Rightarrow> headers \<Rightarrow> footprint \<Rightarrow> bool" where
  "represents m hs fp \<longleftrightarrow> segment (hm_heap m) (hm_list m) hs fp None \<and> distinct (cells fp)"

lemma segment_length: "segment h p xs fp q \<Longrightarrow> length xs = length fp"
  by (induction h p xs fp q rule: segment.induct) auto

lemma segment_cong:
  "segment h p xs fp q \<Longrightarrow> (\<And>a. a \<in> set (cells fp) \<Longrightarrow> h' a = h a) \<Longrightarrow> segment h' p xs fp q"
  by (induction h p xs fp q rule: segment.induct) auto

lemma segment_allocated: "segment h p xs fp q \<Longrightarrow> set (cells fp) \<subseteq> dom h"
  by (induction h p xs fp q rule: segment.induct) auto

lemma segment_append:
  "length xs = length fp \<Longrightarrow> segment h p (xs @ ys) (fp @ gp) r \<longleftrightarrow>
     (\<exists>q. segment h p xs fp q \<and> segment h q ys gp r)"
proof (induction xs fp arbitrary: p rule: list_induct2)
  case Nil
  then show ?case by simp
next
  case (Cons x xs t fp)
  obtain a k v where "t = (a, k, v)" by (cases t)
  then show ?case using Cons.IH by auto
qed

lemma segment_snoc:
  "segment h p (xs @ [x]) (fp @ [(a, k, v)]) r \<longleftrightarrow>
     segment h p xs fp (Some a) \<and> h k = Some (Text_Cell (hkey x @ [NUL])) \<and>
     h v = Some (Text_Cell (hvalue x @ [NUL])) \<and>
     h a = Some (Header_Cell \<lparr>nd_key = Some k, nd_value = Some v, nd_next = r\<rparr>)"
proof (cases "length xs = length fp")
  case True
  then show ?thesis by (auto simp: segment_append)
next
  case False
  then show ?thesis using segment_length by fastforce
qed

lemma text_at_key: "hm_heap m k = Some (Text_Cell (t @ [NUL])) \<Longrightarrow> text_at (Some k) m = Ret (cstr t)"
proof -
  have "cstr (t @ [NUL]) = cstr t" by (induction t) (auto simp: cstr_def)
  then show "hm_heap m k = Some (Text_Cell (t @ [NUL])) \<Longrightarrow> text_at (Some k) m = Ret (cstr t)"
    by (simp add: text_at_def)
qed

lemma strcmp_cstr: "strcmp (cstr k) name < 0 \<longleftrightarrow> strcmp k name < 0" "strcmp (cstr k) name = 0 \<longleftrightarrow> strcmp k name = 0"
  by (simp_all add: strcmp_iffs)

section \<open>Looking up\<close>

text \<open>The link at a position of the list, from a link \<open>l\<close> on.\<close>

fun link_at :: "header_link \<Rightarrow> footprint \<Rightarrow> nat \<Rightarrow> header_link" where
  "link_at l fp 0 = l"
| "link_at l [] (Suc i) = l"
| "link_at l ((a, k, v) # fp) (Suc i) = link_at (Next_Field a) fp i"

lemma lookup_from_segment:
  "segment (hm_heap m) p hs fp None \<Longrightarrow> read_link l m = Ret p \<Longrightarrow> lookup_header hs name = (target, prev) \<Longrightarrow>
     lookup_from l name m = Some (Ret (if target = None then None else Some (fst (fp ! prev)), link_at l fp prev))"
proof (induction hs arbitrary: p fp l prev)
  case Nil
  then show ?case
    by (subst lookup_from.simps, cases fp) (auto simp: key_behind_def)
next
  case (Cons x hs)
  obtain a k v gp where fp: "fp = (a, k, v) # gp"
    using segment_length [OF Cons.prems(1)] by (cases fp) auto
  obtain n where seg: "p = Some a" "hm_heap m k = Some (Text_Cell (hkey x @ [NUL]))"
    "hm_heap m a = Some (Header_Cell \<lparr>nd_key = Some k, nd_value = Some v, nd_next = n\<rparr>)"
    "segment (hm_heap m) n hs gp None"
    using Cons.prems(1) by (auto simp: fp)
  have key: "key_behind l m = Ret (Some (a, cstr (hkey x)))"
    using Cons.prems(2) seg(1-3) by (simp add: key_behind_def node_at_def text_at_key)
  show ?case
  proof (cases "strcmp (hkey x) name < 0")
    case True
    obtain prev' where prev: "lookup_header hs name = (target, prev')" "prev = Suc prev'"
      using Cons.prems(3) True by (auto split: prod.splits)
    have "read_link (Next_Field a) m = Ret n" using seg(3) by (simp add: node_at_def)
    from Cons.IH [OF seg(4) this prev(1)] show ?thesis
      using True key by (subst lookup_from.simps) (simp add: strcmp_cstr prev(2) fp)
  next
    case False
    then show ?thesis
      using key Cons.prems(3) by (subst lookup_from.simps) (auto simp: strcmp_cstr fp split: if_splits)
  qed
qed

lemma lookup_header_at_eq:
  assumes "represents m hs fp" "lookup_header hs name = (target, prev)"
  shows "lookup_header_at name m =
    Some (Ret (if target = None then None else Some (fst (fp ! prev)), link_at List_Field fp prev))"
  using lookup_from_segment [of m "hm_list m" hs fp List_Field name target prev] assms
  by (simp add: represents_def lookup_header_at_def)

lemma find_from_segment:
  "segment (hm_heap m) p hs fp None \<Longrightarrow>
     find_from p name m = Some (Ret (case find_header hs name of
         [] \<Rightarrow> None
       | h # t \<Rightarrow> if strcmp (hkey h) name \<noteq> 0 then None else Some (fst (fp ! (length hs - length (h # t))))))"
proof (induction hs arbitrary: p fp)
  case Nil
  then show ?case by (subst find_from.simps, cases fp) auto
next
  case (Cons x hs)
  obtain a k v gp where fp: "fp = (a, k, v) # gp"
    using segment_length [OF Cons.prems(1)] by (cases fp) auto
  obtain n where seg: "p = Some a" "hm_heap m k = Some (Text_Cell (hkey x @ [NUL]))"
    "hm_heap m a = Some (Header_Cell \<lparr>nd_key = Some k, nd_value = Some v, nd_next = n\<rparr>)"
    "segment (hm_heap m) n hs gp None"
    using Cons.prems(1) by (auto simp: fp)
  have suffix: "length (find_header hs name) \<le> length hs" by (induction hs) auto
  have "length hs - length t = Suc (length hs - Suc (length t))" if "find_header hs name = h # t" for h t
    using suffix that by simp
  then show ?case
    using seg(1-3) Cons.IH [OF seg(4)]
    by (subst find_from.simps) (auto simp: node_at_def text_at_key strcmp_cstr fp split: list.split)
qed

section \<open>Changing the list\<close>

lemma link_at_eq:
  "i \<le> length fp \<Longrightarrow> link_at l fp i = (if i = 0 then l else Next_Field (fst (fp ! (i - 1))))"
proof (induction l fp i rule: link_at.induct)
  case (3 l a k v fp i)
  then show ?case by (cases i) auto
qed auto

text \<open>A list with a node in focus.\<close>

lemma represents_at:
  assumes "length ys = length gp"
  shows "represents m (ys @ x # zs) (gp @ (a, k, v) # rest) \<longleftrightarrow>
     (\<exists>n. segment (hm_heap m) (hm_list m) ys gp (Some a) \<and>
        hm_heap m k = Some (Text_Cell (hkey x @ [NUL])) \<and> hm_heap m v = Some (Text_Cell (hvalue x @ [NUL])) \<and>
        hm_heap m a = Some (Header_Cell \<lparr>nd_key = Some k, nd_value = Some v, nd_next = n\<rparr>) \<and>
        segment (hm_heap m) n zs rest None \<and> distinct (cells (gp @ (a, k, v) # rest)))"
  by (auto simp: represents_def segment_append [OF assms])

lemma footprint_split:
  assumes "segment h p hs fp q" "i < length hs"
  obtains a k v where "fp ! i = (a, k, v)" "fp = take i fp @ (a, k, v) # drop (Suc i) fp"
    "hs = take i hs @ hs ! i # drop (Suc i) hs" "length (take i hs) = length (take i fp)"
proof -
  obtain a k v where akv: "fp ! i = (a, k, v)" by (cases "fp ! i")
  have len: "length hs = length fp" using segment_length [OF assms(1)] .
  show thesis
    using that [OF akv] id_take_nth_drop [of i fp] id_take_nth_drop [of i hs] assms(2) len akv by simp
qed

lemma segment_take_drop:
  assumes "segment h p hs fp None" "i \<le> length hs"
  obtains q where "segment h p (take i hs) (take i fp) q" "segment h q (drop i hs) (drop i fp) None"
  using assms segment_length [OF assms(1)]
    segment_append [of "take i hs" "take i fp" h p "drop i hs" "drop i fp" None] that by auto

lemma read_link_at:
  assumes "segment (hm_heap m) (hm_list m) (take i hs) (take i fp) q" "i \<le> length hs" "length hs = length fp"
  shows "read_link (link_at List_Field fp i) m = Ret q"
proof (cases i)
  case 0
  then show ?thesis using assms(1) by simp
next
  case (Suc j)
  obtain b kb vb where b: "fp ! j = (b, kb, vb)" by (cases "fp ! j")
  have "take i hs = take j hs @ [hs ! j]" "take i fp = take j fp @ [(b, kb, vb)]"
    using Suc assms(2,3) b by (simp_all add: take_Suc_conv_app_nth)
  then show ?thesis
    using assms Suc b by (simp add: link_at_eq segment_snoc node_at_def)
qed

text \<open>Splicing in a node whose cells are not part of the list.\<close>

lemma splice_header_eq:
  assumes rep: "represents m hs fp" and i: "i \<le> length hs"
    and node: "hm_heap m a = Some (Header_Cell \<lparr>nd_key = Some k, nd_value = Some v, nd_next = n0\<rparr>)"
      "hm_heap m k = Some (Text_Cell (hkey x @ [NUL]))" "hm_heap m v = Some (Text_Cell (hvalue x @ [NUL]))"
    and new: "distinct [a, k, v]" "set (cells fp) \<inter> {a, k, v} = {}"
  shows "\<exists>m'. splice_header (link_at List_Field fp i) a m = Ret m' \<and>
     represents m' (take i hs @ x # drop i hs) (take i fp @ (a, k, v) # drop i fp) \<and>
     dom (hm_heap m') = dom (hm_heap m) \<and>
     (\<forall>c. c \<notin> set (cells fp) \<and> c \<noteq> a \<longrightarrow> hm_heap m' c = hm_heap m c)"
proof -
  have seg: "segment (hm_heap m) (hm_list m) hs fp None" and dist: "distinct (cells fp)"
    using rep by (simp_all add: represents_def)
  have len: "length hs = length fp" using segment_length [OF seg] .
  obtain q where q: "segment (hm_heap m) (hm_list m) (take i hs) (take i fp) q"
    "segment (hm_heap m) q (drop i hs) (drop i fp) None"
    using segment_take_drop [OF seg i] .
  have read: "read_link (link_at List_Field fp i) m = Ret q" using read_link_at [OF q(1) i len] .
  define m1 where "m1 = m\<lparr>hm_heap := (hm_heap m)(a \<mapsto> Header_Cell \<lparr>nd_key = Some k, nd_value = Some v, nd_next = q\<rparr>)\<rparr>"
  have m1: "node_at a m = Ret \<lparr>nd_key = Some k, nd_value = Some v, nd_next = n0\<rparr>"
    "write_node a \<lparr>nd_key = Some k, nd_value = Some v, nd_next = q\<rparr> m = Ret m1"
    using node(1) by (simp_all add: node_at_def write_node_def m1_def)
  have parts: "cells fp = cells (take i fp) @ cells (drop i fp)"
    by (metis append_take_drop_id cells_simps(3))
  have rest: "segment h' q (drop i hs) (drop i fp) None"
    if "\<And>c. c \<in> set (cells (drop i fp)) \<Longrightarrow> h' c = hm_heap m c" for h'
    using segment_cong [OF q(2)] that by blast
  have dist': "distinct (cells (take i fp @ (a, k, v) # drop i fp))"
    using dist new parts by auto
  show ?thesis
  proof (cases i)
    case 0
    let ?m = "m1\<lparr>hm_list := Some a\<rparr>"
    have "splice_header (link_at List_Field fp i) a m = Ret ?m"
      using read m1 0 by (simp add: splice_header_def)
    moreover have "represents ?m (take i hs @ x # drop i hs) (take i fp @ (a, k, v) # drop i fp)"
    proof -
      have "segment (hm_heap m1) q (drop i hs) (drop i fp) None"
        by (rule rest) (use new parts in \<open>auto simp: m1_def\<close>)
      then show ?thesis using 0 node(2,3) new dist' by (auto simp: represents_def m1_def)
    qed
    ultimately show ?thesis using node(1) by (intro exI [of _ ?m]) (auto simp: m1_def)
  next
    case (Suc j)
    obtain b kb vb where b: "fp ! j = (b, kb, vb)" by (cases "fp ! j")
    have ends: "take i hs = take j hs @ [hs ! j]" "take i fp = take j fp @ [(b, kb, vb)]"
      using Suc i len b by (simp_all add: take_Suc_conv_app_nth)
    have before: "segment (hm_heap m) (hm_list m) (take j hs) (take j fp) (Some b)"
      "hm_heap m kb = Some (Text_Cell (hkey (hs ! j) @ [NUL]))"
      "hm_heap m vb = Some (Text_Cell (hvalue (hs ! j) @ [NUL]))"
      "hm_heap m b = Some (Header_Cell \<lparr>nd_key = Some kb, nd_value = Some vb, nd_next = q\<rparr>)"
      using q(1) by (simp_all add: ends segment_snoc)
    let ?m = "m1\<lparr>hm_heap := (hm_heap m1)(b \<mapsto> Header_Cell \<lparr>nd_key = Some kb, nd_value = Some vb, nd_next = Some a\<rparr>)\<rparr>"
    have d: "distinct (cells (take j fp) @ [b, kb, vb] @ [a, k, v] @ cells (drop i fp))"
      using dist' ends(2) by simp
    have "link_at List_Field fp i = Next_Field b" using i len Suc b by (simp add: link_at_eq)
    then have "splice_header (link_at List_Field fp i) a m = Ret ?m"
      using read node(1) before(4) d by (simp add: splice_header_def node_at_def write_node_def m1_def)
    moreover have "segment (hm_heap ?m) (hm_list ?m) (take j hs) (take j fp) (Some b)"
    proof -
      have "segment (hm_heap ?m) (hm_list m) (take j hs) (take j fp) (Some b)"
        by (rule segment_cong [OF before(1)]) (use d in \<open>auto simp: m1_def\<close>)
      then show ?thesis by (simp add: m1_def)
    qed
    moreover have "segment (hm_heap ?m) q (drop i hs) (drop i fp) None"
      by (rule rest) (use d in \<open>auto simp: m1_def\<close>)
    ultimately have rep': "represents ?m (take j hs @ hs ! j # x # drop i hs)
        (take j fp @ (b, kb, vb) # (a, k, v) # drop i fp)"
      and run: "splice_header (link_at List_Field fp i) a m = Ret ?m"
      using before(2-4) node d segment_length [OF before(1)] by (auto simp: represents_at m1_def)
    have "dom (hm_heap ?m) = dom (hm_heap m)" using before(4) node(1) by (auto simp: m1_def)
    moreover have "\<forall>c. c \<notin> set (cells fp) \<and> c \<noteq> a \<longrightarrow> hm_heap ?m c = hm_heap m c"
      using parts ends(2) by (auto simp: m1_def)
    ultimately show ?thesis using run rep' ends by (intro exI [of _ ?m]) simp
  qed
qed

section \<open>Allocation\<close>

text \<open>What \<open>malloc\<close> promises: as long as there is an unused address, it gives one.\<close>

definition allocator_ok :: "allocator \<Rightarrow> bool" where
  "allocator_ok al \<longleftrightarrow> (\<forall>h. finite (dom h) \<longrightarrow> h (al h) = None)"

text \<open>The list, the cells it owns, what was there before, and what nothing points to any more.\<close>

definition accounted :: "heap \<Rightarrow> header_memory \<Rightarrow> headers \<Rightarrow> footprint \<Rightarrow> nat set \<Rightarrow> bool" where
  "accounted h0 m hs fp leaked \<longleftrightarrow>
     represents m hs fp \<and> finite leaked \<and>
     dom (hm_heap m) = dom h0 \<union> set (cells fp) \<union> leaked \<and>
     dom h0 \<inter> set (cells fp) = {} \<and> dom h0 \<inter> leaked = {} \<and> set (cells fp) \<inter> leaked = {} \<and>
     (\<forall>a\<in>dom h0. hm_heap m a = h0 a)"

lemma new_header_eq:
  assumes al: "allocator_ok al" and fin: "finite (dom (hm_heap m))"
  obtains a k v m1 where "new_header al key val m = (a, m1)" "distinct [a, k, v]" "{a, k, v} \<inter> dom (hm_heap m) = {}"
    "m1 = m\<lparr>hm_heap := (hm_heap m)(k \<mapsto> Text_Cell (key @ [NUL]), v \<mapsto> Text_Cell (val @ [NUL]),
       a \<mapsto> Header_Cell \<lparr>nd_key = Some k, nd_value = Some v, nd_next = None\<rparr>)\<rparr>"
proof -
  let ?h = "hm_heap m" and ?n = "Header_Cell \<lparr>nd_key = None, nd_value = None, nd_next = None\<rparr>"
  let ?a = "al ?h"
  let ?h1 = "?h(?a \<mapsto> ?n)"
  let ?k = "al ?h1"
  let ?h2 = "?h1(?k \<mapsto> Text_Cell (key @ [NUL]))"
  let ?v = "al ?h2"
  have ok: "h (al h) = None" if "finite (dom h)" for h using al that by (simp add: allocator_ok_def)
  have a: "?h ?a = None" by (rule ok) (rule fin)
  have fin1: "finite (dom ?h1)" using fin by simp
  have k: "?h1 ?k = None" by (rule ok [OF fin1])
  have fin2: "finite (dom ?h2)" using fin1 by (subst dom_fun_upd) simp
  have v: "?h2 ?v = None" by (rule ok [OF fin2])
  have d: "?k \<noteq> ?a" "?v \<noteq> ?a" "?v \<noteq> ?k" "?h ?k = None" "?h ?v = None"
    using k v by (metis fun_upd_apply option.distinct(1))+
  define new where "new = new_header al key val m"
  have eq: "new = (?a, m\<lparr>hm_heap := (hm_heap m)(?k \<mapsto> Text_Cell (key @ [NUL]), ?v \<mapsto> Text_Cell (val @ [NUL]),
       ?a \<mapsto> Header_Cell \<lparr>nd_key = Some ?k, nd_value = Some ?v, nd_next = None\<rparr>)\<rparr>)"
    using d by (simp add: new_def new_header_def new_cell_def Let_def fun_upd_twist)
  show thesis
    by (rule that [OF eq [unfolded new_def] _ _ refl]) (use a d in auto)
qed

lemma accounted_finite: "accounted h0 m hs fp leaked \<Longrightarrow> finite (dom h0) \<Longrightarrow> finite (dom (hm_heap m))"
  by (auto simp: accounted_def)

text \<open>A new node, spliced into an accounted list.\<close>

lemma splice_new:
  assumes acc: "accounted h0 m hs fp leaked" and fin: "finite (dom h0)" and al: "allocator_ok al" and i: "i \<le> length hs"
  shows "\<exists>a m1 m2 k v. new_header al key val m = (a, m1) \<and> represents m1 hs fp \<and>
     node_at a m1 = Ret \<lparr>nd_key = Some k, nd_value = Some v, nd_next = None\<rparr> \<and>
     text_at (Some k) m1 = Ret (cstr key) \<and> card {a, k, v} = 3 \<and>
     accounted h0 m1 hs fp (leaked \<union> {a, k, v}) \<and> {a, k, v} \<inter> leaked = {} \<and>
     splice_header (link_at List_Field fp i) a m1 = Ret m2 \<and>
     accounted h0 m2 (take i hs @ \<lparr>hkey = key, hvalue = val\<rparr> # drop i hs) (take i fp @ (a, k, v) # drop i fp) leaked"
proof -
  obtain a k v m1 where new: "new_header al key val m = (a, m1)" "distinct [a, k, v]"
    "{a, k, v} \<inter> dom (hm_heap m) = {}"
    and m1: "m1 = m\<lparr>hm_heap := (hm_heap m)(k \<mapsto> Text_Cell (key @ [NUL]), v \<mapsto> Text_Cell (val @ [NUL]),
       a \<mapsto> Header_Cell \<lparr>nd_key = Some k, nd_value = Some v, nd_next = None\<rparr>)\<rparr>"
    using new_header_eq [OF al accounted_finite [OF acc fin]] .
  have heap1: "hm_heap m1 a = Some (Header_Cell \<lparr>nd_key = Some k, nd_value = Some v, nd_next = None\<rparr>)"
    "hm_heap m1 k = Some (Text_Cell (key @ [NUL]))" "hm_heap m1 v = Some (Text_Cell (val @ [NUL]))"
    "\<And>c. c \<notin> {a, k, v} \<Longrightarrow> hm_heap m1 c = hm_heap m c" "dom (hm_heap m1) = dom (hm_heap m) \<union> {a, k, v}"
    using new(2) by (auto simp: m1)
  have own: "set (cells fp) \<subseteq> dom (hm_heap m)" using acc by (auto simp: accounted_def)
  have rep: "represents m1 hs fp"
    using acc own new(3) heap1(4) unfolding accounted_def represents_def
    by (auto simp: m1 intro!: segment_cong [of "hm_heap m"])
  have out: "set (cells fp) \<inter> {a, k, v} = {}" using own new(3) by auto
  obtain m2 where m2: "splice_header (link_at List_Field fp i) a m1 = Ret m2"
    "represents m2 (take i hs @ \<lparr>hkey = key, hvalue = val\<rparr> # drop i hs) (take i fp @ (a, k, v) # drop i fp)"
    "dom (hm_heap m2) = dom (hm_heap m1)" "\<And>c. c \<notin> set (cells fp) \<Longrightarrow> c \<noteq> a \<Longrightarrow> hm_heap m2 c = hm_heap m1 c"
    using splice_header_eq [OF rep i heap1(1), of "\<lparr>hkey = key, hvalue = val\<rparr>"] heap1(2,3) new(2) out by auto
  have parts: "set (cells (take i fp @ (a, k, v) # drop i fp)) = set (cells fp) \<union> {a, k, v}"
  proof -
    have "set (cells fp) = set (cells (take i fp)) \<union> set (cells (drop i fp))"
      by (metis append_take_drop_id cells_simps(3) set_append)
    then show ?thesis by auto
  qed
  have frame1: "\<forall>c\<in>dom h0. hm_heap m1 c = h0 c"
  proof
    fix c assume c: "c \<in> dom h0"
    then have "c \<in> dom (hm_heap m)" using acc by (simp add: accounted_def)
    then show "hm_heap m1 c = h0 c" using new(3) heap1(4) [of c] acc c by (auto simp: accounted_def)
  qed
  have frame2: "\<forall>c\<in>dom h0. hm_heap m2 c = h0 c"
  proof
    fix c assume c: "c \<in> dom h0"
    then have "c \<notin> set (cells fp)" "c \<in> dom (hm_heap m)" using acc by (auto simp: accounted_def)
    then show "hm_heap m2 c = h0 c" using new(3) m2(4) [of c] frame1 c by auto
  qed
  have "accounted h0 m1 hs fp (leaked \<union> {a, k, v})"
    using acc rep heap1(5) new(3) out frame1 unfolding accounted_def by auto
  moreover have "accounted h0 m2 (take i hs @ \<lparr>hkey = key, hvalue = val\<rparr> # drop i hs)
      (take i fp @ (a, k, v) # drop i fp) leaked"
    using acc m2(2) new(3) m2(3) heap1(5) frame2 unfolding accounted_def parts by auto
  moreover have "{a, k, v} \<inter> leaked = {}" using acc new(3) by (auto simp: accounted_def)
  ultimately show ?thesis
    using new(1,2) rep heap1(1,2) m2(1)
    by (intro exI [of _ a] exI [of _ m1] exI [of _ m2] exI [of _ k] exI [of _ v]) (simp add: node_at_def text_at_key)
qed

section \<open>Replacing a value\<close>

lemma replace_value:
  assumes acc: "accounted h0 m (ys @ x # zs) (gp @ (a, k, v) # rest) leaked" and len: "length ys = length gp"
    and fin: "finite (dom h0)" and al: "allocator_ok al"
  shows "\<exists>n m1 v' m2 m3. node_at a m = Ret n \<and> free_cell (nd_value n) m = Ret m1 \<and>
     new_cell al (Text_Cell (val @ [NUL])) m1 = (v', m2) \<and> write_node a (n\<lparr>nd_value := Some v'\<rparr>) m2 = Ret m3 \<and>
     accounted h0 m3 (ys @ x\<lparr>hvalue := val\<rparr> # zs) (gp @ (a, k, v') # rest) leaked"
proof -
  have rep: "represents m (ys @ x # zs) (gp @ (a, k, v) # rest)" using acc by (simp add: accounted_def)
  obtain p where p: "segment (hm_heap m) (hm_list m) ys gp (Some a)" "segment (hm_heap m) p zs rest None"
    "hm_heap m k = Some (Text_Cell (hkey x @ [NUL]))" "hm_heap m v = Some (Text_Cell (hvalue x @ [NUL]))"
    "hm_heap m a = Some (Header_Cell \<lparr>nd_key = Some k, nd_value = Some v, nd_next = p\<rparr>)"
    "distinct (cells (gp @ (a, k, v) # rest))"
    using rep unfolding represents_at [OF len] by blast
  define m1 where "m1 = m\<lparr>hm_heap := (hm_heap m)(v := None)\<rparr>"
  define v' where "v' = al (hm_heap m1)"
  have "finite (dom (hm_heap m1))" using accounted_finite [OF acc fin] by (simp add: m1_def)
  then have v': "hm_heap m1 v' = None" using al unfolding allocator_ok_def v'_def by blast
  define m3 where "m3 = m\<lparr>hm_heap := (hm_heap m)(v := None, v' \<mapsto> Text_Cell (val @ [NUL]),
    a \<mapsto> Header_Cell \<lparr>nd_key = Some k, nd_value = Some v', nd_next = p\<rparr>)\<rparr>"
  have own: "set (cells gp) \<union> {a, k, v} \<union> set (cells rest) \<subseteq> dom (hm_heap m)"
    "set (cells gp) \<union> {a, k, v} \<union> set (cells rest) \<union> leaked \<union> dom h0 = dom (hm_heap m)"
    using acc by (auto simp: accounted_def)
  have new: "v' = v \<or> v' \<notin> dom (hm_heap m)" using v' by (auto simp: m1_def split: if_splits)
  have away: "v' \<noteq> a" "v' \<noteq> k" "v' \<notin> set (cells gp)" "v' \<notin> set (cells rest)" "v \<noteq> a"
    using new own(1) p(6) by auto
  have same: "hm_heap m3 c = hm_heap m c" if "c \<notin> {v, v', a}" for c using that by (simp add: m3_def)
  have seg: "segment (hm_heap m3) (hm_list m) ys gp (Some a)" "segment (hm_heap m3) p zs rest None"
    by (rule segment_cong [OF p(1)] segment_cong [OF p(2)], rule same, use away p(6) in auto)+
  have list: "hm_list m3 = hm_list m" by (simp add: m3_def)
  have rep3: "represents m3 (ys @ x\<lparr>hvalue := val\<rparr> # zs) (gp @ (a, k, v') # rest)"
    unfolding represents_at [OF len] list using seg p(3,6) away by (auto simp: m3_def intro!: exI [of _ p])
  have frame: "\<forall>c\<in>dom h0. hm_heap m3 c = h0 c"
  proof
    fix c assume c: "c \<in> dom h0"
    then have "c \<notin> {v, v', a}" "hm_heap m c = h0 c" using acc new own(2) by (auto simp: accounted_def)
    then show "hm_heap m3 c = h0 c" using same by simp
  qed
  have "accounted h0 m3 (ys @ x\<lparr>hvalue := val\<rparr> # zs) (gp @ (a, k, v') # rest) leaked"
  proof -
    have "dom (hm_heap m3) = dom (hm_heap m) - {v} \<union> {v'}" using p(5) away(5) by (auto simp: m3_def)
    moreover have "v \<notin> dom h0 \<union> leaked \<union> set (cells gp) \<union> {a, k} \<union> set (cells rest)" "v' \<notin> dom h0 \<union> leaked"
      using acc new own p(6) by (auto simp: accounted_def)
    ultimately show ?thesis using acc rep3 frame unfolding accounted_def by auto
  qed
  moreover have "node_at a m = Ret \<lparr>nd_key = Some k, nd_value = Some v, nd_next = p\<rparr>"
    using p(5) by (simp add: node_at_def)
  moreover have "free_cell (Some v) m = Ret m1" using p(4) by (simp add: free_cell_def m1_def)
  ultimately show ?thesis
    using p(5) away(1,5)
    by (intro exI [of _ "\<lparr>nd_key = Some k, nd_value = Some v, nd_next = p\<rparr>"] exI [of _ m1] exI [of _ v']
        exI [of _ "m1\<lparr>hm_heap := (hm_heap m1)(v' \<mapsto> Text_Cell (val @ [NUL]))\<rparr>"] exI [of _ m3])
      (simp add: new_cell_def Let_def write_node_def m3_def m1_def v'_def)
qed

section \<open>Destroying\<close>

lemma destroy_from_segment:
  "segment (hm_heap m) p hs fp None \<Longrightarrow> distinct (cells fp) \<Longrightarrow>
     destroy_from p m = Some (Ret (m\<lparr>hm_heap := hm_heap m |` (- set (cells fp))\<rparr>))"
proof (induction hs arbitrary: p fp m)
  case Nil
  then show ?case by (subst destroy_from.simps, cases fp) (auto simp: restrict_map_def)
next
  case (Cons x hs)
  obtain a k v gp where fp: "fp = (a, k, v) # gp"
    using segment_length [OF Cons.prems(1)] by (cases fp) auto
  obtain n where seg: "p = Some a" "hm_heap m k = Some (Text_Cell (hkey x @ [NUL]))"
    "hm_heap m v = Some (Text_Cell (hvalue x @ [NUL]))"
    "hm_heap m a = Some (Header_Cell \<lparr>nd_key = Some k, nd_value = Some v, nd_next = n\<rparr>)"
    "segment (hm_heap m) n hs gp None"
    using Cons.prems(1) by (auto simp: fp)
  let ?m = "m\<lparr>hm_heap := (hm_heap m)(k := None, v := None, a := None)\<rparr>"
  have one: "destroy_one a m = Ret (n, ?m)"
    using seg(2-4) Cons.prems(2)
    by (simp add: fp destroy_one_def node_at_def free_cell_def write_node_def fun_upd_twist)
  have "segment (hm_heap ?m) n hs gp None"
    by (rule segment_cong [OF seg(5)]) (use Cons.prems(2) in \<open>auto simp: fp\<close>)
  then have "destroy_from n ?m = Some (Ret (?m\<lparr>hm_heap := hm_heap ?m |` (- set (cells gp))\<rparr>))"
    by (rule Cons.IH) (use Cons.prems(2) in \<open>simp add: fp\<close>)
  moreover have "hm_heap ?m |` (- set (cells gp)) = hm_heap m |` (- set (cells fp))"
    by (rule ext) (simp add: fp restrict_map_def)
  then have "?m\<lparr>hm_heap := hm_heap ?m |` (- set (cells gp))\<rparr> = m\<lparr>hm_heap := hm_heap m |` (- set (cells fp))\<rparr>"
    by (metis header_memory.surjective header_memory.update_convs(1))
  ultimately show ?case by (subst destroy_from.simps) (simp only: seg(1) one option.case outcome.case prod.case)
qed

lemma destroy_headers_at_accounted:
  assumes "accounted h0 m hs fp leaked"
  shows "\<exists>m'. destroy_headers_at m = Some (Ret m') \<and> accounted h0 m' [] [] leaked"
proof -
  let ?m = "m\<lparr>hm_list := None\<rparr>"
  let ?m' = "?m\<lparr>hm_heap := hm_heap m |` (- set (cells fp))\<rparr>"
  have "segment (hm_heap ?m) (hm_list m) hs fp None" "distinct (cells fp)"
    using assms by (simp_all add: accounted_def represents_def)
  then have "destroy_headers_at m = Some (Ret ?m')"
    unfolding destroy_headers_at_def using destroy_from_segment [of ?m] by simp
  moreover have "accounted h0 ?m' [] [] leaked"
  proof -
    have parts: "dom (hm_heap m) = dom h0 \<union> set (cells fp) \<union> leaked" "dom h0 \<inter> set (cells fp) = {}"
      "set (cells fp) \<inter> leaked = {}"
      using assms by (simp_all add: accounted_def)
    have "dom (hm_heap ?m') = dom (hm_heap m) \<inter> - set (cells fp)" by simp
    also have "\<dots> = dom h0 \<union> leaked" using parts(2,3) unfolding parts(1) by blast
    finally have "dom (hm_heap ?m') = dom h0 \<union> leaked" .
    moreover have "hm_heap ?m' a = h0 a" if "a \<in> dom h0" for a
      using assms that unfolding accounted_def by (auto simp: restrict_map_def)
    moreover have "represents ?m' [] []" by (simp add: represents_def)
    ultimately show ?thesis using assms unfolding accounted_def by simp
  qed
  ultimately show ?thesis by blast
qed

section \<open>Reading\<close>

definition header_value_of :: "headers \<Rightarrow> cstring \<Rightarrow> cstring option" where
  "header_value_of hs name =
     (case find_header hs name of
        [] \<Rightarrow> None
      | h # t \<Rightarrow> if strcmp (hkey h) name \<noteq> 0 then None else Some (cstr (hvalue h)))"

lemma find_header_suffix: "\<exists>gs. hs = gs @ find_header hs name"
proof (induction hs)
  case (Cons h hs)
  then obtain gs where "hs = gs @ find_header hs name" by blast
  then show ?case by (cases "strcmp (hkey h) name < 0") (auto intro: exI [of _ "h # gs"])
qed simp

lemma value_at_eq:
  assumes "represents m hs fp"
  shows "value_at name m = Some (Ret (header_value_of hs name))"
proof -
  have seg: "segment (hm_heap m) (hm_list m) hs fp None" using assms by (simp add: represents_def)
  note find = find_from_segment [OF seg, of name]
  show ?thesis
  proof (cases "find_header hs name")
    case Nil
    then show ?thesis using find by (simp add: value_at_def header_value_of_def)
  next
    case (Cons h t)
    obtain gs where gs: "hs = gs @ h # t" using find_header_suffix [of hs name] Cons by auto
    then have i: "length hs - length (h # t) = length gs" "length gs < length hs" by simp_all
    obtain a k v where at: "fp ! length gs = (a, k, v)"
        "fp = take (length gs) fp @ (a, k, v) # drop (Suc (length gs)) fp" "length gs = length (take (length gs) fp)"
      using footprint_split [OF seg i(2)] gs by auto
    have "represents m (gs @ h # t) (take (length gs) fp @ (a, k, v) # drop (Suc (length gs)) fp)"
      using assms gs at(2) by simp
    then obtain n where "hm_heap m v = Some (Text_Cell (hvalue h @ [NUL]))"
      "hm_heap m a = Some (Header_Cell \<lparr>nd_key = Some k, nd_value = Some v, nd_next = n\<rparr>)"
      unfolding represents_at [OF at(3)] by blast
    then show ?thesis
      using find Cons i(1) at(1)
      by (simp add: value_at_def header_value_of_def node_at_def text_at_key)
  qed
qed

section \<open>Operations\<close>

datatype header_op =
    Parsed_Header cstring cstring
  | Set_Header cstring cstring
  | Query_Header cstring
  | Destroy_Headers

datatype header_answer = Code http_error_code | Value "cstring option"

fun list_op :: "header_op \<Rightarrow> headers \<Rightarrow> header_answer \<times> headers" where
  "list_op (Parsed_Header key val) hs =
     (let (code, hs') = insert_header hs \<lparr>hkey = key, hvalue = val\<rparr> in (Code code, hs'))"
| "list_op (Set_Header key val) hs = (Code HTTP_ERROR_CODE_SUCCEED, set_header hs key val)"
| "list_op (Query_Header name) hs = (Value (header_value_of hs name), hs)"
| "list_op Destroy_Headers hs = (Code HTTP_ERROR_CODE_SUCCEED, destroy_headers hs)"

fun heap_op :: "allocator \<Rightarrow> header_op \<Rightarrow> header_memory \<Rightarrow> (header_answer \<times> header_memory) run" where
  "heap_op al (Parsed_Header key val) m =
     bindR (store_header_at al key val m) (\<lambda>(code, m'). Some (Ret (Code code, m')))"
| "heap_op al (Set_Header key val) m =
     bindR (set_header_at al key val m) (\<lambda>m'. Some (Ret (Code HTTP_ERROR_CODE_SUCCEED, m')))"
| "heap_op al (Query_Header name) m = bindR (value_at name m) (\<lambda>v. Some (Ret (Value v, m)))"
| "heap_op al Destroy_Headers m =
     bindR (destroy_headers_at m) (\<lambda>m'. Some (Ret (Code HTTP_ERROR_CODE_SUCCEED, m')))"

fun list_ops :: "header_op list \<Rightarrow> headers \<Rightarrow> header_answer list \<times> headers" where
  "list_ops [] hs = ([], hs)"
| "list_ops (op # ops) hs =
     (let (r, hs1) = list_op op hs; (rs, hs2) = list_ops ops hs1 in (r # rs, hs2))"

fun heap_ops :: "allocator \<Rightarrow> header_op list \<Rightarrow> header_memory \<Rightarrow> (header_answer list \<times> header_memory) run" where
  "heap_ops al [] m = Some (Ret ([], m))"
| "heap_ops al (op # ops) m =
     bindR (heap_op al op m) (\<lambda>(r, m1).
     bindR (heap_ops al ops m1) (\<lambda>(rs, m2). Some (Ret (r # rs, m2))))"

text \<open>The header that a rejected insertion leaves behind is three cells.\<close>

abbreviation rejected :: header_answer where
  "rejected \<equiv> Code HTTP_ERROR_CODE_DUPLICATE_HEADER_KEY"

lemma store_header_simulated:
  assumes "accounted h0 m hs fp leaked" "finite (dom h0)" "allocator_ok al"
    and "insert_header hs \<lparr>hkey = key, hvalue = val\<rparr> = (code, hs')"
  shows "\<exists>m' fp' lost. store_header_at al key val m = Some (Ret (code, m')) \<and>
     accounted h0 m' hs' fp' (leaked \<union> lost) \<and> lost \<inter> leaked = {} \<and>
     card lost = (if code = HTTP_ERROR_CODE_DUPLICATE_HEADER_KEY then 3 else 0)"
proof -
  obtain target prev where look: "lookup_header hs key = (target, prev)" by (cases "lookup_header hs key")
  have same: "lookup_header hs (cstr key) = (target, prev)"
  proof -
    have "lookup_header hs (cstr key) = lookup_header hs key" by (induction hs) (simp_all add: strcmp_iffs)
    then show ?thesis using look by simp
  qed
  have i: "prev \<le> length hs" using lookup_header_prefix [OF look] by simp
  obtain a m1 m2 k v where new: "new_header al key val m = (a, m1)" "represents m1 hs fp"
    "node_at a m1 = Ret \<lparr>nd_key = Some k, nd_value = Some v, nd_next = None\<rparr>" "text_at (Some k) m1 = Ret (cstr key)"
    "card {a, k, v} = 3" "accounted h0 m1 hs fp (leaked \<union> {a, k, v})" "{a, k, v} \<inter> leaked = {}"
    "splice_header (link_at List_Field fp prev) a m1 = Ret m2"
    "accounted h0 m2 (take prev hs @ \<lparr>hkey = key, hvalue = val\<rparr> # drop prev hs) (take prev fp @ (a, k, v) # drop prev fp) leaked"
    using splice_new [OF assms(1-3) i, of key val] by blast
  have run: "store_header_at al key val m =
      (if target \<noteq> None then Some (Ret (HTTP_ERROR_CODE_DUPLICATE_HEADER_KEY, m1))
       else Some (Ret (HTTP_ERROR_CODE_SUCCEED, m2)))"
    using new(1,3,4,8) lookup_header_at_eq [OF new(2) same]
    by (auto simp: store_header_at_def insert_header_at_def)
  show ?thesis
  proof (cases "target = None")
    case True
    then show ?thesis
      using run assms(4) look new(9)
      by (intro exI [of _ m2] exI [of _ "take prev fp @ (a, k, v) # drop prev fp"] exI [of _ "{}"])
        (auto simp: insert_header_def)
  next
    case False
    then show ?thesis
      using run assms(4) look new(5-7)
      by (intro exI [of _ m1] exI [of _ fp] exI [of _ "{a, k, v}"]) (auto simp: insert_header_def)
  qed
qed

lemma set_header_simulated:
  assumes acc: "accounted h0 m hs fp leaked" and fin: "finite (dom h0)" and al: "allocator_ok al"
  shows "\<exists>m' fp'. set_header_at al key val m = Some (Ret m') \<and> accounted h0 m' (set_header hs key val) fp' leaked"
proof -
  have rep: "represents m hs fp" using acc by (simp add: accounted_def)
  obtain target prev where look: "lookup_header hs key = (target, prev)" by (cases "lookup_header hs key")
  note at = lookup_header_at_eq [OF rep look]
  show ?thesis
  proof (cases target)
    case None
    have i: "prev \<le> length hs" using lookup_header_prefix [OF look] by simp
    obtain a m1 m2 k v where "new_header al (cstr key) (cstr val) m = (a, m1)"
      "splice_header (link_at List_Field fp prev) a m1 = Ret m2"
      "accounted h0 m2 (take prev hs @ \<lparr>hkey = cstr key, hvalue = cstr val\<rparr> # drop prev hs)
        (take prev fp @ (a, k, v) # drop prev fp) leaked"
      using splice_new [OF acc fin al i, of "cstr key" "cstr val"] by blast
    then show ?thesis
      using at look None by (auto simp: set_header_at_def set_header_def)
  next
    case (Some t)
    have i: "prev < length hs" "hs ! prev = t" using lookup_header_Some look Some by auto
    have seg: "segment (hm_heap m) (hm_list m) hs fp None" using rep by (simp add: represents_def)
    obtain a k v where foc: "fp ! prev = (a, k, v)" "fp = take prev fp @ (a, k, v) # drop (Suc prev) fp"
      "hs = take prev hs @ hs ! prev # drop (Suc prev) hs" "length (take prev hs) = length (take prev fp)"
      using footprint_split [OF seg i(1)] by blast
    have "accounted h0 m (take prev hs @ t # drop (Suc prev) hs) (take prev fp @ (a, k, v) # drop (Suc prev) fp) leaked"
      using acc foc(2,3) i(2) by simp
    from replace_value [OF this foc(4) fin al, of "cstr val"] obtain n m1 v' m2 m3 where
      "node_at a m = Ret n" "free_cell (nd_value n) m = Ret m1"
      "new_cell al (Text_Cell (cstr val @ [NUL])) m1 = (v', m2)" "write_node a (n\<lparr>nd_value := Some v'\<rparr>) m2 = Ret m3"
      "accounted h0 m3 (take prev hs @ t\<lparr>hvalue := cstr val\<rparr> # drop (Suc prev) hs)
        (take prev fp @ (a, k, v') # drop (Suc prev) fp) leaked"
      by blast
    then show ?thesis
      using at look Some foc(1) i(1)
      by (auto simp: set_header_at_def set_header_def upd_conv_take_nth_drop)
  qed
qed

lemma heap_op_simulated:
  assumes acc: "accounted h0 m hs fp leaked" and fin: "finite (dom h0)" and al: "allocator_ok al"
    and op: "list_op op hs = (r, hs')"
  shows "\<exists>m' fp' lost. heap_op al op m = Some (Ret (r, m')) \<and> accounted h0 m' hs' fp' (leaked \<union> lost) \<and>
     lost \<inter> leaked = {} \<and> card lost = (if r = rejected then 3 else 0)"
proof (cases op)
  case (Parsed_Header key val)
  obtain code where "insert_header hs \<lparr>hkey = key, hvalue = val\<rparr> = (code, hs')" "r = Code code"
    using op Parsed_Header by (auto split: prod.splits)
  with store_header_simulated [OF acc fin al] Parsed_Header show ?thesis by fastforce
next
  case (Set_Header key val)
  obtain m' fp' where "set_header_at al key val m = Some (Ret m')" "accounted h0 m' (set_header hs key val) fp' leaked"
    using set_header_simulated [OF acc fin al] by blast
  then show ?thesis
    using Set_Header op by (intro exI [of _ m'] exI [of _ fp'] exI [of _ "{}"]) auto
next
  case (Query_Header name)
  then show ?thesis
    using value_at_eq [of m hs fp name] acc op by (auto simp: accounted_def intro!: exI [of _ fp] exI [of _ "{}"])
next
  case Destroy_Headers
  then show ?thesis
    using destroy_headers_at_accounted [OF acc] op
    by (auto simp: destroy_headers_def intro!: exI [of _ "[]"] exI [of _ "{}"])
qed

lemma heap_ops_simulated:
  assumes fin: "finite (dom h0)" and al: "allocator_ok al"
  shows "accounted h0 m hs fp leaked \<Longrightarrow> list_ops ops hs = (rs, hs') \<Longrightarrow>
     \<exists>m' fp' lost. heap_ops al ops m = Some (Ret (rs, m')) \<and> accounted h0 m' hs' fp' (leaked \<union> lost) \<and>
       lost \<inter> leaked = {} \<and> card lost = 3 * count_list rs rejected"
proof (induction ops arbitrary: m hs fp leaked rs)
  case Nil
  then show ?case by (auto intro!: exI [of _ fp] exI [of _ "{}"])
next
  case (Cons op ops)
  obtain r hs1 where one: "list_op op hs = (r, hs1)" by (cases "list_op op hs")
  then obtain rs1 where rest: "list_ops ops hs1 = (rs1, hs')" "rs = r # rs1"
    using Cons.prems(2) by (auto split: prod.splits)
  obtain m1 fp1 lost1 where m1: "heap_op al op m = Some (Ret (r, m1))" "accounted h0 m1 hs1 fp1 (leaked \<union> lost1)"
    "lost1 \<inter> leaked = {}" "card lost1 = (if r = rejected then 3 else 0)"
    using heap_op_simulated [OF Cons.prems(1) fin al one] by blast
  obtain m2 fp2 lost2 where m2: "heap_ops al ops m1 = Some (Ret (rs1, m2))"
    "accounted h0 m2 hs' fp2 (leaked \<union> lost1 \<union> lost2)" "lost2 \<inter> (leaked \<union> lost1) = {}"
    "card lost2 = 3 * count_list rs1 rejected"
    using Cons.IH [OF m1(2) rest(1)] by blast
  have "finite lost1" "finite lost2" using m2(2) by (auto simp: accounted_def)
  then have "card (lost1 \<union> lost2) = card lost1 + card lost2"
    using m2(3) by (intro card_Un_disjoint) auto
  then show ?case
    using m1 m2 rest(2)
    by (intro exI [of _ m2] exI [of _ fp2] exI [of _ "lost1 \<union> lost2"]) (auto simp: Un_assoc)
qed

section \<open>Properties\<close>

text \<open>
  C8. The pointer program refines the list. Any sequence of insertions of parsed headers, settings,
  queries and destructions on a list in a heap, started with an empty list, ends without a
  fault whatever addresses the allocator gives, returns the answers the functions on HOL
  lists return, leaves a heap that represents the resulting list, and touches nothing that
  was allocated before. It owns exactly three cells for each header of the list, and beside
  them only the cells of rejected duplicates stay allocated, three for each: they are leaked.
\<close>

theorem header_list_refined:
  assumes "allocator_ok al" "finite (dom h0)" "list_ops ops [] = (answers, hs)"
  shows "\<exists>m fp leaked. heap_ops al ops \<lparr>hm_heap = h0, hm_list = None\<rparr> = Some (Ret (answers, m)) \<and>
     represents m hs fp \<and> (\<forall>a\<in>dom h0. hm_heap m a = h0 a) \<and>
     dom (hm_heap m) = dom h0 \<union> set (cells fp) \<union> leaked \<and>
     dom h0 \<inter> (set (cells fp) \<union> leaked) = {} \<and> set (cells fp) \<inter> leaked = {} \<and>
     card (set (cells fp)) = 3 * length hs \<and> card leaked = 3 * count_list answers rejected"
proof -
  have "accounted h0 \<lparr>hm_heap = h0, hm_list = None\<rparr> [] [] {}"
    by (simp add: accounted_def represents_def)
  from heap_ops_simulated [OF assms(2,1) this assms(3)] obtain m fp leaked where
    m: "heap_ops al ops \<lparr>hm_heap = h0, hm_list = None\<rparr> = Some (Ret (answers, m))" "accounted h0 m hs fp leaked"
    "card leaked = 3 * count_list answers rejected"
    by auto
  have "length fp = length hs" "distinct (cells fp)"
    using m(2) segment_length by (auto simp: accounted_def represents_def)
  moreover have "length (cells fp) = 3 * length fp" by (induction fp) auto
  ultimately have "card (set (cells fp)) = 3 * length hs" by (simp add: distinct_card)
  then show ?thesis
    using m by (intro exI [of _ m] exI [of _ fp] exI [of _ leaked]) (auto simp: accounted_def)
qed

text \<open>An allocator that goes upwards, and a heap with one cell of somebody else.\<close>

definition upward :: allocator where
  "upward h = Suc (Max (insert 0 (dom h)))"

lemma upward_ok: "allocator_ok upward"
proof -
  have "h (upward h) = None" if "finite (dom h)" for h
  proof (rule ccontr)
    assume "h (upward h) \<noteq> None"
    then have "upward h \<le> Max (insert 0 (dom h))" using that by (intro Max_ge) auto
    then show False by (simp add: upward_def)
  qed
  then show ?thesis by (simp add: allocator_ok_def)
qed

lemma header_list_refined_witness:
  "\<exists>m fp leaked. heap_ops upward
       [Parsed_Header ''Host'' ''a'', Set_Header ''Date'' ''b'', Parsed_Header ''Host'' ''c'', Query_Header ''Host'',
        Destroy_Headers] \<lparr>hm_heap = [5 \<mapsto> Text_Cell ''x''], hm_list = None\<rparr> =
     Some (Ret ([Code HTTP_ERROR_CODE_SUCCEED, Code HTTP_ERROR_CODE_SUCCEED, rejected, Value (Some ''a''),
                 Code HTTP_ERROR_CODE_SUCCEED], m)) \<and>
     represents m [] fp \<and> hm_heap m 5 = Some (Text_Cell ''x'') \<and> dom (hm_heap m) = {5} \<union> leaked \<and> card leaked = 3"
proof -
  have run: "list_ops
       [Parsed_Header ''Host'' ''a'', Set_Header ''Date'' ''b'', Parsed_Header ''Host'' ''c'', Query_Header ''Host'',
        Destroy_Headers] [] =
     ([Code HTTP_ERROR_CODE_SUCCEED, Code HTTP_ERROR_CODE_SUCCEED, rejected, Value (Some ''a''),
       Code HTTP_ERROR_CODE_SUCCEED], [])"
    by (simp add: insert_header_def set_header_def header_value_of_def destroy_headers_def cstr_def)
  have fin: "finite (dom [5 \<mapsto> Text_Cell ''x''])" by simp
  from header_list_refined [OF upward_ok fin run] obtain m fp leaked where
    m: "heap_ops upward
       [Parsed_Header ''Host'' ''a'', Set_Header ''Date'' ''b'', Parsed_Header ''Host'' ''c'', Query_Header ''Host'',
        Destroy_Headers] \<lparr>hm_heap = [5 \<mapsto> Text_Cell ''x''], hm_list = None\<rparr> =
     Some (Ret ([Code HTTP_ERROR_CODE_SUCCEED, Code HTTP_ERROR_CODE_SUCCEED, rejected, Value (Some ''a''),
                 Code HTTP_ERROR_CODE_SUCCEED], m))" "represents m [] fp"
    "\<forall>a\<in>{5}. hm_heap m a = [5 \<mapsto> Text_Cell ''x''] a"
    "dom (hm_heap m) = {5} \<union> set (cells fp) \<union> leaked" "card (set (cells fp)) = 0"
    "card leaked = 3"
    by auto
  then have "set (cells fp) = {}" by simp
  with m show ?thesis by (intro exI [of _ m] exI [of _ fp] exI [of _ leaked]) simp
qed

end
