(* ===== verification/Event_Loop.thy ===== *)
theory Event_Loop
  imports Connection
begin

text \<open>
  The top of \<open>server.c\<close>: \<open>listen_address\<close>, \<open>listen_addresses\<close>, \<open>accept_connection\<close> and \<open>main\<close>.

  The kernel is given by what its calls answer: for a listening address whether \<open>socket\<close>, \<open>bind\<close>
  and \<open>listen\<close> succeed; for an event of \<open>epoll_wait\<close> its bits, the node it was registered with
  and, should it be a listening one, what \<open>accept\<close> gives. The interest list of epoll is not a
  part of the state: a closed descriptor leaves it by itself, and \<open>data.ptr\<close> comes back in the
  event.
\<close>

unbundle bit_operations_syntax

section \<open>Listening\<close>

record listen_target =
  lt_family :: address_family
  lt_socket :: "int option"         \<comment> \<open>the descriptor, or failure\<close>
  lt_bound :: bool
  lt_listening :: bool
  lt_fresh :: fresh_connection

definition listen_address :: "bool \<Rightarrow> listen_target \<Rightarrow> 'w server \<Rightarrow> 'w server outcome" where
  "listen_address ndebug t s =
     bindO (if lt_family t = AF_INET then Ret () else c_assert ndebug (lt_family t = AF_INET6)) (\<lambda>_.
       case lt_socket t of
         None \<Rightarrow> Ret s
       | Some fd \<Rightarrow>
           if \<not> lt_bound t then Ret s
           else if \<not> lt_listening t then Ret s
           else bindO (register_file_descriptor ndebug (lt_fresh t) fd LISTEN_SOCKET s) (\<lambda>(_, s'). Ret s'))"

text \<open>\<open>None\<close>: \<open>getaddrinfo\<close> fails.\<close>

fun listen_all :: "bool \<Rightarrow> listen_target list \<Rightarrow> 'w server \<Rightarrow> 'w server outcome" where
  "listen_all ndebug [] s = Ret s"
| "listen_all ndebug (t # ts) s = bindO (listen_address ndebug t s) (listen_all ndebug ts)"

definition listen_addresses :: "bool \<Rightarrow> listen_target list option \<Rightarrow> 'w server \<Rightarrow> 'w server outcome" where
  "listen_addresses ndebug result s =
     (case result of None \<Rightarrow> Ret s | Some targets \<Rightarrow> listen_all ndebug targets s)"

section \<open>Accepting\<close>

text \<open>The node registered with epoll, if any, and the server.\<close>

definition accept_connection ::
  "bool \<Rightarrow> environment \<Rightarrow> 'w net \<Rightarrow> int option \<Rightarrow> fresh_connection \<Rightarrow> 'w server \<Rightarrow>
     (addr option \<times> 'w server) outcome" where
  "accept_connection ndebug env net accepted fresh s =
     (case accepted of
        None \<Rightarrow> Ret (None, s)
      | Some fd \<Rightarrow>
          let address = env_sockname env fd
          in if ss_family address \<noteq> AF_INET \<and> ss_family address \<noteq> AF_INET6
             then Ret (None, close_descriptor net fd s)
             else
               let port = unat (get_port address)
               in if port \<noteq> HTTPPort ndebug \<and> port \<noteq> HTTPSPort ndebug
                  then Ret (None, close_descriptor net fd s)
                  else bindO (register_file_descriptor ndebug fresh fd
                                (if port = HTTPPort ndebug then TCP_SOCKET else TLS_SOCKET) s) (\<lambda>(a, s').
                         Ret (Some a, s')))"

section \<open>The loop\<close>

definition EPOLLERR :: "32 word" where "EPOLLERR = 0x8"
definition EPOLLHUP :: "32 word" where "EPOLLHUP = 0x10"
definition EPOLLRDHUP :: "32 word" where "EPOLLRDHUP = 0x2000"

record ready_event =
  ev_bits :: "32 word"
  ev_node :: addr
  ev_env :: environment
  ev_accepted :: "int option"
  ev_fresh :: fresh_connection

text \<open>One turn of the \<open>for\<close> loop of \<open>main\<close>; the flag says whether it is left.\<close>

definition handle_event :: "bool \<Rightarrow> 'w net \<Rightarrow> ready_event \<Rightarrow> 'w server \<Rightarrow> ('w server \<times> bool) run" where
  "handle_event ndebug net e s =
     (if ev_bits e AND (EPOLLERR OR EPOLLHUP OR EPOLLRDHUP) \<noteq> 0
      then bindR (destroy_file_information net (ev_node e) s) (\<lambda>s'.
             if sv_head s' = None then Some (Ret (s'\<lparr>sv_running := False\<rparr>, True))
             else Some (Ret (s', False)))
      else
        case sv_heap s (ev_node e) of
          None \<Rightarrow> Some (Fault Use_After_Free)
        | Some node \<Rightarrow>
            if fd_type node = LISTEN_SOCKET
            then bindR (Some (c_assert ndebug (ev_bits e AND EPOLLIN \<noteq> 0))) (\<lambda>_.
                 bindR (Some (accept_connection ndebug (ev_env e) net (ev_accepted e) (ev_fresh e) s)) (\<lambda>(_, s').
                   Some (Ret (s', False))))
            else bindR (handle_connection ndebug (ev_env e) net (ev_bits e) (ev_node e) s) (\<lambda>s'.
                   Some (Ret (s', False))))"

fun handle_events :: "bool \<Rightarrow> 'w net \<Rightarrow> ready_event list \<Rightarrow> 'w server \<Rightarrow> 'w server run" where
  "handle_events ndebug net [] s = Some (Ret s)"
| "handle_events ndebug net (e # es) s =
     bindR (handle_event ndebug net e s) (\<lambda>(s', stop).
       if stop then Some (Ret s') else handle_events ndebug net es s')"

text \<open>
  The \<open>while\<close> loop over the answers of \<open>epoll_wait\<close>, in the order they come; when there is none
  left, the server is waiting.
\<close>

fun main_loop :: "bool \<Rightarrow> 'w net \<Rightarrow> ready_event list list \<Rightarrow> 'w server \<Rightarrow> 'w server run" where
  "main_loop ndebug net [] s = Some (Ret s)"
| "main_loop ndebug net (batch # batches) s =
     (if sv_running s
      then bindR (handle_events ndebug net batch s) (main_loop ndebug net batches)
      else Some (Ret s))"

text \<open>\<open>main\<close> up to the loop, with the answers of \<open>getaddrinfo\<close> for the two ports; and all of it.\<close>

definition start_server ::
  "bool \<Rightarrow> environment \<Rightarrow> listen_target list option \<Rightarrow> listen_target list option \<Rightarrow> 'w server \<Rightarrow>
     'w server outcome" where
  "start_server ndebug env http https s =
     bindO (get_authorization_code ndebug (env_random env) (sv_code s)) (\<lambda>(_, st).
     bindO (listen_addresses ndebug http (s\<lparr>sv_code := st\<rparr>)) (\<lambda>s.
       listen_addresses ndebug https s))"

definition server_main ::
  "bool \<Rightarrow> environment \<Rightarrow> 'w net \<Rightarrow> listen_target list option \<Rightarrow> listen_target list option \<Rightarrow>
     ready_event list list \<Rightarrow> 'w server \<Rightarrow> 'w server run" where
  "server_main ndebug env net http https batches s =
     bindR (Some (start_server ndebug env http https s)) (\<lambda>s.
     bindR (main_loop ndebug net batches s) (\<lambda>s.
       if sv_running s then Some (Ret s) else close_all_file_descriptors net s))"

end
