(* ===== verification/Event_Loop_Properties.thy ===== *)
theory Event_Loop_Properties
  imports Event_Loop Connection_Loops
begin

text \<open>
  What each function of the server does to the variables of the process - the flag that keeps it
  running, the log level, the authorization code, the cached working directory - up to a
  whole call of \<open>handle_connection\<close>.
\<close>

section \<open>The variables of the process\<close>

definition statics :: "'w server \<Rightarrow> bool \<times> log_level \<times> string option \<times> string option" where
  "statics s = (sv_running s, sv_log_level s, sv_code s, sv_cwd s)"

lemma statics_simps [simp]:
  "statics (put_connection a c s) = statics s"
  "statics (s\<lparr>sv_world := w\<rparr>) = statics s" "statics (s\<lparr>sv_heap := h\<rparr>) = statics s"
  "statics (s\<lparr>sv_head := p\<rparr>) = statics s" "statics (s\<lparr>sv_closed := l\<rparr>) = statics s"
  "statics (s\<lparr>sv_credentials := cr\<rparr>) = statics s"
  "statics (close_descriptor net fd s) = statics s"
  by (simp_all add: statics_def put_connection_def close_descriptor_def)

lemma write_link_statics: "write_link l n s = Ret s' \<Longrightarrow> statics s' = statics s"
  by (cases "(l, n, s)" rule: write_link.cases) (auto split: option.splits)

lemma destroy_statics: "destroy_file_information net a s = Some (Ret s') \<Longrightarrow> statics s' = statics s"
  by (auto simp: destroy_file_information_def outcome_simps dest!: write_link_statics split: option.splits)

lemma register_statics: "register_file_descriptor ndebug fresh fd type s = Ret (a, s') \<Longrightarrow> statics s' = statics s"
  by (auto simp: register_file_descriptor_def bindO_Ret_iff statics_def split: if_splits prod.splits)

lemma send_response_statics: "send_response net a c s = Some (Ret s') \<Longrightarrow> statics s' = statics s"
  unfolding send_response_def Let_def
  by (auto simp: outcome_simps dest!: destroy_statics split: if_splits)

section \<open>The transaction\<close>

text \<open>A request that carries the code, as the comparison in the server sees it.\<close>

definition carries_code :: "environment \<Rightarrow> http_request \<Rightarrow> string \<Rightarrow> bool" where
  "carries_code env q secret \<longleftrightarrow>
     (\<exists>block. get_request_header (env_junk env) q ''Authorization'' = Ret (Some block) \<and> prefix secret block)"

lemma perform_magic_call_statics:
  "perform_magic_call url (r, s) = Ret (r', s') \<Longrightarrow>
     sv_code s' = sv_code s \<and> sv_cwd s' = sv_cwd s \<and>
     (sv_log_level s \<le> LOGGING_LOG_LEVEL_OFF \<longrightarrow> sv_log_level s' \<le> LOGGING_LOG_LEVEL_OFF)"
  by (auto simp: perform_magic_call_def bindO_Ret_iff logging_set_level_bound split: if_splits)

lemma handle_magic_call_statics:
  assumes "handle_magic_call ndebug env q url (r, s) = Ret (r', s')"
    and "sv_code s = Some secret" "length secret = AuthorizationCodeLength"
  shows "sv_code s' = sv_code s \<and> sv_cwd s' = sv_cwd s \<and>
     (sv_log_level s \<le> LOGGING_LOG_LEVEL_OFF \<longrightarrow> sv_log_level s' \<le> LOGGING_LOG_LEVEL_OFF) \<and>
     (statics s' = statics s \<or> carries_code env q secret)"
proof -
  obtain hdr where hdr: "get_request_header (env_junk env) q ''Authorization'' = Ret hdr"
    using assms(1) by (auto simp: handle_magic_call_def bindO_Ret_iff)
  have s: "s\<lparr>sv_code := Some secret\<rparr> = s" using assms(2) by (cases s) simp
  show ?thesis
  proof (cases hdr)
    case None
    then show ?thesis using assms(1) hdr by (auto simp: handle_magic_call_def bindO_Ret_iff)
  next
    case (Some block)
    then obtain k where k: "memcmp block secret AuthorizationCodeLength = Ret k"
      using assms(1,2) hdr by (auto simp: handle_magic_call_def bindO_Ret_iff get_authorization_code_def)
    then have len: "AuthorizationCodeLength \<le> length block" by (auto simp: memcmp_def split: if_splits)
    show ?thesis
    proof (cases "k = 0")
      case True
      then have "take AuthorizationCodeLength block = secret"
        using memcmp_cases [OF len, of secret] assms(3) k by auto
      then have "prefix secret block" by (metis take_is_prefix)
      then have "carries_code env q secret" using hdr Some by (auto simp: carries_code_def)
      moreover have "perform_magic_call url (r, s) = Ret (r', s')"
        using assms(1,2) hdr Some k True
        by (simp add: handle_magic_call_def get_authorization_code_def Let_def s)
      ultimately show ?thesis using perform_magic_call_statics by blast
    next
      case False
      then have "s' = s"
        using assms(1,2) hdr Some k
        by (auto simp: handle_magic_call_def get_authorization_code_def Let_def s bindO_Ret_iff)
      then show ?thesis by simp
    qed
  qed
qed

lemma handle_file_request_statics:
  assumes "handle_file_request ndebug env q url (r, s) = Ret (r', s')"
  shows "sv_running s' = sv_running s \<and> sv_log_level s' = sv_log_level s \<and> sv_code s' = sv_code s \<and>
    (cwd_ok (sv_cwd s) \<longrightarrow> cwd_ok (sv_cwd s'))"
  using assms unfolding handle_file_request_def Let_def
  by (auto simp: bindO_Ret_iff dest!: current_working_directory_ok split: option.splits if_splits)

lemma transaction_statics:
  assumes "handle_http_transaction ndebug env type fd (c, s) = Ret (c', s')"
    and "sv_code s = Some secret" "length secret = AuthorizationCodeLength"
  shows "sv_code s' = sv_code s \<and> (cwd_ok (sv_cwd s) \<longrightarrow> cwd_ok (sv_cwd s')) \<and>
     (sv_log_level s \<le> LOGGING_LOG_LEVEL_OFF \<longrightarrow> sv_log_level s' \<le> LOGGING_LOG_LEVEL_OFF) \<and>
     ((sv_running s', sv_log_level s') = (sv_running s, sv_log_level s) \<or>
      type \<noteq> TCP_SOCKET \<and> carries_code env (conn_request c) secret)"
proof -
  obtain url n r where "(if type = TCP_SOCKET
        then bindO (redirect_to_tls ndebug env fd url n (conn_response c)) (\<lambda>r. Ret (r, s))
        else if strncmp url magic_prefix 12 = 0
        then handle_magic_call ndebug env (conn_request c) url (conn_response c, s)
        else handle_file_request ndebug env (conn_request c) url (conn_response c, s)) = Ret (r, s')"
    using assms(1) unfolding handle_http_transaction_def Let_def
    by (auto simp: bindO_Ret_iff split: prod.splits)
  then show ?thesis
    using handle_magic_call_statics [OF _ assms(2,3)] handle_file_request_statics
    by (fastforce simp: statics_def bindO_Ret_iff split: if_splits)
qed

section \<open>The handler\<close>

text \<open>
  A request arrived on the connection at \<open>a\<close>, in the state \<open>s\<close> of the server, that the handler
  parsed and passed on.
\<close>

definition arrived :: "environment \<Rightarrow> 'w net \<Rightarrow> addr \<Rightarrow> 'w server \<Rightarrow> file_descriptor_type \<Rightarrow> http_request \<Rightarrow> bool" where
  "arrived env net a s type q \<longleftrightarrow>
     (\<exists>node c pages page t w buf b.
        sv_heap s a = Some node \<and> fd_type node = type \<and> fd_connection node = Some c \<and>
        receive_loop (conn_recv net (conn_fd c)) [] [] (conn_transport c, sv_world s) =
          Some (Ret (Drained, pages, page, t, w)) \<and>
        store_received (env_junk env) (conn_buffer c) pages page = Ret buf \<and> buf_block buf = Live b \<and>
        http_request_from_buffer (conn_request c) (drop (buf_start buf) b) (size_sub (buf_end buf) (buf_start buf)) =
          Ret (HTTP_ERROR_CODE_SUCCEED, q))"

lemma answer_statics:
  assumes "answer ndebug env type fd (c, s) = Ret (c', s')"
  shows "statics s' = statics s \<or>
    (\<exists>b q c1 s1. buf_block (conn_buffer c) = Live b \<and>
       http_request_from_buffer (conn_request c) (drop (buf_start (conn_buffer c)) b)
         (size_sub (buf_end (conn_buffer c)) (buf_start (conn_buffer c))) = Ret (HTTP_ERROR_CODE_SUCCEED, q) \<and>
       handle_http_transaction ndebug env type fd (c\<lparr>conn_request := q\<rparr>, s) = Ret (c1, s1) \<and>
       statics s' = statics s1)"
  using assms unfolding answer_def Let_def
  by (auto simp: bindO_Ret_iff deref_Ret_iff split: prod.splits if_splits)

text \<open>What one call of the handler may do to the variables of the process.\<close>

definition keeps_process :: "environment \<Rightarrow> 'w net \<Rightarrow> addr \<Rightarrow> string \<Rightarrow> 'w server \<Rightarrow> 'w server \<Rightarrow> bool" where
  "keeps_process env net a secret s s' \<longleftrightarrow>
     sv_code s' = sv_code s \<and> (cwd_ok (sv_cwd s) \<longrightarrow> cwd_ok (sv_cwd s')) \<and>
     (sv_log_level s \<le> LOGGING_LOG_LEVEL_OFF \<longrightarrow> sv_log_level s' \<le> LOGGING_LOG_LEVEL_OFF) \<and>
     ((sv_running s', sv_log_level s') = (sv_running s, sv_log_level s) \<or>
      (\<exists>type q. type \<noteq> TCP_SOCKET \<and> arrived env net a s type q \<and> carries_code env q secret))"

lemma keeps_process_statics: "statics s' = statics s \<Longrightarrow> keeps_process env net a secret s s'"
  by (auto simp: keeps_process_def statics_def)

lemma keeps_process_then:
  "keeps_process env net a secret s s' \<Longrightarrow> statics s'' = statics s' \<Longrightarrow> keeps_process env net a secret s s''"
  by (auto simp: keeps_process_def statics_def)

lemma receive_request_keeps:
  assumes heap: "sv_heap s a = Some node" and conn: "fd_connection node = Some c"
    and run: "receive_request ndebug env net a node c s = Some (Ret (c', s'))"
    and secret: "sv_code s = Some secret" "length secret = AuthorizationCodeLength"
  shows "keeps_process env net a secret s s'"
proof -
  obtain result pages page t w where loop: "receive_loop (conn_recv net (conn_fd c)) [] [] (conn_transport c, sv_world s) =
      Some (Ret (result, pages, page, t, w))"
    using run unfolding receive_request_def by (auto simp: outcome_simps)
  define c1 where "c1 = c\<lparr>conn_transport := t\<rparr>"
  define s1 where "s1 = put_connection a c1 (s\<lparr>sv_world := w\<rparr>)"
  have st: "statics s1 = statics s" by (simp add: s1_def)
  note run' = run [unfolded receive_request_def Let_def loop, simplified, folded c1_def, folded s1_def]
  show ?thesis
  proof (cases "result = Broken \<or> total_size pages page = 0")
    case True
    then show ?thesis
      using run' st by (auto simp: outcome_simps dest!: destroy_statics intro!: keeps_process_statics split: if_splits)
  next
    case False
    then obtain buf c2 s2 where buf: "store_received (env_junk env) (conn_buffer c1) pages page = Ret buf"
      and ans: "answer ndebug env (fd_type node) (file_descriptor node) (c1\<lparr>conn_buffer := buf\<rparr>, s1) = Ret (c2, s2)"
      and s': "statics s' = statics s2"
      using run' by (auto simp: outcome_simps)
    have res: "result = Drained" using False by (cases result) auto
    from answer_statics [OF ans] show ?thesis
    proof (elim disjE exE conjE)
      assume "statics s2 = statics s1"
      then show ?thesis using st s' by (simp add: keeps_process_statics)
    next
      fix b q c3 s3
      assume b: "buf_block (conn_buffer (c1\<lparr>conn_buffer := buf\<rparr>)) = Live b"
        and q: "http_request_from_buffer (conn_request (c1\<lparr>conn_buffer := buf\<rparr>))
          (drop (buf_start (conn_buffer (c1\<lparr>conn_buffer := buf\<rparr>))) b)
          (size_sub (buf_end (conn_buffer (c1\<lparr>conn_buffer := buf\<rparr>))) (buf_start (conn_buffer (c1\<lparr>conn_buffer := buf\<rparr>)))) =
          Ret (HTTP_ERROR_CODE_SUCCEED, q)"
        and tr: "handle_http_transaction ndebug env (fd_type node) (file_descriptor node)
          ((c1\<lparr>conn_buffer := buf\<rparr>)\<lparr>conn_request := q\<rparr>, s1) = Ret (c3, s3)"
        and s3: "statics s2 = statics s3"
      have arr: "arrived env net a s (fd_type node) q"
        unfolding arrived_def
        using heap conn loop res buf b q by (auto simp: c1_def)
      have "sv_code s1 = Some secret" using st secret(1) by (simp add: statics_def)
      from transaction_statics [OF tr this secret(2)] have "keeps_process env net a secret s s3"
        using st arr by (auto simp: keeps_process_def statics_def)
      then show ?thesis using s3 s' by (auto intro: keeps_process_then)
    qed
  qed
qed

lemma handle_connection_keeps:
  assumes run: "handle_connection ndebug env net event a s = Some (Ret s')"
    and secret: "sv_code s = Some secret" "length secret = AuthorizationCodeLength"
  shows "keeps_process env net a secret s s'"
proof -
  obtain node c where heap: "sv_heap s a = Some node" and conn: "fd_connection node = Some c"
    using run by (auto simp: handle_connection_def split: option.splits)
  show ?thesis
  proof (cases "statics s' = statics s")
    case True
    then show ?thesis by (rule keeps_process_statics)
  next
    case False
    obtain c' s1 where got: "receive_request ndebug env net a node c s = Some (Ret (c', s1))"
      and s1: "statics s' = statics s1"
      using run False heap conn
      by (auto simp: handle_connection_def outcome_simps dest: send_response_statics
          split: if_splits option.splits)
    show ?thesis by (rule keeps_process_then [OF receive_request_keeps [OF heap conn got secret] s1])
  qed
qed

end
