(* ===== verification/Server_Runs.thy ===== *)
theory Server_Runs
  imports Event_Loop_Properties
begin

text \<open>
  The loop of \<open>main\<close> as a step relation over handled events, the simulation of the loop by it,
  and the invariant of its reachable states: what it takes to stop the server or to change
  its log level. Then how an accepted connection is registered.
\<close>

section \<open>Steps\<close>

text \<open>
  A run from \<open>s0\<close> to a state, with the events handled on the way and the states they were
  handled in. There is no guard on \<open>sv_running\<close>: the loop tests it once for a batch of events.
\<close>

inductive server_run :: "bool \<Rightarrow> 'w net \<Rightarrow> 'w server \<Rightarrow> ('w server \<times> ready_event) list \<Rightarrow> 'w server \<Rightarrow> bool"
  for ndebug net s0 where
  Begin: "server_run ndebug net s0 [] s0"
| Handle: "server_run ndebug net s0 h s \<Longrightarrow> handle_event ndebug net e s = Some (Ret (s', stop)) \<Longrightarrow>
     server_run ndebug net s0 (h @ [(s, e)]) s'"

inductive_simps server_run_Nil [simp]: "server_run ndebug net s0 [] s"
inductive_cases server_run_snocE: "server_run ndebug net s0 (h @ [x]) s"

lemma server_run_one:
  "handle_event ndebug net e s = Some (Ret (s', stop)) \<Longrightarrow> server_run ndebug net s [(s, e)] s'"
  using Handle [OF Begin, of ndebug net e s s' stop] by simp

lemma server_run_append:
  "server_run ndebug net s1 h2 s2 \<Longrightarrow> server_run ndebug net s0 h1 s1 \<Longrightarrow> server_run ndebug net s0 (h1 @ h2) s2"
proof (induction rule: server_run.induct)
  case Begin
  then show ?case by simp
next
  case (Handle h s e s' stop)
  then show ?case using server_run.Handle [of ndebug net s0 "h1 @ h" s e s' stop] by simp
qed

lemma handle_events_run:
  "handle_events ndebug net es s = Some (Ret s') \<Longrightarrow>
     \<exists>h. server_run ndebug net s h s' \<and> length h \<le> length es \<and> map snd h = take (length h) es"
proof (induction es arbitrary: s)
  case Nil
  then show ?case by (intro exI [of _ "[]"]) simp
next
  case (Cons e es)
  obtain s1 stop where e: "handle_event ndebug net e s = Some (Ret (s1, stop))"
    and rest: "(if stop then Some (Ret s1) else handle_events ndebug net es s1) = Some (Ret s')"
    using Cons.prems by (auto simp: outcome_simps)
  note one = server_run_one [OF e]
  show ?case
  proof (cases stop)
    case True
    then show ?thesis using one rest by (intro exI [of _ "[(s, e)]"]) simp
  next
    case False
    then obtain h where "server_run ndebug net s1 h s'" "length h \<le> length es" "map snd h = take (length h) es"
      using Cons.IH rest by auto
    then show ?thesis
      using server_run_append [OF _ one, of h s'] by (intro exI [of _ "(s, e) # h"]) simp
  qed
qed

text \<open>The loop only makes steps of the relation, on events of the batches.\<close>

lemma main_loop_run:
  "main_loop ndebug net batches s = Some (Ret s') \<Longrightarrow>
     \<exists>h. server_run ndebug net s h s' \<and> set (map snd h) \<subseteq> set (concat batches)"
proof (induction batches arbitrary: s)
  case Nil
  then show ?case by (intro exI [of _ "[]"]) simp
next
  case (Cons batch batches)
  show ?case
  proof (cases "sv_running s")
    case True
    then obtain s1 where b: "handle_events ndebug net batch s = Some (Ret s1)"
      and rest: "main_loop ndebug net batches s1 = Some (Ret s')"
      using Cons.prems by (auto simp: outcome_simps)
    obtain h1 where h1: "server_run ndebug net s h1 s1" "map snd h1 = take (length h1) batch"
      using handle_events_run [OF b] by blast
    obtain h2 where h2: "server_run ndebug net s1 h2 s'" "set (map snd h2) \<subseteq> set (concat batches)"
      using Cons.IH [OF rest] by blast
    have "set (map snd h1) \<subseteq> set batch" unfolding h1(2) by (rule set_take_subset)
    then show ?thesis
      using server_run_append [OF h2(1) h1(1)] h2(2) by (intro exI [of _ "h1 @ h2"]) auto
  next
    case False
    then show ?thesis using Cons.prems by (intro exI [of _ "[]"]) simp
  qed
qed

section \<open>Who controls the server\<close>

text \<open>An event that brings a request with the code over TLS, and one that ends a descriptor.\<close>

definition authorised :: "'w net \<Rightarrow> string \<Rightarrow> 'w server \<times> ready_event \<Rightarrow> bool" where
  "authorised net secret x \<longleftrightarrow>
     (case x of (s, e) \<Rightarrow>
        \<exists>q. arrived (ev_env e) net (ev_node e) s TLS_SOCKET q \<and> carries_code (ev_env e) q secret)"

definition hung_up :: "ready_event \<Rightarrow> bool" where
  "hung_up e \<longleftrightarrow> ev_bits e AND (EPOLLERR OR EPOLLHUP OR EPOLLRDHUP) \<noteq> 0"

lemma register_types:
  "register_file_descriptor ndebug fresh fd type s = Ret (a, s') \<Longrightarrow>
     sv_heap s' = (sv_heap s)(a := sv_heap s' a) \<and> sv_head s' = Some a \<and>
     (\<exists>node. sv_heap s' a = Some node \<and> fd_type node = type \<and> file_descriptor node = fd)"
  by (auto simp: register_file_descriptor_def bindO_Ret_iff split: if_splits prod.splits)

lemma accept_statics:
  "accept_connection ndebug env net accepted fresh s = Ret (r, s') \<Longrightarrow> statics s' = statics s"
  by (auto simp: accept_connection_def Let_def bindO_Ret_iff dest!: register_statics
      split: option.splits if_splits)

text \<open>The event ends the last descriptor of the list.\<close>

definition last_gone :: "'w net \<Rightarrow> 'w server \<times> ready_event \<Rightarrow> bool" where
  "last_gone net x \<longleftrightarrow>
     (case x of (s, e) \<Rightarrow>
        hung_up e \<and> (\<exists>s'. destroy_file_information net (ev_node e) s = Some (Ret s') \<and> sv_head s' = None))"

text \<open>What one event does to the variables of the process.\<close>

lemma handle_event_keeps:
  assumes run: "handle_event ndebug net e s = Some (Ret (s', stop))"
    and secret: "sv_code s = Some secret" "length secret = AuthorizationCodeLength"
  shows "sv_code s' = sv_code s" "cwd_ok (sv_cwd s) \<Longrightarrow> cwd_ok (sv_cwd s')"
    "sv_log_level s \<le> LOGGING_LOG_LEVEL_OFF \<Longrightarrow> sv_log_level s' \<le> LOGGING_LOG_LEVEL_OFF"
    "authorised net secret (s, e) \<or> sv_log_level s' = sv_log_level s \<and>
      (sv_running s' = sv_running s \<or> last_gone net (s, e))"
proof -
  have "sv_code s' = sv_code s \<and> (cwd_ok (sv_cwd s) \<longrightarrow> cwd_ok (sv_cwd s')) \<and>
    (sv_log_level s \<le> LOGGING_LOG_LEVEL_OFF \<longrightarrow> sv_log_level s' \<le> LOGGING_LOG_LEVEL_OFF) \<and>
    (authorised net secret (s, e) \<or> sv_log_level s' = sv_log_level s \<and>
      (sv_running s' = sv_running s \<or> last_gone net (s, e)))"
  proof (cases "hung_up e")
    case True
    then have "\<exists>s1. destroy_file_information net (ev_node e) s = Some (Ret s1) \<and>
        s' = (if sv_head s1 = None then s1\<lparr>sv_running := False\<rparr> else s1)"
      using run by (auto simp: handle_event_def hung_up_def outcome_simps split: if_splits)
    then obtain s1 where s1: "destroy_file_information net (ev_node e) s = Some (Ret s1)"
      and s': "s' = (if sv_head s1 = None then s1\<lparr>sv_running := False\<rparr> else s1)" by blast
    have gone: "last_gone net (s, e)" if "sv_head s1 = None"
      using True s1 that by (auto simp: last_gone_def)
    show ?thesis
      using destroy_statics [OF s1] gone by (auto simp: s' statics_def)
  next
    case False
    then obtain node where node: "sv_heap s (ev_node e) = Some node"
      using run by (auto simp: handle_event_def hung_up_def split: option.splits)
    show ?thesis
    proof (cases "fd_type node = LISTEN_SOCKET")
      case True
      then show ?thesis
        using run node False
        by (auto simp: handle_event_def hung_up_def outcome_simps statics_def dest!: accept_statics)
    next
      case conn: False
      then have h: "handle_connection ndebug (ev_env e) net (ev_bits e) (ev_node e) s = Some (Ret s')"
        using run node False by (auto simp: handle_event_def hung_up_def outcome_simps)
      have tls: "authorised net secret (s, e)" if "type \<noteq> TCP_SOCKET"
          "arrived (ev_env e) net (ev_node e) s type q" "carries_code (ev_env e) q secret" for type q
      proof -
        have "type = TLS_SOCKET" using that(1,2) conn node by (cases type) (auto simp: arrived_def)
        then show ?thesis using that by (auto simp: authorised_def)
      qed
      show ?thesis
        using handle_connection_keeps [OF h secret] tls by (auto simp: keeps_process_def)
    qed
  qed
  then show "sv_code s' = sv_code s" "cwd_ok (sv_cwd s) \<Longrightarrow> cwd_ok (sv_cwd s')"
    "sv_log_level s \<le> LOGGING_LOG_LEVEL_OFF \<Longrightarrow> sv_log_level s' \<le> LOGGING_LOG_LEVEL_OFF"
    "authorised net secret (s, e) \<or> sv_log_level s' = sv_log_level s \<and>
      (sv_running s' = sv_running s \<or> last_gone net (s, e))"
    by blast+
qed

lemma server_run_keeps:
  assumes "server_run ndebug net s0 h s"
    and "sv_code s0 = Some secret" "length secret = AuthorizationCodeLength"
    and "cwd_ok (sv_cwd s0)" "sv_log_level s0 \<le> LOGGING_LOG_LEVEL_OFF"
  shows "sv_code s = Some secret \<and> cwd_ok (sv_cwd s) \<and> sv_log_level s \<le> LOGGING_LOG_LEVEL_OFF \<and>
    (sv_log_level s \<noteq> sv_log_level s0 \<longrightarrow> (\<exists>x\<in>set h. authorised net secret x)) \<and>
    (sv_running s0 \<and> \<not> sv_running s \<longrightarrow> (\<exists>x\<in>set h. authorised net secret x \<or> last_gone net x))"
  using assms(1)
proof (induction rule: server_run.induct)
  case Begin
  then show ?case using assms(2-5) by simp
next
  case (Handle h s e s' stop)
  then have code: "sv_code s = Some secret" by simp
  note step = handle_event_keeps [OF Handle.hyps(2) code assms(3)]
  show ?case using step Handle.IH by auto
qed

section \<open>Starting\<close>

lemma listen_all_statics: "listen_all ndebug ts s = Ret s' \<Longrightarrow> statics s' = statics s"
proof (induction ts arbitrary: s)
  case (Cons t ts)
  obtain s1 where "listen_address ndebug t s = Ret s1" "listen_all ndebug ts s1 = Ret s'"
    using Cons.prems by (auto simp: bindO_Ret_iff)
  moreover then have "statics s1 = statics s"
    by (auto simp: listen_address_def bindO_Ret_iff dest!: register_statics split: option.splits if_splits)
  ultimately show ?case using Cons.IH by simp
qed simp

lemma start_server_statics:
  assumes "start_server ndebug env http https s0 = Ret s" "sv_code s0 = None" "env_random env = [w0, w1, w2]"
  obtains secret where "get_authorization_code ndebug (env_random env) None = Ret (secret, Some secret)"
    "length secret = AuthorizationCodeLength" "statics s = (sv_running s0, sv_log_level s0, Some secret, sv_cwd s0)"
proof -
  obtain secret where code: "generate_code ndebug [w0, w1, w2] = Ret secret" "length secret = 32"
    using generate_code_run [of ndebug w0 w1 w2] by fastforce
  then have get: "get_authorization_code ndebug (env_random env) None = Ret (secret, Some secret)"
    using assms(3) by (simp add: get_authorization_code_def)
  with assms(1,2) have "statics s = statics (s0\<lparr>sv_code := Some secret\<rparr>)"
    by (auto simp: start_server_def listen_addresses_def bindO_Ret_iff dest!: listen_all_statics split: option.splits)
  with get code(2) that [of secret] show thesis by (simp add: statics_def AuthorizationCodeLength_def)
qed

section \<open>Properties\<close>

text \<open>
  C4. Only a client with the authorization code controls the server. From the start of the process,
  through any batches of events, the code stays the one that was generated from the three
  random words, the log level stays a level, the cached working directory ends in a slash;
  the log level changes, and the server stops, only after an event has brought, over a TLS
  connection, a request whose \<open>Authorization\<close> header begins with the code - or, for stopping,
  after a hang-up has ended the last descriptor of the list. The events are steps of the
  run, in the states they were handled in, and come from the batches.
\<close>

theorem only_the_code_controls:
  assumes "start_server ndebug env http https s0 = Ret s1"
    and "sv_code s0 = None" "sv_cwd s0 = None" "sv_log_level s0 \<le> LOGGING_LOG_LEVEL_OFF" "sv_running s0"
    and "env_random env = [w0, w1, w2]"
    and "main_loop ndebug net batches s1 = Some (Ret s2)"
  shows "\<exists>secret h. get_authorization_code ndebug (env_random env) None = Ret (secret, Some secret) \<and>
    server_run ndebug net s1 h s2 \<and> set (map snd h) \<subseteq> set (concat batches) \<and>
    sv_code s2 = Some secret \<and> cwd_ok (sv_cwd s2) \<and> sv_log_level s2 \<le> LOGGING_LOG_LEVEL_OFF \<and>
    (sv_log_level s2 \<noteq> sv_log_level s0 \<longrightarrow> (\<exists>x\<in>set h. authorised net secret x)) \<and>
    (\<not> sv_running s2 \<longrightarrow> (\<exists>x\<in>set h. authorised net secret x \<or> last_gone net x))"
proof -
  obtain secret where secret: "get_authorization_code ndebug (env_random env) None = Ret (secret, Some secret)"
    "length secret = AuthorizationCodeLength" "statics s1 = (sv_running s0, sv_log_level s0, Some secret, sv_cwd s0)"
    using start_server_statics [OF assms(1,2,6)] by blast
  obtain h where h: "server_run ndebug net s1 h s2" "set (map snd h) \<subseteq> set (concat batches)"
    using main_loop_run [OF assms(7)] by blast
  have "sv_code s1 = Some secret" "cwd_ok (sv_cwd s1)" "sv_log_level s1 \<le> LOGGING_LOG_LEVEL_OFF"
    using secret(3) assms(3,4) by (simp_all add: statics_def cwd_ok_def)
  from server_run_keeps [OF h(1) this(1) secret(2) this(2,3)] show ?thesis
    using secret(1,3) h assms(5) by (intro exI [of _ secret] exI [of _ h]) (simp add: statics_def)
qed

text \<open>A server with one listening socket, at 1; it reports an error and is the last.\<close>

definition sample_target :: listen_target where
  "sample_target = \<lparr>lt_family = AF_INET, lt_socket = Some 3, lt_bound = True, lt_listening = True,
     lt_fresh = sample_fresh 1\<rparr>"

definition started :: "string \<Rightarrow> unit server" where
  "started secret = empty_server\<lparr>sv_code := Some secret, sv_head := Some 1, sv_heap := [1 \<mapsto> listening_node 3 None]\<rparr>"

lemma sample_started:
  obtains secret where "start_server ndebug sample_env (Some [sample_target]) None empty_server = Ret (started secret)"
proof -
  obtain secret where "generate_code ndebug [1, 2, 3] = Ret secret"
    using generate_code_run [of ndebug 1 2 3] by fastforce
  then have "start_server ndebug sample_env (Some [sample_target]) None empty_server = Ret (started secret)"
    by (simp add: start_server_def get_authorization_code_def empty_server_def sample_env_def started_def
        listen_addresses_def listen_address_def sample_target_def register_file_descriptor_def sample_fresh_def
        listening_node_def)
  with that show thesis .
qed

definition hangup_event :: ready_event where
  "hangup_event = \<lparr>ev_bits = EPOLLHUP, ev_node = 1, ev_env = sample_env, ev_accepted = None,
     ev_fresh = sample_fresh 2\<rparr>"

lemma only_the_code_controls_witness:
  "\<exists>s1 s2 secret. start_server True sample_env (Some [sample_target]) None empty_server = Ret s1 \<and>
     main_loop True quiet_net [[hangup_event]] s1 = Some (Ret s2) \<and> \<not> sv_running s2 \<and>
     sv_code s2 = Some secret \<and>
     (\<exists>h. server_run True quiet_net s1 h s2 \<and> set (map snd h) \<subseteq> {hangup_event} \<and>
        (\<exists>x\<in>set h. authorised quiet_net secret x \<or> last_gone quiet_net x))"
proof -
  obtain code where start: "start_server True sample_env (Some [sample_target]) None empty_server = Ret (started code)"
    using sample_started .
  have bits: "EPOLLHUP AND (EPOLLERR OR EPOLLHUP OR EPOLLRDHUP) \<noteq> 0"
    by (simp add: EPOLLERR_def EPOLLHUP_def EPOLLRDHUP_def)
  have "\<exists>s2. main_loop True quiet_net [[hangup_event]] (started code) = Some (Ret s2) \<and> \<not> sv_running s2"
    using bits
    by (simp add: handle_event_def hangup_event_def started_def destroy_file_information_def listening_node_def
        empty_server_def close_descriptor_def)
  then obtain s2 where s2: "main_loop True quiet_net [[hangup_event]] (started code) = Some (Ret s2)" "\<not> sv_running s2"
    by blast
  have *: "sv_code empty_server = None" "sv_cwd empty_server = None"
    "sv_log_level empty_server \<le> LOGGING_LOG_LEVEL_OFF" "sv_running empty_server" "env_random sample_env = [1, 2, 3]"
    by (simp_all add: empty_server_def sample_env_def LOGGING_LOG_LEVEL_INFORMATION_def LOGGING_LOG_LEVEL_OFF_def)
  from only_the_code_controls [OF start * s2(1)] s2(2) start s2(1) show ?thesis by simp blast
qed



end
