(* ===== verification/Server_Types.thy ===== *)
theory Server_Types
  imports Server_Runs
begin

text \<open>
  The type of the server's memory: what every node of the heap looks like in every state the
  server can reach, whatever is sent to it. The hypotheses are about the kernel and
  \<open>malloc\<close> only.
\<close>

section \<open>Well-formed nodes\<close>

definition connection_typed :: "connection_information \<Rightarrow> bool" where
  "connection_typed c \<longleftrightarrow> request_ok (conn_request c) \<and> response_ok (conn_response c) \<and>
     buffer_ok (conn_buffer c) \<and>
     (conn_state c = ConnectionStatusWritingResponse \<longrightarrow> buf_start (conn_buffer c) < buf_end (conn_buffer c))"

definition node_typed :: "file_descriptor_information \<Rightarrow> bool" where
  "node_typed node \<longleftrightarrow> fd_prev node = Head_Link \<and>
     (case fd_connection node of
        None \<Rightarrow> fd_type node = LISTEN_SOCKET
      | Some c \<Rightarrow> fd_type node \<noteq> LISTEN_SOCKET \<and> conn_fd c = file_descriptor node \<and>
          (conn_transport c = Tcp_Transport \<longleftrightarrow> fd_type node = TCP_SOCKET) \<and> connection_typed c)"

text \<open>\<open>F\<close> are the addresses at which the set-up of a TLS connection has failed.\<close>

definition heap_typed :: "addr set \<Rightarrow> 'w server \<Rightarrow> bool" where
  "heap_typed F s \<longleftrightarrow> (\<forall>a node. sv_heap s a = Some node \<longrightarrow> node_typed node \<and> (unset node \<longrightarrow> a \<in> F))"

lemma heap_typed_simps [simp]:
  "heap_typed F (s\<lparr>sv_world := w\<rparr>) = heap_typed F s" "heap_typed F (s\<lparr>sv_head := p\<rparr>) = heap_typed F s"
  "heap_typed F (s\<lparr>sv_running := b\<rparr>) = heap_typed F s" "heap_typed F (s\<lparr>sv_closed := l\<rparr>) = heap_typed F s"
  "heap_typed F (close_descriptor net fd s) = heap_typed F s"
  by (simp_all add: heap_typed_def close_descriptor_def)

lemma heap_typedD: "heap_typed F s \<Longrightarrow> sv_heap s a = Some node \<Longrightarrow> node_typed node \<and> (unset node \<longrightarrow> a \<in> F)"
  by (simp add: heap_typed_def)

lemma heap_typed_update:
  "heap_typed F s \<Longrightarrow> sv_heap s' = (sv_heap s)(a := x) \<Longrightarrow>
     (\<And>node. x = Some node \<Longrightarrow> node_typed node \<and> (unset node \<longrightarrow> a \<in> F)) \<Longrightarrow>
     heap_typed F s'"
  by (simp add: heap_typed_def)

lemma node_typed_next [simp]:
  "node_typed (node\<lparr>fd_next := p\<rparr>) = node_typed node" "unset (node\<lparr>fd_next := p\<rparr>) = unset node"
  by (simp_all add: node_typed_def unset_def split: option.split)

text \<open>What a new value of a connection must agree with.\<close>

definition fits :: "file_descriptor_information \<Rightarrow> connection_information \<Rightarrow> bool" where
  "fits node c \<longleftrightarrow> fd_prev node = Head_Link \<and> fd_type node \<noteq> LISTEN_SOCKET \<and> conn_fd c = file_descriptor node \<and>
     (conn_transport c = Tcp_Transport \<longleftrightarrow> fd_type node = TCP_SOCKET) \<and> conn_transport c \<noteq> No_Transport"

lemma heap_typed_put:
  assumes "heap_typed F s" "connection_typed c" "sv_heap s a = Some node" "fits node c"
  shows "heap_typed F (put_connection a c s)"
  by (rule heap_typed_update [OF assms(1), of _ a "Some (node\<lparr>fd_connection := Some c\<rparr>)"])
    (use assms(2-4) in \<open>auto simp: put_connection_def node_typed_def unset_def fits_def\<close>)

lemma write_link_typed:
  assumes w: "write_link l n s = Ret s'" and t: "heap_typed F s"
  shows "heap_typed F s'"
proof (cases l)
  case Head_Link
  then show ?thesis using w t by auto
next
  case (Next_Link b)
  then obtain node where node: "sv_heap s b = Some node"
    "s' = s\<lparr>sv_heap := (sv_heap s)(b \<mapsto> node\<lparr>fd_next := n\<rparr>)\<rparr>"
    using w by (auto split: option.splits)
  show ?thesis
    by (rule heap_typed_update [OF t, of _ b "Some (node\<lparr>fd_next := n\<rparr>)"])
      (use node heap_typedD [OF t node(1)] in auto)
qed

lemma destroy_typed: "destroy_file_information net a s = Some (Ret s') \<Longrightarrow> heap_typed F s \<Longrightarrow> heap_typed F s'"
proof -
  have gone: "heap_typed F (s\<lparr>sv_world := w, sv_heap := (sv_heap s)(a := None)\<rparr>)" if "heap_typed F s" for s :: "'w server" and a w
    using that by (simp add: heap_typed_def)
  have gone': "heap_typed F (s\<lparr>sv_heap := (sv_heap s)(a := None)\<rparr>)" if "heap_typed F s" for s :: "'w server" and a
    using that by (simp add: heap_typed_def)
  show "destroy_file_information net a s = Some (Ret s') \<Longrightarrow> heap_typed F s \<Longrightarrow> heap_typed F s'"
    unfolding destroy_file_information_def
    by (auto simp: outcome_simps intro!: gone gone' dest!: write_link_typed split: option.splits)
qed

lemma register_typed:
  assumes r: "register_file_descriptor ndebug fresh fd type s = Ret (a, s')" and t: "heap_typed F s"
    and F: "fails_at_setup fresh type \<Longrightarrow> fr_addr fresh \<in> F"
  shows "heap_typed F s'"
proof -
  note cases = register_cases [where ndebug = ndebug and fresh = fresh and fd = fd and type = type and s = s,
      unfolded r outcome.case prod.case]
  have a: "a = fr_addr fresh" by (rule conjunct1 [OF cases])
  obtain c cr where s': "s' = s\<lparr>sv_heap := (sv_heap s)(a \<mapsto>
        \<lparr>fd_type = type, file_descriptor = fd, fd_next = sv_head s, fd_prev = Head_Link, fd_connection = c\<rparr>),
      sv_head := Some a, sv_credentials := cr\<rparr>"
    "if type = LISTEN_SOCKET then c = None
     else \<exists>c'. c = Some c' \<and> initialize_connection_information ndebug fresh type fd (sv_credentials s) = Ret (c', cr)"
    using conjunct2 [OF cases] by (elim exE conjE) (rule that)
  let ?n = "\<lparr>fd_type = type, file_descriptor = fd, fd_next = sv_head s, fd_prev = Head_Link, fd_connection = c\<rparr>"
  have n: "node_typed ?n \<and> (unset ?n \<longrightarrow> a \<in> F)"
  proof (cases "type = LISTEN_SOCKET")
    case True
    then show ?thesis using s'(2) by (simp add: node_typed_def unset_def)
  next
    case False
    then obtain c' where c': "c = Some c'"
        "initialize_connection_information ndebug fresh type fd (sv_credentials s) = Ret (c', cr)"
      using s'(2) by auto
    note init = initialize_connection_cases [OF False, where ndebug = ndebug and fresh = fresh and fd = fd
        and cr = "sv_credentials s", unfolded c'(2) outcome.case prod.case]
    show ?thesis
      using False init c'(1) F a
      by (cases type) (simp_all add: node_typed_def unset_def fails_at_setup_def connection_typed_def
          connection_ok_def buffer_ok_def http_response_initialize_ok)
  qed
  show ?thesis
    by (rule heap_typed_update [OF t, of _ a "Some ?n"]) (use s'(1) n in simp_all)
qed

section \<open>The response\<close>

lemma set_code_typed: "set_code r code = Ret r' \<Longrightarrow> mapped_code code \<Longrightarrow> response_ok r \<Longrightarrow> response_ok r'"
  using set_code_eq with_code_ok by fastforce

lemma set_header_typed: "response_ok r \<Longrightarrow> response_ok (snd (http_response_set_header r k v))"
  by (rule http_response_set_header_ok)

lemma set_body_typed: "http_response_set_body r b len = Ret (code, r') \<Longrightarrow> response_ok r \<Longrightarrow> response_ok r'"
  unfolding http_response_set_body_def
  by (auto simp: bindO_Ret_iff http_response_set_header_def response_ok_def body_ok_def set_header_ok_get
      split: if_splits)

lemmas response_typed = set_code_typed set_header_typed set_body_typed

lemma set_code_case: "mapped_code code \<Longrightarrow> set_code r code = Ret r' \<Longrightarrow> response_ok r \<Longrightarrow> response_ok r'"
  by (rule set_code_typed)

lemmas set_code_cases = mapped_codes [THEN set_code_case]

lemma send_file_typed: "send_file ndebug env q file r = Ret r' \<Longrightarrow> response_ok r \<Longrightarrow> response_ok r'"
  unfolding send_file_def Let_def
  by (auto simp: bindO_Ret_iff intro!: set_header_typed dest!: set_code_cases set_body_typed split: if_splits)

lemma redirect_typed: "redirect_to_tls ndebug env fd u n r = Ret r' \<Longrightarrow> response_ok r \<Longrightarrow> response_ok r'"
  unfolding redirect_to_tls_def Let_def
  by (auto simp: bindO_Ret_iff intro!: set_header_typed dest!: set_code_cases)

lemma generate_typed:
  "generate_not_found r = Ret r' \<Longrightarrow> response_ok r \<Longrightarrow> response_ok r'"
  "generate_forbidden r = Ret r' \<Longrightarrow> response_ok r \<Longrightarrow> response_ok r'"
  unfolding generate_not_found_def generate_forbidden_def by (auto dest: set_code_cases)

lemma perform_typed:
  "perform_magic_call u (r, s) = Ret (r', s') \<Longrightarrow> response_ok r \<Longrightarrow> response_ok r' \<and> sv_heap s' = sv_heap s"
  unfolding perform_magic_call_def
  by (auto simp: bindO_Ret_iff dest: set_code_cases split: if_splits)

lemma magic_call_typed:
  assumes h: "handle_magic_call ndebug env q u (r, s) = Ret (r', s')" and ok: "response_ok r"
  shows "response_ok r' \<and> sv_heap s' = sv_heap s"
proof -
  obtain code where code: "get_request_header (env_junk env) q ''Authorization'' = Ret code"
    using h by (auto simp: handle_magic_call_def bindO_Ret_iff)
  show ?thesis
  proof (cases code)
    case None
    then show ?thesis using h code ok by (auto simp: handle_magic_call_def bindO_Ret_iff dest: generate_typed)
  next
    case (Some block)
    then obtain c :: int and st where "(if c \<noteq> 0 then bindO (generate_forbidden r) (\<lambda>r. Ret (r, s\<lparr>sv_code := st\<rparr>))
        else perform_magic_call u (r, s\<lparr>sv_code := st\<rparr>)) = Ret (r', s')"
      using h code unfolding handle_magic_call_def Let_def by (auto simp: bindO_Ret_iff)
    then show ?thesis
      using ok by (auto simp: bindO_Ret_iff dest: generate_typed perform_typed split: if_splits)
  qed
qed

lemma file_request_typed:
  assumes h: "handle_file_request ndebug env q u (r, s) = Ret (r', s')" and ok: "response_ok r"
  shows "response_ok r' \<and> sv_heap s' = sv_heap s"
proof -
  obtain path where path: "(if NUL \<in> set (tl u) then Ret (cstr (tl u)) else Fault Out_Of_Bounds) = Ret path"
    using h by (auto simp: handle_file_request_def bindO_Ret_iff)
  show ?thesis
  proof (cases "env_realpath env path")
    case None
    then show ?thesis using h path ok by (auto simp: handle_file_request_def bindO_Ret_iff dest: generate_typed)
  next
    case (Some p)
    then obtain c :: int and st where "(if c \<noteq> 0 then bindO (generate_not_found r) (\<lambda>r. Ret (r, s\<lparr>sv_cwd := st\<rparr>))
        else case env_open env p of
          None \<Rightarrow> bindO (generate_not_found r) (\<lambda>r. Ret (r, s\<lparr>sv_cwd := st\<rparr>))
        | Some file \<Rightarrow> bindO (send_file ndebug env q file r) (\<lambda>r. Ret (r, s\<lparr>sv_cwd := st\<rparr>))) = Ret (r', s')"
      using h path unfolding handle_file_request_def Let_def by (auto simp: bindO_Ret_iff)
    then show ?thesis
      using ok by (auto simp: bindO_Ret_iff dest: generate_typed send_file_typed split: if_splits option.splits)
  qed
qed

lemma transaction_typed:
  assumes "handle_http_transaction ndebug env type fd (c, s) = Ret (c', s')" "response_ok (conn_response c)"
  shows "\<exists>r. c' = c\<lparr>conn_response := r\<rparr> \<and> response_ok r \<and> sv_heap s' = sv_heap s"
proof -
  obtain url n r where step: "(if type = TCP_SOCKET
        then bindO (redirect_to_tls ndebug env fd url n (conn_response c)) (\<lambda>r. Ret (r, s))
        else if strncmp url magic_prefix 12 = 0
        then handle_magic_call ndebug env (conn_request c) url (conn_response c, s)
        else handle_file_request ndebug env (conn_request c) url (conn_response c, s)) = Ret (r, s')"
    and c': "c' = c\<lparr>conn_response := r\<rparr>"
    using assms(1) unfolding handle_http_transaction_def Let_def
    by (auto simp: bindO_Ret_iff split: prod.splits)
  have "response_ok r \<and> sv_heap s' = sv_heap s"
    using step assms(2)
    by (auto simp: bindO_Ret_iff split: if_splits dest: redirect_typed magic_call_typed file_request_typed)
  then show ?thesis using c' by blast
qed

section \<open>The buffer\<close>

text \<open>\<open>size_t\<close> subtraction is the inverse of addition, whatever wraps.\<close>

lemma size_sub_cancel: "(size_sub a b + b) mod 2 ^ 64 = a mod 2 ^ 64"
proof -
  let ?M = "2 ^ 64 :: nat"
  have le: "b mod ?M \<le> ?M" by (simp add: less_imp_le)
  have "(size_sub a b + b) mod ?M = (a + ?M - b mod ?M + b mod ?M) mod ?M"
    unfolding size_sub_def by (simp only: mod_add_left_eq mod_add_right_eq)
  also have "a + ?M - b mod ?M + b mod ?M = a + ?M" using le by simp
  finally show ?thesis by (simp only: mod_add_self2)
qed

lemma size_sub_le: "b \<le> a \<Longrightarrow> size_sub a b \<le> a - b"
proof -
  let ?M = "2 ^ 64 :: nat"
  assume "b \<le> a"
  have "size_sub a b = (a + ?M - b mod ?M) mod ?M" by (simp add: size_sub_def)
  also have "a + ?M - b mod ?M = (a - b) + ?M * (b div ?M + 1)"
  proof -
    have "b = ?M * (b div ?M) + b mod ?M" by simp
    moreover have "b mod ?M \<le> ?M" by (simp add: less_imp_le)
    ultimately show ?thesis using \<open>b \<le> a\<close> by (simp only: distrib_left mult_1_right)
  qed
  finally show ?thesis by (simp only: mod_mult_self2 mod_less_eq_dividend)
qed

lemma new_capability_mod:
  "size_add cap (size_sub n (size_sub cap e)) = (e + n) mod 2 ^ 64"
proof -
  let ?M = "2 ^ 64 :: nat"
  let ?a = "size_sub cap e"
  let ?x = "size_sub n ?a"
  have "size_add cap ?x = (cap mod ?M + ?x) mod ?M" by (simp only: size_add_def mod_add_left_eq)
  also have "\<dots> = ((?a + e) mod ?M + ?x) mod ?M" by (simp only: size_sub_cancel)
  also have "\<dots> = (e + (?x + ?a) mod ?M) mod ?M"
    by (simp only: mod_add_left_eq mod_add_right_eq) (simp only: ac_simps)
  also have "\<dots> = (e + n mod ?M) mod ?M" by (simp only: size_sub_cancel)
  finally show ?thesis by (simp only: mod_add_right_eq)
qed

lemma shift_buffer_typed:
  assumes "buffer_ok buf" "shift_buffer buf = Ret buf1"
  shows "buf_start buf1 = 0 \<and> buf_capability buf1 = buf_capability buf \<and> buf_end buf1 \<le> buf_capability buf \<and>
    (case buf_block buf1 of Null \<Rightarrow> buf_capability buf = 0 | Live b \<Rightarrow> length b = buf_capability buf | Freed \<Rightarrow> False)"
proof (cases "buf_start buf = 0")
  case True
  then show ?thesis using assms by (auto simp: shift_buffer_def buffer_ok_def split: ptr.splits)
next
  case False
  then obtain b where b: "buf_block buf = Live b" "length b = buf_capability buf" "buf_start buf \<le> buf_end buf"
      "buf_end buf \<le> buf_capability buf"
    using assms(1) by (auto simp: buffer_ok_def split: ptr.splits)
  have "size_sub (buf_end buf) (buf_start buf) \<le> buf_capability buf"
    using size_sub_le [OF b(3)] b(4) by simp
  then show ?thesis
    using assms(2) False b by (auto simp: shift_buffer_def memmove_down_def bindO_Ret_iff split: if_splits)
qed

lemma copy_pages_typed:
  "copy_pages (b, e) pages = Ret (b', e') \<Longrightarrow>
     length b' = length b \<and> e' = e + length pages * buffer_page_size \<and> (pages \<noteq> [] \<longrightarrow> e' \<le> length b)"
proof (induction pages arbitrary: b e)
  case (Cons p ps)
  then obtain b1 where b1: "memcpy b e p buffer_page_size = Ret b1"
    "copy_pages (b1, e + buffer_page_size) ps = Ret (b', e')"
    by (auto simp: bindO_Ret_iff)
  have "length b1 = length b" "e + buffer_page_size \<le> length b"
    using b1(1) by (auto simp: memcpy_def split: if_splits)
  with Cons.IH [OF b1(2)] show ?case by (cases ps) auto
qed simp

lemma store_received_typed:
  assumes buf: "buffer_ok buf0" and pg: "pages_ok pages page" and junk: "\<And>n. length (junk n) = n"
    and some: "total_size pages page \<noteq> 0" and r: "store_received junk buf0 pages page = Ret buf"
  shows "\<exists>b. buf = exact_buffer b \<and> b \<noteq> [] \<and> length b < 2 ^ 64"
proof -
  obtain buf1 where sh: "shift_buffer buf0 = Ret buf1" using r by (auto simp: store_received_def bindO_Ret_iff)
  note s = shift_buffer_typed [OF buf sh]
  let ?n = "total_size pages page" and ?e = "buf_end buf1" and ?cap = "buf_capability buf1"
  define N where "N = size_add ?cap (size_sub ?n (size_sub ?cap ?e))"
  have N: "N = (?e + ?n) mod 2 ^ 64" unfolding N_def by (rule new_capability_mod)
  obtain p b b1 e1 b2 e2 where steps: "c_realloc junk (buf_block buf1) N = Ret p" "deref p = Ret b"
      "copy_pages (b, ?e) pages = Ret (b1, e1)"
      "(if length page > 0 then bindO (memcpy b1 e1 page (length page)) (\<lambda>b. Ret (b, e1 + length page))
        else Ret (b1, e1)) = Ret (b2, e2)"
      "buf = buf1\<lparr>buf_block := Live b2, buf_capability := N, buf_end := e2\<rparr>"
    using r sh unfolding store_received_def Let_def N_def by (auto simp: bindO_Ret_iff)
  have len: "length b = N"
    using steps(1,2) s junk by (cases "buf_block buf1") (auto simp: deref_Ret_iff)
  have lens: "length b2 = N" "e2 = e1 + length page"
    using copy_pages_typed [OF steps(3)] steps(4) len by (auto simp: bindO_Ret_iff memcpy_def split: if_splits)
  have fits: "pages \<noteq> [] \<or> page \<noteq> [] \<longrightarrow> e2 \<le> N"
    using copy_pages_typed [OF steps(3)] steps(4) len by (auto simp: bindO_Ret_iff memcpy_def split: if_splits)
  have "length (concat pages) = length pages * buffer_page_size"
  proof -
    have "list_all (\<lambda>p. length p = buffer_page_size) pages" using pg by (simp add: pages_ok_def)
    then show ?thesis by (induction pages) simp_all
  qed
  then have "e2 = ?e + ?n" using copy_pages_typed [OF steps(3)] lens(2) by (simp add: total_size_def)
  moreover have "e2 \<le> N" using fits some by (auto simp: total_size_def)
  moreover have "N \<le> ?e + ?n" unfolding N by (rule mod_less_eq_dividend)
  ultimately have "e2 = N" "0 < N" using some by simp_all
  then have "buf = exact_buffer b2" "b2 \<noteq> []"
    using steps(5) lens(1) s by (auto simp: exact_buffer_def)
  moreover have "length b2 < 2 ^ 64" unfolding lens(1) N by simp
  ultimately have "buf = exact_buffer b2 \<and> b2 \<noteq> [] \<and> length b2 < 2 ^ 64" by blast
  then show ?thesis by blast
qed

section \<open>The handler\<close>

lemma render_reply_typed:
  assumes ok: "response_ok r" "buffer_ok buf" and junk: "\<And>n. length (junk n) = n"
    and r: "render_reply ndebug junk r buf = Ret (r', buf')"
  shows "response_ok r' \<and> buffer_ok buf' \<and> buf_start buf' < buf_end buf'"
proof -
  obtain b where b: "buf_block buf = Live b" using r by (auto simp: render_reply_def bindO_Ret_iff deref_Ret_iff)
  obtain x where "http_response_render ndebug r (Some b) (buf_capability buf) = Ret x"
    using r b by (auto simp: render_reply_def bindO_Ret_iff)
  then have "render_ok ndebug r"
    using ok(1)
    by (auto simp: http_response_render_def bindO_Ret_iff update_content_length_def c_assert_Ret_iff render_ok_def split: if_splits)
  from render_reply_eq [OF this ok(2) b junk] r ok(1) with_content_length_ok [of r]
    render_reply_window [OF r] show ?thesis
    by auto
qed

lemma answer_typed:
  assumes a: "answer ndebug env type fd (c, s) = Ret (c', s')"
    and c: "conn_buffer c = exact_buffer b" "request_ok (conn_request c)" "response_ok (conn_response c)"
      "conn_state c = ConnectionStatusWaitingRequest"
    and env: "env_ok env" and small: "length b < 2 ^ 64"
  shows "connection_typed c' \<and> sv_heap s' = sv_heap s \<and> conn_fd c' = conn_fd c \<and> conn_transport c' = conn_transport c"
proof -
  have sz: "size_sub (length b) 0 = length b" using size_sub_eq [of 0 "length b"] small by simp
  obtain code q where parse: "http_request_from_buffer (conn_request c) b (length b) = Ret (code, q)"
    using a c(1) sz by (auto simp: answer_def bindO_Ret_iff)
  have q: "request_ok q" using from_buffer_returns_ok [OF c(2) refl parse] by simp
  show ?thesis
  proof (cases "code = HTTP_ERROR_CODE_INCOMPLETE_REQUEST")
    case True
    then have "c' = c\<lparr>conn_request := q\<rparr>" "s' = s"
      using a c(1) sz parse by (auto simp: answer_def bindO_Ret_iff)
    then show ?thesis using c q by (simp add: connection_typed_def)
  next
    case False
    obtain c1 s1 where reply: "(if code \<noteq> HTTP_ERROR_CODE_SUCCEED
        then bindO (set_code (conn_response (c\<lparr>conn_request := q\<rparr>)) HTTP_RESPONSE_CODE_BAD_REQUEST) (\<lambda>r.
               Ret (c\<lparr>conn_request := q\<rparr>\<lparr>conn_response := r\<rparr>, s))
        else handle_http_transaction ndebug env type fd (c\<lparr>conn_request := q\<rparr>, s)) = Ret (c1, s1)"
      and rest: "bindO (http_request_destroy (conn_request c1)) (\<lambda>(_, q).
          bindO (render_reply ndebug (env_junk env)
              (snd (http_response_set_header (conn_response c1) ''Server'' ''hSS/0.0.1-alpha'')) (conn_buffer c1)) (\<lambda>(r, buf).
            Ret (c1\<lparr>conn_request := q, conn_response := r, conn_buffer := buf,
                   conn_state := ConnectionStatusWritingResponse\<rparr>, s1))) = Ret (c', s')"
      using a c(1) sz parse False unfolding answer_def Let_def by (auto simp: bindO_Ret_iff)
    have c1: "\<exists>r. c1 = c\<lparr>conn_request := q, conn_response := r\<rparr> \<and> response_ok r \<and> sv_heap s1 = sv_heap s"
    proof (cases "code = HTTP_ERROR_CODE_SUCCEED")
      case True
      then have "handle_http_transaction ndebug env type fd (c\<lparr>conn_request := q\<rparr>, s) = Ret (c1, s1)"
        using reply by simp
      from transaction_typed [OF this] c(3) show ?thesis by auto
    next
      case False
      then show ?thesis using reply c(3) by (auto simp: bindO_Ret_iff dest: set_code_cases)
    qed
    then obtain r where r: "c1 = c\<lparr>conn_request := q, conn_response := r\<rparr>" "response_ok r" "sv_heap s1 = sv_heap s"
      by blast
    obtain r2 buf where last: "render_reply ndebug (env_junk env)
        (snd (http_response_set_header r ''Server'' ''hSS/0.0.1-alpha'')) (exact_buffer b) = Ret (r2, buf)"
      "c' = c1\<lparr>conn_request := fresh_request, conn_response := r2, conn_buffer := buf,
         conn_state := ConnectionStatusWritingResponse\<rparr>" "s' = s1"
      using rest r(1) c(1) http_request_destroy_fresh [OF q] by (auto simp: bindO_Ret_iff)
    have junk: "length (env_junk env n) = n" for n using env by (simp add: env_ok_def)
    have "buffer_ok (exact_buffer b)" by simp
    from render_reply_typed [OF set_header_typed [OF r(2)] this junk last(1)]
    show ?thesis using last(2,3) r by (simp add: connection_typed_def)
  qed
qed

lemma receive_request_typed:
  assumes run: "receive_request ndebug env net a node c s = Some (Ret (c', s'))"
    and t: "heap_typed F s" and heap: "sv_heap s a = Some node" and conn: "fd_connection node = Some c"
    and wait: "conn_state c = ConnectionStatusWaitingRequest"
    and net: "net_ok net rx tx" and env: "env_ok env"
  shows "heap_typed F s' \<and> (\<forall>c2. c' = Some c2 \<longrightarrow> connection_typed c2 \<and>
    (\<exists>node'. sv_heap s' a = Some node' \<and> fits node' c2))"
proof -
  have c: "connection_typed c" and n: "fd_prev node = Head_Link" "fd_type node \<noteq> LISTEN_SOCKET"
      "conn_fd c = file_descriptor node" "conn_transport c = Tcp_Transport \<longleftrightarrow> fd_type node = TCP_SOCKET"
    using heap_typedD [OF t heap] conn by (simp_all add: node_typed_def)
  obtain result pages page transport w where loop:
    "receive_loop (conn_recv net (conn_fd c)) [] [] (conn_transport c, sv_world s) =
       Some (Ret (result, pages, page, transport, w))"
    using run by (auto simp: receive_request_def outcome_simps)
  have set: "conn_transport c \<noteq> No_Transport"
  proof
    assume "conn_transport c = No_Transport"
    then show False using loop by (subst (asm) receive_loop.simps) simp
  qed
  then have got: "transport \<noteq> No_Transport" "pages_ok pages page"
      "transport = Tcp_Transport \<longleftrightarrow> conn_transport c = Tcp_Transport"
    using conn_source.receive_loop_taken [OF loop, where rx = rx and tx = tx] net by auto
  define c1 where "c1 = c\<lparr>conn_transport := transport\<rparr>"
  define s1 where "s1 = put_connection a c1 (s\<lparr>sv_world := w\<rparr>)"
  have c1: "connection_typed c1" using c by (simp add: connection_typed_def c1_def)
  have f1: "fits node c1" using n got by (simp add: fits_def c1_def)
  have s1: "heap_typed F s1"
    unfolding s1_def by (rule heap_typed_put [OF _ c1, where a = a and node = node]) (use t heap f1 in simp_all)
  have at1: "sv_heap s1 a = Some (node\<lparr>fd_connection := Some c1\<rparr>)"
    unfolding s1_def by (rule put_connection_at) (simp add: heap)
  note run' = run [unfolded receive_request_def Let_def loop, simplified, folded c1_def, folded s1_def]
  show ?thesis
  proof (cases "result = Broken \<or> total_size pages page = 0")
    case True
    then show ?thesis
      using run' s1 c1 at1 f1 by (auto simp: outcome_simps fits_def dest: destroy_typed split: if_splits)
  next
    case False
    then obtain buf c2 s2 where buf: "store_received (env_junk env) (conn_buffer c1) pages page = Ret buf"
      and ans: "answer ndebug env (fd_type node) (file_descriptor node) (c1\<lparr>conn_buffer := buf\<rparr>, s1) = Ret (c2, s2)"
      and res: "c' = Some c2" "s' = put_connection a c2 s2"
      using run' by (auto simp: outcome_simps)
    have junk: "length (env_junk env n) = n" for n using env by (simp add: env_ok_def)
    have bok: "buffer_ok (conn_buffer c1)" using c1 by (simp add: connection_typed_def)
    obtain b where b: "buf = exact_buffer b" "length b < 2 ^ 64"
      using store_received_typed [OF bok got(2) junk _ buf] False by auto
    have a: "connection_typed c2 \<and> sv_heap s2 = sv_heap s1 \<and>
        conn_fd c2 = conn_fd (c1\<lparr>conn_buffer := buf\<rparr>) \<and> conn_transport c2 = conn_transport (c1\<lparr>conn_buffer := buf\<rparr>)"
      by (rule answer_typed [OF ans _ _ _ _ env b(2)])
        (use b(1) c1 wait in \<open>simp_all add: connection_typed_def c1_def\<close>)
    then have "heap_typed F s2" using s1 by (simp add: heap_typed_def)
    moreover have "fits (node\<lparr>fd_connection := Some c1\<rparr>) c2" "fits (node\<lparr>fd_connection := Some c2\<rparr>) c2"
      using f1 a by (simp_all add: fits_def)
    ultimately show ?thesis
      using res at1 a heap_typed_put [where s = s2 and c = c2 and a = a and F = F]
        put_connection_at [where s = s2 and a = a and c = c2] by auto
  qed
qed

lemma send_response_typed:
  assumes run: "send_response net a c s = Some (Ret s')" and t: "heap_typed F s"
    and heap: "sv_heap s a = Some node"
    and n: "fd_prev node = Head_Link" "fd_type node \<noteq> LISTEN_SOCKET"
      "conn_fd c = file_descriptor node" "conn_transport c = Tcp_Transport \<longleftrightarrow> fd_type node = TCP_SOCKET"
    and c: "connection_typed c" and writing: "conn_state c = ConnectionStatusWritingResponse"
    and net: "net_ok net rx tx"
  shows "heap_typed F s'"
proof -
  let ?st = "buf_start (conn_buffer c)" and ?e = "buf_end (conn_buffer c)"
  obtain b res start t' w where b: "buf_block (conn_buffer c) = Live b"
    and loop: "send_loop (conn_send net (conn_fd c)) b ?st ?e (conn_transport c, sv_world s) = Some (Ret (res, start, t', w))"
    using run by (auto simp: send_response_def outcome_simps)
  have bounds: "?st < ?e" "?e \<le> length b" "length b = buf_capability (conn_buffer c)"
    using c writing b by (auto simp: connection_typed_def buffer_ok_def)
  have "conn_transport c \<noteq> No_Transport"
  proof
    assume "conn_transport c = No_Transport"
    then show False using loop bounds(2) by (subst (asm) send_loop.simps) simp
  qed
  then have sent: "t' \<noteq> No_Transport" "start \<le> ?e" "res = Sent \<longleftrightarrow> start = ?e"
      "t' = Tcp_Transport \<longleftrightarrow> conn_transport c = Tcp_Transport"
    using conn_sink.send_loop_delivered [OF loop _ bounds(1,2), where rx = rx and tx = tx] net by auto
  define c1 where "c1 = c\<lparr>conn_transport := t', conn_buffer := (conn_buffer c)\<lparr>buf_start := start\<rparr>,
    conn_state := (if res = Sent then ConnectionStatusWaitingRequest else conn_state c)\<rparr>"
  define s1 where "s1 = put_connection a c1 (s\<lparr>sv_world := w\<rparr>)"
  have "connection_typed c1"
    using c b bounds sent by (auto simp: connection_typed_def c1_def buffer_ok_def)
  moreover have "fits node c1" using n sent by (simp add: fits_def c1_def)
  ultimately have "heap_typed F s1"
    unfolding s1_def by (intro heap_typed_put [where F = F and c = c1 and a = a and node = node]) (use t heap in simp_all)
  moreover have "(if res = Failed then destroy_file_information net a s1 else Some (Ret s1)) = Some (Ret s')"
    using run b loop unfolding send_response_def Let_def c1_def s1_def by (auto split: if_splits)
  ultimately show ?thesis by (auto dest: destroy_typed split: if_splits)
qed

lemma handle_connection_typed:
  assumes run: "handle_connection ndebug env net event a s = Some (Ret s')" and t: "heap_typed F s"
    and net: "net_ok net rx tx" and env: "env_ok env"
  shows "heap_typed F s'"
proof -
  obtain node c where heap: "sv_heap s a = Some node" and conn: "fd_connection node = Some c"
    using run by (auto simp: handle_connection_def split: option.splits)
  have c: "connection_typed c" and n: "fd_prev node = Head_Link" "fd_type node \<noteq> LISTEN_SOCKET"
      "conn_fd c = file_descriptor node" "conn_transport c = Tcp_Transport \<longleftrightarrow> fd_type node = TCP_SOCKET"
    using heap_typedD [OF t heap] conn by (simp_all add: node_typed_def)
  show ?thesis
  proof (cases "conn_state c")
    case ConnectionStatusWaitingRequest
    show ?thesis
    proof (cases "event AND EPOLLIN = 0")
      case True
      then show ?thesis using run heap conn t ConnectionStatusWaitingRequest by (simp add: handle_connection_def)
    next
      case False
      then obtain c' s1 where got: "receive_request ndebug env net a node c s = Some (Ret (c', s1))"
        and rest: "(case c' of None \<Rightarrow> Some (Ret s1)
          | Some c2 \<Rightarrow> if conn_state c2 = ConnectionStatusWritingResponse then send_response net a c2 s1
                        else Some (Ret s1)) = Some (Ret s')"
        using run heap conn ConnectionStatusWaitingRequest by (auto simp: handle_connection_def outcome_simps)
      note typed = receive_request_typed [OF got t heap conn ConnectionStatusWaitingRequest net env]
      show ?thesis
        using rest typed send_response_typed [where net = net and a = a and s = s1, OF _ _ _ _ _ _ _ _ _ net]
        by (cases c') (auto simp: fits_def split: if_splits)
    qed
  next
    case ConnectionStatusWritingResponse
    then have "s' = s \<or> send_response net a c s = Some (Ret s')"
      using run heap conn by (auto simp: handle_connection_def split: if_splits)
    then show ?thesis
      using send_response_typed [OF _ t heap n c ConnectionStatusWritingResponse net] t by blast
  qed
qed

section \<open>The server\<close>

text \<open>The addresses at which events bring a TLS connection whose set-up fails.\<close>

definition failed_setups :: "ready_event set \<Rightarrow> addr set" where
  "failed_setups E = {fr_addr (ev_fresh e) | e. e \<in> E \<and> setup_fails (fr_tls (ev_fresh e))}"

lemma handle_event_typed:
  assumes run: "handle_event ndebug net e s = Some (Ret (s', stop))" and t: "heap_typed F s"
    and net: "net_ok net rx tx" and e: "env_ok (ev_env e)"
    and F: "setup_fails (fr_tls (ev_fresh e)) \<Longrightarrow> fr_addr (ev_fresh e) \<in> F"
  shows "heap_typed F s'"
proof (cases "hung_up e")
  case True
  then show ?thesis
    using run t by (auto simp: handle_event_def hung_up_def outcome_simps dest!: destroy_typed split: if_splits)
next
  case False
  then obtain node where node: "sv_heap s (ev_node e) = Some node"
    using run by (auto simp: handle_event_def hung_up_def split: option.splits)
  show ?thesis
  proof (cases "fd_type node = LISTEN_SOCKET")
    case True
    then obtain r where "accept_connection ndebug (ev_env e) net (ev_accepted e) (ev_fresh e) s = Ret (r, s')"
      using run node False by (auto simp: handle_event_def hung_up_def outcome_simps)
    then show ?thesis
      using t F
      by (auto simp: accept_connection_def Let_def bindO_Ret_iff fails_at_setup_def dest: register_typed
          split: option.splits if_splits)
  next
    case conn: False
    then have "handle_connection ndebug (ev_env e) net (ev_bits e) (ev_node e) s = Some (Ret s')"
      using run node False by (auto simp: handle_event_def hung_up_def outcome_simps)
    from handle_connection_typed [OF this t net] e show ?thesis by simp
  qed
qed

lemma server_run_typed:
  "server_run ndebug net s0 h s \<Longrightarrow> heap_typed F s0 \<Longrightarrow> net_ok net rx tx \<Longrightarrow>
     \<forall>e\<in>set (map snd h). env_ok (ev_env e) \<and> (setup_fails (fr_tls (ev_fresh e)) \<longrightarrow> fr_addr (ev_fresh e) \<in> F) \<Longrightarrow>
     heap_typed F s"
  by (induction rule: server_run.induct) (auto intro: handle_event_typed)

lemma listen_all_typed: "listen_all ndebug ts s = Ret s' \<Longrightarrow> heap_typed F s \<Longrightarrow> heap_typed F s'"
proof (induction ts arbitrary: s)
  case (Cons t ts)
  obtain s1 where s1: "listen_address ndebug t s = Ret s1" "listen_all ndebug ts s1 = Ret s'"
    using Cons.prems(1) by (auto simp: bindO_Ret_iff)
  have "heap_typed F s1"
    using s1(1) Cons.prems(2)
    by (auto simp: listen_address_def bindO_Ret_iff fails_at_setup_def dest: register_typed
        split: option.splits if_splits)
  then show ?case using Cons.IH s1(2) by blast
qed simp

lemma start_server_typed:
  "start_server ndebug env http https s0 = Ret s \<Longrightarrow> sv_heap s0 = Map.empty \<Longrightarrow> heap_typed F s"
proof -
  have "heap_typed F (s0\<lparr>sv_code := st\<rparr>)" if "sv_heap s0 = Map.empty" for st using that by (simp add: heap_typed_def)
  then show "start_server ndebug env http https s0 = Ret s \<Longrightarrow> sv_heap s0 = Map.empty \<Longrightarrow> heap_typed F s"
    by (auto simp: start_server_def listen_addresses_def bindO_Ret_iff dest!: listen_all_typed split: option.splits)
qed

lemma typed_connection_ok: "connection_typed c \<Longrightarrow> connection_ok c"
  by (auto simp: connection_typed_def connection_ok_def buffer_ok_def)

lemma typed_node_ok: "node_typed node \<Longrightarrow> node_ok node"
  by (auto simp: node_typed_def node_ok_def typed_connection_ok split: option.splits)

lemma typed_destroys:
  assumes "node_typed node" "fd_connection node = Some c"
  shows "destroy_connection_information net c w = Some (Fault f) \<longleftrightarrow> f = Uninitialised \<and> conn_transport c = No_Transport"
proof -
  have "connection_ok c" "conn_fd c = file_descriptor node"
    using assms by (simp_all add: node_typed_def typed_connection_ok)
  from destroy_connection_eq [OF assms(2) this, of net w] show ?thesis
    using assms(2) by (auto simp: unset_def)
qed

lemma main_loop_typed:
  assumes "start_server ndebug env http https s0 = Ret s1" "sv_heap s0 = Map.empty"
    and "net_ok net rx tx" "\<forall>e\<in>set (concat batches). env_ok (ev_env e)"
    and "main_loop ndebug net batches s1 = Some (Ret s2)"
  shows "heap_typed (failed_setups (set (concat batches))) s2"
proof -
  obtain h where h: "server_run ndebug net s1 h s2" "set (map snd h) \<subseteq> set (concat batches)"
    using main_loop_run [OF assms(5)] by blast
  have "e \<in> set (concat batches)" if "e \<in> set (map snd h)" for e using h(2) that by (rule subsetD)
  then have "\<forall>e\<in>set (map snd h). env_ok (ev_env e) \<and>
      (setup_fails (fr_tls (ev_fresh e)) \<longrightarrow> fr_addr (ev_fresh e) \<in> failed_setups (set (concat batches)))"
    using assms(4) unfolding failed_setups_def by blast
  from server_run_typed [OF h(1) start_server_typed [OF assms(1,2)] assms(3) this] show ?thesis .
qed

section \<open>Properties\<close>

text \<open>
  C3. The memory of the server is well typed. In every state \<open>main\<close> can reach, whatever the clients
  send, in whatever order events come and whichever GnuTLS calls fail, each node of the heap is
  a listening one without connection information, or a connection with the descriptor of the
  node, whose request, response and buffer are well formed (live or null blocks of the recorded
  lengths, sorted headers, start within end within capability, something to send while it
  writes) and whose function pointers are those of a plain connection exactly if the node is
  one. Destroying the connection frees no pointer twice: it can fault in one way only, by
  calling a function pointer that was never set, and it does exactly if the TLS set-up of the
  connection failed when an event brought it. The hypotheses are that \<open>recv\<close>, \<open>send\<close> and the
  record calls keep within the lengths they are given, and that \<open>malloc\<close> gives blocks of the
  size asked for.
\<close>

theorem server_memory_typed:
  assumes "start_server ndebug env http https s0 = Ret s1" "sv_heap s0 = Map.empty"
    and "net_ok net rx tx" "\<forall>e\<in>set (concat batches). env_ok (ev_env e)"
    and "main_loop ndebug net batches s1 = Some (Ret s2)" "sv_heap s2 a = Some node"
  shows "node_typed node \<and>
    (\<forall>c. fd_connection node = Some c \<longrightarrow>
       (\<forall>w f. destroy_connection_information net c w = Some (Fault f) \<longleftrightarrow>
          f = Uninitialised \<and> conn_transport c = No_Transport) \<and>
       (conn_transport c = No_Transport \<longrightarrow> fd_type node = TLS_SOCKET \<and>
          (\<exists>e\<in>set (concat batches). fr_addr (ev_fresh e) = a \<and> setup_fails (fr_tls (ev_fresh e)))))"
proof -
  have n: "node_typed node" "unset node \<longrightarrow> a \<in> failed_setups (set (concat batches))"
    using heap_typedD [OF main_loop_typed [OF assms(1-5)] assms(6)] by simp_all
  have "fd_type node = TLS_SOCKET" if "fd_connection node = Some c" "conn_transport c = No_Transport" for c
    using that n(1) by (cases "fd_type node") (simp_all add: node_typed_def)
  moreover have "\<exists>e\<in>set (concat batches). fr_addr (ev_fresh e) = a \<and> setup_fails (fr_tls (ev_fresh e))"
    if "fd_connection node = Some c" "conn_transport c = No_Transport" for c
  proof -
    have "unset node" using that by (simp add: unset_def)
    then show ?thesis using n(2) unfolding failed_setups_def by blast
  qed
  ultimately show ?thesis using n(1) typed_destroys [OF n(1), where net = net] by blast
qed

text \<open>The listening socket at 1 brings a plain connection, which is put at 7.\<close>

definition accept_event :: ready_event where
  "accept_event = \<lparr>ev_bits = EPOLLIN, ev_node = 1, ev_env = sample_env, ev_accepted = Some 5,
     ev_fresh = sample_fresh 7\<rparr>"

lemma quiet_net_ok: "net_ok quiet_net (\<lambda>fd w. []) (\<lambda>fd w. [])"
  by (simp add: net_ok_def quiet_net_def transfers_in_def transfers_out_def)

lemma server_memory_typed_witness:
  "\<exists>s1 s2 node c. start_server False sample_env (Some [sample_target]) None empty_server = Ret s1 \<and>
     main_loop False quiet_net [[accept_event]] s1 = Some (Ret s2) \<and> sv_heap s2 7 = Some node \<and>
     fd_connection node = Some c \<and> node_typed node \<and>
     (\<forall>f. destroy_connection_information quiet_net c () \<noteq> Some (Fault f))"
proof -
  obtain code where start: "start_server False sample_env (Some [sample_target]) None empty_server = Ret (started code)"
    using sample_started .
  have fr: "fr_addr (sample_fresh 7) = 7" by (simp add: sample_fresh_def)
  have "TCP_SOCKET \<noteq> LISTEN_SOCKET" by simp
  note init = initialize_connection_cases [OF this, where ndebug = False and fresh = "sample_fresh 7" and fd = 5
      and cr = "sv_credentials (started code)"]
  then obtain c cr where c: "initialize_connection_information False (sample_fresh 7) TCP_SOCKET 5
      (sv_credentials (started code)) = Ret (c, cr)" "conn_transport c = Tcp_Transport"
    by (cases "initialize_connection_information False (sample_fresh 7) TCP_SOCKET 5 (sv_credentials (started code))") auto
  let ?node = "\<lparr>fd_type = TCP_SOCKET, file_descriptor = 5, fd_next = Some 1, fd_prev = Head_Link, fd_connection = Some c\<rparr>"
  have port: "env_sockname sample_env 5 = \<lparr>ss_family = AF_INET, port_high = 31, port_low = 144, host_bytes = [10, 0, 0, 1]\<rparr>"
    "unat (get_port \<lparr>ss_family = AF_INET, port_high = 31, port_low = 144, host_bytes = [10, 0, 0, 1]\<rparr>) = 8080"
    "HTTPPort False = 8080"
    by (simp_all add: sample_env_def get_port_value HTTPPort_def)
  have "\<exists>s2. accept_connection False sample_env quiet_net (Some 5) (sample_fresh 7) (started code) = Ret (Some 7, s2) \<and>
      sv_heap s2 7 = Some ?node"
    using c(1) fr port by (simp add: accept_connection_def Let_def register_file_descriptor_def started_def)
  then obtain s2 where acc: "accept_connection False sample_env quiet_net (Some 5) (sample_fresh 7) (started code) = Ret (Some 7, s2)"
      "sv_heap s2 7 = Some ?node" by blast
  have bits: "EPOLLIN AND (EPOLLERR OR EPOLLHUP OR EPOLLRDHUP) = 0" "EPOLLIN AND EPOLLIN \<noteq> 0"
    by (simp_all add: EPOLLERR_def EPOLLHUP_def EPOLLRDHUP_def EPOLLIN_def)
  have "sv_running (started code)" "sv_heap (started code) 1 = Some (listening_node 3 None)"
    by (simp_all add: started_def empty_server_def)
  then have loop: "main_loop False quiet_net [[accept_event]] (started code) = Some (Ret s2)"
    using bits acc(1) by (simp add: handle_event_def accept_event_def listening_node_def)
  have ok: "\<forall>e\<in>set (concat [[accept_event]]). env_ok (ev_env e)" "sv_heap empty_server = Map.empty"
    using sample_env_ok by (simp_all add: accept_event_def empty_server_def)
  from server_memory_typed [OF start ok(2) quiet_net_ok ok(1) loop acc(2)] show ?thesis
    using start loop acc(2) c(2) by fastforce
qed

end
