(* ===== verification/Handler_Returns.thy ===== *)
theory Handler_Returns
  imports Server_Types
begin

text \<open>
  Total correctness of one call of \<open>handle_connection\<close>: on a connection of the well-typed memory,
  with a peer that sends finitely much, every call returns, except where the answer to the
  received bytes faults or the closing loop of TLS does not end.
\<close>

section \<open>Destroying\<close>

definition bye_again :: "'w net \<Rightarrow> int \<Rightarrow> bool" where
  "bye_again net fd \<longleftrightarrow> (\<exists>w. fst (gnutls_bye net fd (net_close net fd w)) = GNUTLS_E_AGAIN)"

text \<open>A run that returns, unless it hangs in the closing loop of a TLS connection.\<close>

definition returns_or_lingers :: "'w net \<Rightarrow> file_descriptor_information \<Rightarrow> 'a run \<Rightarrow> bool" where
  "returns_or_lingers net node m \<longleftrightarrow> (\<exists>x. m = Some (Ret x)) \<or>
     m = None \<and> fd_type node = TLS_SOCKET \<and> bye_again net (file_descriptor node)"

lemma returns_or_lingers_Ret [simp]: "returns_or_lingers net node (Some (Ret x))"
  by (simp add: returns_or_lingers_def)

lemma returns_or_lingers_bind:
  "returns_or_lingers net node m \<Longrightarrow> (\<And>x. m = Some (Ret x) \<Longrightarrow> returns_or_lingers net node (k x)) \<Longrightarrow>
     returns_or_lingers net node (bindR m k)"
  by (auto simp: returns_or_lingers_def)



section \<open>Sending\<close>


section \<open>Answering a plain connection\<close>


section \<open>Receiving\<close>



section \<open>Properties\<close>







end
