(* ===== verification/Spec2Isabelle.thy ===== *)
theory Spec2Isabelle
  imports
    Request_Properties Response_Properties Range_Properties Auth_Code
    Common Transport_Properties Descriptors Transaction_Properties Connection_Loops
    Exchange Header_Refinement Server_Runs Server_Types Handler_Returns
begin

text \<open>
  Verification of hSS, a small HTTP/HTTPS file server in C (C17, one thread, \<open>epoll\<close>).

  The program. \<open>main\<close> in \<open>server.c\<close> generates an authorization code, listens on the HTTP and
  the HTTPS port and loops over the events of \<open>epoll\<close>. A new connection (\<open>accept_connection\<close>) gets
  a node in the list of descriptors, with a request object, a response object (\<open>http.c\<close>), a
  buffer and three function pointers set by \<open>tcp_connection.c\<close> or \<open>tls_connection.c\<close>. When it is
  ready, \<open>handle_connection\<close> reads what has arrived, parses it (\<open>http_request_from_buffer\<close>), lets
  \<open>handle_http_transaction\<close> fill the response - a redirection on plain connections, a magic call for
  a client with the code, or a file, perhaps a range of it (\<open>http_hl.c\<close>) - renders the response
  into the same buffer and sends it.

  How C is modelled. Undefined behaviour, a failed \<open>assert\<close> and \<open>exit\<close> are the \<open>Fault\<close> values of the
  type \<open>outcome\<close>; a function that may run forever has a result in \<open>outcome option\<close> (\<open>run\<close>) and is
  defined by \<open>partial_function (option)\<close>, so no fuel is chosen anywhere: \<open>None\<close> is not returning, and
  returning is proved where it is claimed. Owned blocks are \<open>ptr\<close> values (null, live, freed); memory
  blocks are lists of bytes with checked access; \<open>ndebug\<close> says whether assertions are compiled
  in. \<open>size_t\<close> is \<open>nat\<close> where the block it measures bounds it, a 64-bit word in the range code,
  and \<open>nat\<close> with the wrap-around written out (\<open>size_sub\<close>, \<open>size_add\<close>) for the capacity of a buffer.
  Pages have 4096 bytes and the array of pages 128 entries, as in the code. \<open>static\<close> variables are
  the fields of the record \<open>server\<close>.

  The theories, in the order of the code:
  \<^item> \<open>Prelude\<close>, \<open>C_Strings\<close>: outcomes, blocks, slices, the C library functions on strings.
  \<^item> \<open>Http_Codes\<close> (\<open>http.h\<close>): the enumerations and the error texts.
  \<^item> \<open>Header_List\<close> (\<open>http.c\<close>): the header list as a HOL list, with the locale \<open>canonical_store\<close>
    for what its clients rely on. \<open>Header_Heap\<close> has the same operations on pointers,
    \<open>Header_Refinement\<close> the simulation between the two.
  \<^item> \<open>Buffers\<close>: the body, and the locale \<open>sized_getter\<close> for the calling convention of the
    two getters of a request and of rendering, which are its three interpretations.
  \<^item> \<open>Request\<close>, \<open>Request_Parser\<close> (\<open>http.c\<close>): the request object and the parser. \<open>Parser_Safety\<close>,
    \<open>Parser_Grammar\<close>, \<open>Parser_Prefix\<close>, \<open>Parser_Extension\<close> and \<open>Request_Properties\<close> show that it stays in
    terminated buffers, accepts exactly a declarative grammar, answers "incomplete" on
    prefixes unless they are cut inside a token, and depends on the message only.
  \<^item> \<open>Response\<close>, \<open>Response_Properties\<close> (\<open>http.c\<close>): setters, measuring and rendering; any sequence
    of calls is safe, up to \<open>memcpy\<close> of 0 bytes from a null pointer, and the bytes are exactly those
    of the response, framed by their \<open>Content-Length\<close>.
  \<^item> \<open>Range_Header\<close>, \<open>Range_Format\<close>, \<open>Range_Properties\<close> (\<open>http_hl.c\<close>): \<open>parse_range\<close>, its round trip
    with the text of a range specification, its soundness and its failures.
  \<^item> \<open>Auth_Code\<close> (\<open>server.c\<close>): the code is generated once and is injective in the random words.
  \<^item> \<open>Common\<close> (\<open>common.c\<close>): the log filter, ports and addresses.
  \<^item> \<open>Transport\<close>, \<open>Transport_Properties\<close> (\<open>tcp_connection.c\<close>, \<open>tls_connection.c\<close>): the TLS state
    machine, the credential, the closing loop; the locales \<open>byte_sink\<close> and \<open>byte_source\<close> for
    what the handler relies on, interpreted on the calls through the function pointers.
  \<^item> \<open>Descriptors\<close> (\<open>server.c\<close>): connections and the intrusive list with its \<open>prev\<close> links.
  \<^item> \<open>Transaction\<close>, \<open>Transaction_Properties\<close>: \<open>handle_http_transaction\<close> and its helpers.
  \<^item> \<open>Connection\<close>, \<open>Connection_Lemmas\<close>, \<open>Connection_Properties\<close>, \<open>Connection_Loops\<close>, \<open>Exchange\<close>:
    \<open>handle_connection\<close>; what arrives in pieces is assembled, the response leaves in order, the
    loops that do not end or leave their array, and the exchange of a file from its request to
    the bytes of its response.
  \<^item> \<open>Event_Loop\<close>, \<open>Event_Loop_Properties\<close>, \<open>Server_Runs\<close>, \<open>Server_Types\<close>: \<open>main\<close>. \<open>Server_Runs\<close> relates the
    loop to an inductive step relation; over all its runs only a client with the code changes the
    log level or stops the server, and (\<open>Server_Types\<close>) every node of the heap stays well formed. \<open>Handler_Returns\<close> shows on such nodes
    that a call of the handler returns, and the exceptions.

  Parameters. The kernel, the C library calls that reach it, and GnuTLS are arguments: the
  record \<open>net\<close> for \<open>recv\<close>, \<open>send\<close> and the GnuTLS calls on a state of the world of any type, the
  record \<open>environment\<close> for \<open>getsockname\<close>, \<open>inet_ntop\<close>, \<open>getrandom\<close>, \<open>getcwd\<close>, \<open>realpath\<close>, \<open>open\<close> and the
  content of fresh memory, \<open>listen_target\<close> and \<open>ready_event\<close> for the calls of the event loop, and an
  \<open>allocator\<close> for the heap of headers. \<open>net_ok\<close> (transfers keep within the lengths they are given and in order),
  \<open>env_ok\<close> and \<open>allocator_ok\<close> (blocks of the size asked for, terminated strings) and
  \<open>closed_refuses\<close> (a call on a closed descriptor fails with \<open>EBADF\<close>, not \<open>EAGAIN\<close>) state what is
  documented of them; \<open>progresses\<close> describes a peer that sends finitely much and does not close.
  Nothing is assumed of the set-up of TLS sessions, each call of which may fail, but in C31, which is
  about set-ups that succeed. Each property that
  assumes one of these has a witness on a concrete instance. Two simplifications are taken where
  C17 is stricter than its implementations: \<open>memcpy\<close> of 0 bytes reads nothing, from a null pointer
  (C7 says when this happens) and from \<open>MAP_FAILED\<close> for an empty file.

  Not modelled: the text of log lines (only \<open>common.c\<close> itself); \<open>malloc\<close> and \<open>realloc\<close> are taken to
  succeed; the interest list and the edge-triggering of \<open>epoll\<close>, \<open>fcntl\<close> and \<open>setsockopt\<close>, which no
  model state observes; \<open>munmap\<close> and \<open>close\<close> of a served file; the address structures of
  \<open>getaddrinfo\<close> beyond their family. A directory is an \<open>open\<close> result whose mapping cannot be read.

  What the model showed to be wrong in the code is stated as properties of the model as it
  is: the parser reads one byte past a buffer that ends inside a token; \<open>prev\<close> links that always
  point to the head lose newer descriptors and leave the head dangling; a read of 0 bytes after
  data makes the receive loop spin; 128 full pages overrun the array; a TLS connection whose
  set-up failed is registered with unset function pointers, which the first event calls; a
  descriptor is closed before the closing message of its session; ranges are not limited to
  the file; a rejected request is answered with the body of the previous answer; the header of
  a rejected duplicate is leaked.

  Open: that an exchange over several events ends (each call is shown to return, and the exchange
  to be correct as far as it gets),
  the safety of the list of descriptors in the runs in which it is destroyed in the one order
  its links support, and the composition of the pointer-level headers with the request and
  response objects.
\<close>

end
